(* ===== verification/Prelude.thy ===== *)
theory Prelude
  imports Main "HOL-Library.Word"
begin

text \<open>
  What every component shares: the Python values the program computes with (bytes, unbounded
  integers, times), the exceptions it raises, the two result types (a pure computation that may
  raise, and an effectful one over a state), the text formatting its messages use, and generic
  lemmas on lists.

  \<^item> A Python \<open>bytes\<close> or \<open>bytearray\<close> is a list of 8-bit words. A Python \<open>int\<close> is an
    unbounded HOL \<open>int\<close>; the bit operators of HOL and its two shifts are, on \<open>int\<close>, two's
    complement on unbounded integers, as Python's are.
  \<^item> Indexing a \<open>bytes\<close> gives an \<open>int\<close> (\<^term>\<open>uint\<close>); the constructor \<open>bytes([...])\<close> raises
    \<open>ValueError\<close> outside 0..255 (\<open>py_bytes\<close>).
  \<^item> Seconds (floats in the source) are integers of microseconds.
\<close>

unbundle bit_operations_syntax

type_synonym byte = "8 word"
type_synonym bytes = "byte list"
type_synonym frame = "int \<times> int \<times> bytes"
type_synonym time = int

section \<open>Exceptions and results\<close>

text \<open>
  The exceptions of the program and those of the standard library that its code can raise. The
  argument of \<open>AisgError\<close> is the message; \<open>AisgTimeout\<close> carries the address, the N(S), whether
  the command was acknowledged and the number of polls; \<open>RetError\<close> the procedure and the return
  code.
\<close>

datatype exn =
    AisgError string
  | PortBusy string
  | PortLost string
  | AisgTimeout int int bool int
  | LinkReset int string
  | RetError int int
  | SessionError string string
  | FrameError string
  | OSError string
  | ValueError
  | StructError
  | IndexError
  | KeyError
  | TypeError
  | RuntimeError
  | AttributeError
  | InvalidStateError
  | Diverged

text \<open>
  \<open>Diverged\<close> is not a Python exception: a loop of the model that runs on a fuel argument ends in it
  when the fuel is used up, and no \<open>except\<close> clause matches it. The theorems that a loop returns say
  how much fuel is enough.

  The class hierarchy as \<open>except AisgError\<close> sees it: \<open>PortBusy\<close>, \<open>PortLost\<close>, \<open>AisgTimeout\<close>,
  \<open>LinkReset\<close>, \<open>RetError\<close> and \<open>SessionError\<close> derive from \<open>AisgError\<close>; \<open>FrameError\<close> derives
  from \<open>Exception\<close> directly and is not one of them.
\<close>

fun is_aisg_error :: "exn \<Rightarrow> bool" where
  "is_aisg_error (AisgError _) = True"
| "is_aisg_error (PortBusy _) = True"
| "is_aisg_error (PortLost _) = True"
| "is_aisg_error (AisgTimeout _ _ _ _) = True"
| "is_aisg_error (LinkReset _ _) = True"
| "is_aisg_error (RetError _ _) = True"
| "is_aisg_error (SessionError _ _) = True"
| "is_aisg_error _ = False"

type_synonym 'a res = "exn + 'a"
type_synonym ('s, 'a) io = "'s \<Rightarrow> 'a res \<times> 's"

fun res_bind :: "'a res \<Rightarrow> ('a \<Rightarrow> 'b res) \<Rightarrow> 'b res" where
  "res_bind (Inl e) f = Inl e"
| "res_bind (Inr a) f = f a"

definition io_return :: "'a \<Rightarrow> ('s, 'a) io" where
  "io_return a s = (Inr a, s)"

definition io_raise :: "exn \<Rightarrow> ('s, 'a) io" where
  "io_raise e s = (Inl e, s)"

definition io_res :: "'a res \<Rightarrow> ('s, 'a) io" where
  "io_res r s = (r, s)"

definition io_modify :: "('s \<Rightarrow> 's) \<Rightarrow> ('s, unit) io" where
  "io_modify f s = (Inr (), f s)"

definition io_bind :: "('s, 'a) io \<Rightarrow> ('a \<Rightarrow> ('s, 'b) io) \<Rightarrow> ('s, 'b) io" where
  "io_bind m f s = (case m s of (Inl e, s') \<Rightarrow> (Inl e, s') | (Inr a, s') \<Rightarrow> f a s')"

definition io_seq :: "('s, 'a) io \<Rightarrow> ('s, 'b) io \<Rightarrow> ('s, 'b) io" where
  "io_seq m k = io_bind m (\<lambda>_. k)"

text \<open>\<open>try: m except E: h\<close>, where \<open>h e = None\<close> says that the clause does not match \<open>e\<close>.\<close>

definition io_catch :: "('s, 'a) io \<Rightarrow> (exn \<Rightarrow> ('s, 'a) io option) \<Rightarrow> ('s, 'a) io" where
  "io_catch m h s =
     (case m s of
        (Inr a, s') \<Rightarrow> (Inr a, s')
      | (Inl e, s') \<Rightarrow> (case h e of None \<Rightarrow> (Inl e, s') | Some k \<Rightarrow> k s'))"

text \<open>\<open>try: m except E: h else: k\<close> and \<open>try: m finally: f\<close>.\<close>

definition io_try :: "('s, 'a) io \<Rightarrow> (exn \<Rightarrow> ('s, 'b) io option) \<Rightarrow> ('a \<Rightarrow> ('s, 'b) io) \<Rightarrow> ('s, 'b) io" where
  "io_try m h k s =
     (case m s of
        (Inr a, s') \<Rightarrow> k a s'
      | (Inl e, s') \<Rightarrow> (case h e of None \<Rightarrow> (Inl e, s') | Some k' \<Rightarrow> k' s'))"

definition io_finally :: "('s, 'a) io \<Rightarrow> ('s, unit) io \<Rightarrow> ('s, 'a) io" where
  "io_finally m f s =
     (case m s of (r, s') \<Rightarrow> (case f s' of (Inl e, s'') \<Rightarrow> (Inl e, s'') | (Inr _, s'') \<Rightarrow> (r, s'')))"

definition io_get :: "('s \<Rightarrow> 'a) \<Rightarrow> ('s, 'a) io" where
  "io_get f s = (Inr (f s), s)"

text \<open>The proofs about effectful code unfold these combinators together.\<close>

named_theorems io_defs

declare io_return_def [io_defs] io_raise_def [io_defs] io_res_def [io_defs]
  io_modify_def [io_defs] io_bind_def [io_defs] io_seq_def [io_defs] io_catch_def [io_defs]
  io_try_def [io_defs] io_finally_def [io_defs] io_get_def [io_defs]

lemma io_bind_simps [simp]:
  "io_bind (io_return a) f = f a" "io_bind (io_res (Inr a)) f = f a"
  "io_bind (io_raise e) f = io_raise e" "io_bind (io_res (Inl e)) f = io_raise e"
  "io_seq (io_return a) m = m"
  by (rule ext, simp add: io_defs)+

text \<open>
  An operation keeps a property of the state whatever it returns or raises.
\<close>

definition io_keeps :: "('s \<Rightarrow> bool) \<Rightarrow> ('s, 'a) io \<Rightarrow> bool" where
  "io_keeps P m \<longleftrightarrow> (\<forall>s. P s \<longrightarrow> P (snd (m s)))"

named_theorems keeps_intros

lemma io_keepsI: "(\<And>s. P s \<Longrightarrow> P (snd (m s))) \<Longrightarrow> io_keeps P m"
  by (simp add: io_keeps_def)

lemma io_keepsD: "io_keeps P m \<Longrightarrow> P s \<Longrightarrow> P (snd (m s))"
  by (simp add: io_keeps_def)

lemma io_keeps_return [keeps_intros]: "io_keeps P (io_return a)"
  by (simp add: io_keeps_def io_defs)

lemma io_keeps_raise [keeps_intros]: "io_keeps P (io_raise e)"
  by (simp add: io_keeps_def io_defs)

lemma io_keeps_res [keeps_intros]: "io_keeps P (io_res r)"
  by (simp add: io_keeps_def io_defs)

lemma io_keeps_modify: "(\<And>s. P s \<Longrightarrow> P (f s)) \<Longrightarrow> io_keeps P (io_modify f)"
  by (simp add: io_keeps_def io_defs)

lemma io_keeps_bind [keeps_intros]:
  "io_keeps P m \<Longrightarrow> (\<And>a. io_keeps P (f a)) \<Longrightarrow> io_keeps P (io_bind m f)"
  unfolding io_keeps_def io_bind_def
  by (auto split: sum.split prod.split)

lemma io_keeps_seq [keeps_intros]:
  "io_keeps P m \<Longrightarrow> io_keeps P k \<Longrightarrow> io_keeps P (io_seq m k)"
  unfolding io_seq_def by (rule io_keeps_bind)

lemma io_keeps_catch [keeps_intros]:
  "io_keeps P m \<Longrightarrow> (\<And>e k. h e = Some k \<Longrightarrow> io_keeps P k) \<Longrightarrow> io_keeps P (io_catch m h)"
  unfolding io_keeps_def io_catch_def
  by (auto split: sum.split prod.split option.split)

lemma io_keeps_if [keeps_intros]:
  "(b \<Longrightarrow> io_keeps P m) \<Longrightarrow> (\<not> b \<Longrightarrow> io_keeps P k) \<Longrightarrow> io_keeps P (if b then m else k)"
  by simp

text \<open>
  A contract by outcome: from a state in \<open>P\<close> the operation returns into \<open>Q\<close> or raises into \<open>E\<close>.
\<close>

definition io_post ::
  "('s \<Rightarrow> bool) \<Rightarrow> ('s, 'a) io \<Rightarrow> ('a \<Rightarrow> 's \<Rightarrow> bool) \<Rightarrow> (exn \<Rightarrow> 's \<Rightarrow> bool) \<Rightarrow> bool" where
  "io_post P m Q E \<longleftrightarrow>
     (\<forall>s. P s \<longrightarrow> (case m s of (Inl e, s') \<Rightarrow> E e s' | (Inr a, s') \<Rightarrow> Q a s'))"

named_theorems post_intros

lemma io_postD_Inr: "io_post P m Q E \<Longrightarrow> P s \<Longrightarrow> m s = (Inr a, s') \<Longrightarrow> Q a s'"
  by (force simp: io_post_def)

lemma io_postD_Inl: "io_post P m Q E \<Longrightarrow> P s \<Longrightarrow> m s = (Inl e, s') \<Longrightarrow> E e s'"
  by (force simp: io_post_def)

lemma io_post_conseq:
  "io_post P' m Q' E' \<Longrightarrow> (\<And>s. P s \<Longrightarrow> P' s) \<Longrightarrow> (\<And>a s. Q' a s \<Longrightarrow> Q a s) \<Longrightarrow>
    (\<And>e s. E' e s \<Longrightarrow> E e s) \<Longrightarrow> io_post P m Q E"
  unfolding io_post_def by (force split: sum.splits prod.splits)

lemma io_post_return: "(\<And>s. P s \<Longrightarrow> Q a s) \<Longrightarrow> io_post P (io_return a) Q E"
  by (simp add: io_post_def io_defs)

lemma io_post_raise: "(\<And>s. P s \<Longrightarrow> E e s) \<Longrightarrow> io_post P (io_raise e) Q E"
  by (simp add: io_post_def io_defs)

lemma io_post_bind:
  "io_post P m R E \<Longrightarrow> (\<And>a. io_post (R a) (f a) Q E) \<Longrightarrow> io_post P (io_bind m f) Q E"
  unfolding io_post_def io_bind_def by (fastforce split: sum.splits prod.splits)

lemma io_post_seq:
  "io_post P m (\<lambda>_. R) E \<Longrightarrow> io_post R k Q E \<Longrightarrow> io_post P (io_seq m k) Q E"
  unfolding io_seq_def by (rule io_post_bind)

lemma io_post_get: "(\<And>s. P s \<Longrightarrow> io_post P (f (g s)) Q E) \<Longrightarrow> io_post P (io_bind (io_get g) f) Q E"
  by (auto simp: io_post_def io_defs)

lemma io_post_ex: "(\<And>x. io_post (P x) m Q E) \<Longrightarrow> io_post (\<lambda>s. \<exists>x. P x s) m Q E"
  unfolding io_post_def by metis

lemma io_post_pure: "(p \<Longrightarrow> io_post P m Q E) \<Longrightarrow> io_post (\<lambda>s. p \<and> P s) m Q E"
  by (cases p) (simp_all add: io_post_def)

lemma io_post_cong: "(\<And>s. P s \<Longrightarrow> m s = m' s) \<Longrightarrow> io_post P m' Q E \<Longrightarrow> io_post P m Q E"
  by (simp add: io_post_def)

lemma io_post_modify: "(\<And>s. P s \<Longrightarrow> Q () (f s)) \<Longrightarrow> io_post P (io_modify f) Q E"
  by (simp add: io_post_def io_defs)

lemma io_post_try:
  "io_post P m R E' \<Longrightarrow> (\<And>a. io_post (R a) (k a) Q E) \<Longrightarrow>
    (\<And>e k'. h e = Some k' \<Longrightarrow> io_post (E' e) k' Q E) \<Longrightarrow>
    (\<And>e s. h e = None \<Longrightarrow> E' e s \<Longrightarrow> E e s) \<Longrightarrow> io_post P (io_try m h k) Q E"
proof (unfold io_post_def, intro allI impI)
  fix s
  assume m: "\<forall>s. P s \<longrightarrow> (case m s of (Inl e, s') \<Rightarrow> E' e s' | (Inr a, s') \<Rightarrow> R a s')"
    and k: "\<And>a. \<forall>s. R a s \<longrightarrow> (case k a s of (Inl e, s') \<Rightarrow> E e s' | (Inr a, s') \<Rightarrow> Q a s')"
    and h: "\<And>e k'. h e = Some k' \<Longrightarrow> \<forall>s. E' e s \<longrightarrow> (case k' s of (Inl e, s') \<Rightarrow> E e s' | (Inr a, s') \<Rightarrow> Q a s')"
    and n: "\<And>e s. h e = None \<Longrightarrow> E' e s \<Longrightarrow> E e s" and s: "P s"
  show "case io_try m h k s of (Inl e, s') \<Rightarrow> E e s' | (Inr a, s') \<Rightarrow> Q a s'"
  proof (cases "m s")
    case (Pair r s')
    show ?thesis
    proof (cases r)
      case (Inl e)
      then have e: "E' e s'" using m s Pair by force
      then show ?thesis using h n Pair Inl by (cases "h e") (auto simp: io_try_def)
    next
      case (Inr a)
      then have "R a s'" using m s Pair by force
      then show ?thesis using k Pair Inr by (auto simp: io_try_def)
    qed
  qed
qed

lemma io_catch_try: "io_catch m h = io_try m h io_return"
  by (rule ext) (auto simp: io_defs split: prod.split sum.split)

lemma io_post_if:
  "(b \<Longrightarrow> io_post P m Q E) \<Longrightarrow> (\<not> b \<Longrightarrow> io_post P k Q E) \<Longrightarrow> io_post P (if b then m else k) Q E"
  by simp

text \<open>The exceptions an operation can raise, from any state.\<close>

definition io_raises :: "(exn \<Rightarrow> bool) \<Rightarrow> ('s, 'a) io \<Rightarrow> bool" where
  "io_raises E m \<longleftrightarrow> (\<forall>s e s'. m s = (Inl e, s') \<longrightarrow> E e)"

named_theorems raises_intros

lemma io_raisesI: "(\<And>s e s'. m s = (Inl e, s') \<Longrightarrow> E e) \<Longrightarrow> io_raises E m"
  by (auto simp: io_raises_def)

lemma io_raises_return [raises_intros]: "io_raises E (io_return a)"
  by (simp add: io_raises_def io_defs)

lemma io_raises_raise: "E e \<Longrightarrow> io_raises E (io_raise e)"
  by (simp add: io_raises_def io_defs)

lemma io_raises_modify [raises_intros]: "io_raises E (io_modify f)"
  by (simp add: io_raises_def io_defs)

lemma io_raises_bind [raises_intros]:
  "io_raises E m \<Longrightarrow> (\<And>a. io_raises E (f a)) \<Longrightarrow> io_raises E (io_bind m f)"
  unfolding io_raises_def io_bind_def by (fastforce split: sum.splits prod.splits)

lemma io_raises_seq [raises_intros]:
  "io_raises E m \<Longrightarrow> io_raises E k \<Longrightarrow> io_raises E (io_seq m k)"
  unfolding io_seq_def by (rule io_raises_bind)

lemma io_raises_if [raises_intros]:
  "(b \<Longrightarrow> io_raises E m) \<Longrightarrow> (\<not> b \<Longrightarrow> io_raises E k) \<Longrightarrow> io_raises E (if b then m else k)"
  by simp

lemma io_raises_mono: "io_raises E m \<Longrightarrow> (\<And>e. E e \<Longrightarrow> E' e) \<Longrightarrow> io_raises E' m"
  by (auto simp: io_raises_def)

lemma io_post_cannot_raise:
  "io_post P m Q E \<Longrightarrow> io_raises (\<lambda>_. False) m \<Longrightarrow> io_post P m Q (\<lambda>_ _. False)"
  unfolding io_post_def io_raises_def by (fastforce split: sum.splits prod.splits)

text \<open>An operation that keeps \<open>P\<close> has the contract in which nothing is lost but the result.\<close>

lemma io_post_keeps:
  "io_keeps P m \<Longrightarrow> io_raises R m \<Longrightarrow> (\<And>e s. R e \<Longrightarrow> P s \<Longrightarrow> E e s) \<Longrightarrow> io_post P m (\<lambda>_. P) E"
  unfolding io_post_def io_keeps_def io_raises_def by (force split: sum.splits prod.splits)

text \<open>
  Both at once: an operation keeps an invariant whether it returns or raises, and what it raises is of
  a known sort.
\<close>

definition io_safe :: "('s \<Rightarrow> bool) \<Rightarrow> (exn \<Rightarrow> bool) \<Rightarrow> ('s, 'a) io \<Rightarrow> bool" where
  "io_safe I E m \<longleftrightarrow> io_post I m (\<lambda>_. I) (\<lambda>e s. E e \<and> I s)"

named_theorems safe_intros

lemma io_safeI: "io_keeps I m \<Longrightarrow> io_raises E m \<Longrightarrow> io_safe I E m"
  unfolding io_safe_def by (rule io_post_keeps) auto

lemma io_safe_post: "io_post I m (\<lambda>_. I) (\<lambda>e s. E e \<and> I s) \<Longrightarrow> io_safe I E m"
  by (simp add: io_safe_def)

lemma io_safe_keeps: "io_safe I E m \<Longrightarrow> I s \<Longrightarrow> m s = (r, s') \<Longrightarrow> I s'"
  unfolding io_safe_def io_post_def by (cases r) fastforce+

lemma io_safe_raises: "io_safe I E m \<Longrightarrow> I s \<Longrightarrow> m s = (Inl e, s') \<Longrightarrow> E e"
  unfolding io_safe_def io_post_def by fastforce

lemma io_safe_mono: "io_safe I E m \<Longrightarrow> (\<And>e. E e \<Longrightarrow> E' e) \<Longrightarrow> io_safe I E' m"
  unfolding io_safe_def by (erule io_post_conseq) auto

lemma io_safe_pure: "(p \<Longrightarrow> io_safe I E m) \<Longrightarrow> io_safe (\<lambda>s. p \<and> I s) E m"
  by (cases p) (simp_all add: io_safe_def io_post_def)

lemma io_safe_ex: "(\<And>x. io_safe (I x) E m) \<Longrightarrow> io_safe (\<lambda>s. \<exists>x. I x s) E m"
proof -
  assume m: "\<And>x. io_safe (I x) E m"
  have "io_post (I x) m (\<lambda>_ s. \<exists>x. I x s) (\<lambda>e s. E e \<and> (\<exists>x. I x s))" for x
    using m [of x] unfolding io_safe_def by (rule io_post_conseq) auto
  then show ?thesis unfolding io_safe_def by (rule io_post_ex)
qed

lemma io_safe_return [safe_intros]: "io_safe I E (io_return a)"
  by (simp add: io_safe_def io_post_return)

lemma io_safe_raise: "E e \<Longrightarrow> io_safe I E (io_raise e)"
  by (simp add: io_safe_def io_post_raise)

lemma io_safe_res: "(\<And>e. r = Inl e \<Longrightarrow> E e) \<Longrightarrow> io_safe I E (io_res r)"
  by (cases r) (auto simp: io_safe_def io_post_def io_defs)

lemma io_safe_modify: "(\<And>s. I s \<Longrightarrow> I (f s)) \<Longrightarrow> io_safe I E (io_modify f)"
  by (auto simp: io_safe_def io_post_def io_defs)

lemma io_safe_bind [safe_intros]:
  "io_safe I E m \<Longrightarrow> (\<And>a. io_safe I E (f a)) \<Longrightarrow> io_safe I E (io_bind m f)"
  unfolding io_safe_def by (rule io_post_bind)

lemma io_safe_seq [safe_intros]: "io_safe I E m \<Longrightarrow> io_safe I E k \<Longrightarrow> io_safe I E (io_seq m k)"
  unfolding io_seq_def by (rule io_safe_bind)

lemma io_safe_if [safe_intros]:
  "(b \<Longrightarrow> io_safe I E m) \<Longrightarrow> (\<not> b \<Longrightarrow> io_safe I E k) \<Longrightarrow> io_safe I E (if b then m else k)"
  by simp

text \<open>A handler may leave fewer sorts of exceptions than its body raises.\<close>

lemma io_safe_catch:
  "io_safe I E' m \<Longrightarrow> (\<And>e k. E' e \<Longrightarrow> h e = Some k \<Longrightarrow> io_safe I E k) \<Longrightarrow>
    (\<And>e. E' e \<Longrightarrow> h e = None \<Longrightarrow> E e) \<Longrightarrow> io_safe I E (io_catch m h)"
proof (rule io_safe_post, unfold io_post_def, intro allI impI)
  fix s
  assume m: "io_safe I E' m" and h: "\<And>e k. E' e \<Longrightarrow> h e = Some k \<Longrightarrow> io_safe I E k"
    and n: "\<And>e. E' e \<Longrightarrow> h e = None \<Longrightarrow> E e" and s: "I s"
  show "case io_catch m h s of (Inl e, s') \<Rightarrow> E e \<and> I s' | (Inr a, s') \<Rightarrow> I s'"
  proof (cases "m s")
    case (Pair r s')
    note s' = io_safe_keeps [OF m s Pair]
    show ?thesis
    proof (cases r)
      case (Inl e)
      note e = io_safe_raises [OF m s Pair [unfolded Inl]]
      show ?thesis
      proof (cases "h e")
        case (Some k)
        with h [OF e Some, unfolded io_safe_def io_post_def] s' Pair Inl show ?thesis
          by (simp add: io_catch_def)
      qed (use Pair Inl e s' n in \<open>simp add: io_catch_def\<close>)
    qed (use Pair s' in \<open>simp add: io_catch_def\<close>)
  qed
qed

lemma io_safe_get [safe_intros]: "io_safe I E (io_get f)"
  by (simp add: io_safe_def io_post_def io_defs)

lemma io_safe_bind_get: "(\<And>s. I s \<Longrightarrow> io_safe I E (f (g s))) \<Longrightarrow> io_safe I E (io_bind (io_get g) f)"
  by (auto simp: io_safe_def io_post_def io_defs)

lemma io_try_catch:
  "io_try m h k = io_bind (io_catch (io_bind m (\<lambda>a. io_return (Inl a))) (\<lambda>e. map_option (\<lambda>k'. io_bind k' (\<lambda>b. io_return (Inr b))) (h e)))
     (\<lambda>r. case r of Inl a \<Rightarrow> k a | Inr b \<Rightarrow> io_return b)"
  by (rule ext) (auto simp: io_defs split: prod.splits sum.splits option.splits)

lemma io_safe_try:
  assumes "io_safe I E' m" and "\<And>e k. E' e \<Longrightarrow> h e = Some k \<Longrightarrow> io_safe I E k"
    and "\<And>e. E' e \<Longrightarrow> h e = None \<Longrightarrow> E e" and "\<And>a. io_safe I E (k a)"
  shows "io_safe I E (io_try m h k)"
  unfolding io_try_catch
  by (intro io_safe_bind io_safe_catch [where E' = E'])
    (auto intro: assms safe_intros split: sum.split)

lemma io_safe_finally: "io_safe I E m \<Longrightarrow> io_safe I E f \<Longrightarrow> io_safe I E (io_finally m f)"
proof (rule io_safe_post, unfold io_post_def, intro allI impI)
  fix s
  assume m: "io_safe I E m" and f: "io_safe I E f" and s: "I s"
  show "case io_finally m f s of (Inl e, s') \<Rightarrow> E e \<and> I s' | (Inr a, s') \<Rightarrow> I s'"
  proof (cases "m s")
    case (Pair r s')
    note s' = io_safe_keeps [OF m s Pair]
    show ?thesis
    proof (cases "f s'")
      case f': (Pair r' s'')
      show ?thesis
        using io_safe_keeps [OF f s' f'] io_safe_raises [OF f s'] io_safe_raises [OF m s] Pair f'
        by (cases r; cases r') (auto simp: io_finally_def)
    qed
  qed
qed

lemma io_post_finally:
  "io_post P m R E' \<Longrightarrow> (\<And>a. io_safe (R a) (\<lambda>_. False) f) \<Longrightarrow> (\<And>e. io_safe (E' e) (\<lambda>_. False) f) \<Longrightarrow>
    io_post P (io_finally m f) R E'"
proof (unfold io_post_def [of P "io_finally m f"], intro allI impI)
  fix s
  assume m: "io_post P m R E'" and f: "\<And>a. io_safe (R a) (\<lambda>_. False) f"
    and g: "\<And>e. io_safe (E' e) (\<lambda>_. False) f" and s: "P s"
  obtain r s' where ms: "m s = (r, s')" by (cases "m s")
  obtain r' s'' where fs: "f s' = (r', s'')" by (cases "f s'")
  show "case io_finally m f s of (Inl e, s') \<Rightarrow> E' e s' | (Inr a, s') \<Rightarrow> R a s'"
  proof (cases r)
    case (Inl e)
    have e: "E' e s'" by (rule io_postD_Inl [OF m s ms [unfolded Inl]])
    from io_safe_keeps [OF g e fs] io_safe_raises [OF g e] fs ms Inl show ?thesis
      by (cases r') (auto simp: io_finally_def)
  next
    case (Inr a)
    have a: "R a s'" by (rule io_postD_Inr [OF m s ms [unfolded Inr]])
    from io_safe_keeps [OF f a fs] io_safe_raises [OF f a] fs ms Inr show ?thesis
      by (cases r') (auto simp: io_finally_def)
  qed
qed


section \<open>Python bytes\<close>

text \<open>\<open>bytes([...])\<close>: each item must be in \<open>range(0, 256)\<close>.\<close>

definition py_bytes :: "int list \<Rightarrow> bytes res" where
  "py_bytes xs =
     (if list_all (\<lambda>x. 0 \<le> x \<and> x < 256) xs then Inr (map word_of_int xs) else Inl ValueError)"

lemma uint_byte_range [simp]: "0 \<le> uint (b :: byte)" "uint (b :: byte) < 256"
  using uint_lt2p [of b] by simp_all

lemma uint_word_of_int_byte: "0 \<le> x \<Longrightarrow> x < 256 \<Longrightarrow> uint (word_of_int x :: byte) = x"
  by (simp add: uint_word_of_int)

lemma uint_word_of_nat_byte: "n < 256 \<Longrightarrow> uint (word_of_nat n :: byte) = int n"
  using uint_word_of_int_byte [of "int n"] by simp

lemma unat_word_of_nat_byte: "n < 256 \<Longrightarrow> unat (word_of_nat n :: byte) = n"
  by (simp add: unat_of_nat)

lemma py_bytes_uint [simp]: "py_bytes (map uint (bs :: bytes)) = Inr bs"
  by (simp add: py_bytes_def list_all_iff comp_def)

lemma py_bytes_Inr_iff:
  "py_bytes xs = Inr bs \<longleftrightarrow> list_all (\<lambda>x. 0 \<le> x \<and> x < 256) xs \<and> bs = map word_of_int xs"
  by (auto simp: py_bytes_def)

lemma py_bytes_length: "py_bytes xs = Inr bs \<Longrightarrow> length bs = length xs"
  by (auto simp: py_bytes_Inr_iff)

text \<open>\<open>buf.find(b, start)\<close>: the least index from \<open>start\<close> on, \<open>None\<close> for -1.\<close>

fun find_from :: "'a \<Rightarrow> 'a list \<Rightarrow> nat \<Rightarrow> nat option" where
  "find_from b [] n = None"
| "find_from b (x # xs) 0 = (if x = b then Some 0 else map_option Suc (find_from b xs 0))"
| "find_from b (x # xs) (Suc n) = map_option Suc (find_from b xs n)"

text \<open>\<open>data.split(bytes([b]))\<close>: the chunks between separators, one more than separators.\<close>

fun py_split :: "'a \<Rightarrow> 'a list \<Rightarrow> 'a list list" where
  "py_split b [] = [[]]"
| "py_split b (x # xs) =
     (if x = b then [] # py_split b xs
      else (case py_split b xs of [] \<Rightarrow> [[x]] | c # cs \<Rightarrow> (x # c) # cs))"

lemma py_split_nonempty [simp]: "py_split b xs \<noteq> []"
  by (induction xs) (auto split: list.split)

lemma py_split_notin: "b \<notin> set xs \<Longrightarrow> py_split b xs = [xs]"
  by (induction xs) (auto)

lemma py_split_append_sep: "py_split b (xs @ b # ys) = py_split b xs @ py_split b ys"
  by (induction xs) (auto split: list.split simp: Cons_eq_append_conv)

lemma py_split_sep_notin: "b \<notin> set xs \<Longrightarrow> py_split b (xs @ b # ys) = xs # py_split b ys"
  by (simp add: py_split_append_sep py_split_notin)

lemma py_split_chunks: "c \<in> set (py_split b xs) \<Longrightarrow> b \<notin> set c"
  by (induction xs arbitrary: c) (auto split: if_splits list.splits)

lemma py_split_singleton: "py_split b xs = [c] \<longleftrightarrow> xs = c \<and> b \<notin> set c"
proof
  assume s: "py_split b xs = [c]"
  have "b \<notin> set xs"
  proof
    assume "b \<in> set xs"
    then obtain ys zs where "xs = ys @ b # zs" by (auto simp: in_set_conv_decomp)
    with s show False
      using py_split_nonempty [of b ys] py_split_nonempty [of b zs]
      by (cases "py_split b ys") (auto simp: py_split_append_sep simp del: py_split_nonempty)
  qed
  with s show "xs = c \<and> b \<notin> set c" by (simp add: py_split_notin)
qed (simp add: py_split_notin)

lemma py_split_Cons2:
  "py_split b xs = c # cs \<Longrightarrow> cs \<noteq> [] \<Longrightarrow>
    \<exists>rest. xs = c @ b # rest \<and> b \<notin> set c \<and> py_split b rest = cs"
proof -
  assume s: "py_split b xs = c # cs" and ne: "cs \<noteq> []"
  have "b \<in> set xs"
  proof (rule ccontr)
    assume "b \<notin> set xs"
    with s ne show False by (simp add: py_split_notin)
  qed
  then obtain ys zs where xs: "xs = ys @ b # zs" and ys: "b \<notin> set ys"
    by (meson split_list_first)
  with s show ?thesis by (auto simp: py_split_sep_notin)
qed

lemma py_split_append:
  "py_split b (xs @ ys) = butlast (py_split b xs) @ py_split b (last (py_split b xs) @ ys)"
proof (induction xs)
  case (Cons x xs)
  show ?case
  proof (cases "x = b")
    case True
    with Cons show ?thesis by simp
  next
    case False
    show ?thesis
    proof (cases "py_split b xs")
      case (Cons c cs)
      with False \<open>py_split b (xs @ ys) = _\<close> show ?thesis
        by (cases "cs = []") (auto split: list.split)
    qed simp
  qed
qed simp

lemma py_split_last_length:
  "py_split b xs = c # cs \<Longrightarrow> cs \<noteq> [] \<Longrightarrow> length (last cs) < length xs"
proof (induction cs arbitrary: c xs)
  case (Cons d ds)
  then obtain rest where r: "xs = c @ b # rest" "py_split b rest = d # ds"
    using py_split_Cons2 [of b xs c "d # ds"] by auto
  show ?case
  proof (cases "ds = []")
    case True
    with r show ?thesis by (auto simp: py_split_singleton)
  next
    case False
    with Cons.IH [of rest d] r show ?thesis by simp
  qed
qed simp

lemma py_split_notin_append: "b \<notin> set xs \<Longrightarrow> tl (py_split b (xs @ ys)) = tl (py_split b ys)"
  by (induction xs) (auto split: list.split)

lemma length_py_split: "length (py_split b xs) = Suc (length (filter (\<lambda>x. x = b) xs))"
  by (induction xs) (auto split: list.split)

lemma find_from_0_None: "find_from b xs 0 = None \<longleftrightarrow> b \<notin> set xs"
  by (induction xs) auto

lemma find_from_0_notin: "b \<notin> set xs \<Longrightarrow> find_from b (xs @ b # ys) 0 = Some (length xs)"
  by (induction xs) auto

lemma find_from_Some_bounds: "find_from b xs n = Some j \<Longrightarrow> n \<le> j \<and> j < length xs"
proof (induction b xs n arbitrary: j rule: find_from.induct)
  case (2 b x xs)
  then show ?case by (cases "x = b") (auto)
qed auto

lemma find_from_drop: "find_from b xs n = map_option ((+) n) (find_from b (drop n xs) 0)"
proof (induction b xs n rule: find_from.induct)
  case (3 b x xs n)
  then show ?case by (cases "find_from b (drop n xs) 0") simp_all
qed (auto simp: option.map_ident)

section \<open>Hexadecimal text\<close>

definition hex_digit :: "bool \<Rightarrow> nat \<Rightarrow> char" where
  "hex_digit upper d =
     (if d < 10 then char_of (48 + d) else if upper then char_of (55 + d) else char_of (87 + d))"

fun hex_nat :: "bool \<Rightarrow> nat \<Rightarrow> string" where
  "hex_nat upper n =
     (if n < 16 then [hex_digit upper n] else hex_nat upper (n div 16) @ [hex_digit upper (n mod 16)])"

declare hex_nat.simps [simp del]

text \<open>\<open>f"0x{x:02X}"\<close>; a negative number is padded after its sign.\<close>

definition hex02X :: "int \<Rightarrow> string" where
  "hex02X x =
     (if 0 \<le> x then (let h = hex_nat True (nat x) in if length h < 2 then CHR ''0'' # h else h)
      else CHR ''-'' # hex_nat True (nat (- x)))"

definition show_0x :: "int \<Rightarrow> string" where
  "show_0x x = ''0x'' @ hex02X x"

text \<open>A number in decimal.\<close>

fun dec_nat :: "nat \<Rightarrow> string" where
  "dec_nat n = (if n < 10 then [hex_digit False n] else dec_nat (n div 10) @ [hex_digit False (n mod 10)])"

declare dec_nat.simps [simp del]

definition dec_int :: "int \<Rightarrow> string" where
  "dec_int x = (if 0 \<le> x then dec_nat (nat x) else CHR ''-'' # dec_nat (nat (- x)))"

text \<open>\<open>data.hex(' ')\<close>: two lower-case digits a byte, separated by one blank.\<close>

definition hex_byte :: "byte \<Rightarrow> string" where
  "hex_byte b = [hex_digit False (unat b div 16), hex_digit False (unat b mod 16)]"

fun hex_sp :: "bytes \<Rightarrow> string" where
  "hex_sp [] = []"
| "hex_sp [b] = hex_byte b"
| "hex_sp (b # c # bs) = hex_byte b @ CHR '' '' # hex_sp (c # bs)"

section \<open>Machines: an invariant kept by one step is kept by every run\<close>

locale stepper =
  fixes step :: "'s \<Rightarrow> 'e \<Rightarrow> 's" and inv :: "'s \<Rightarrow> bool"
  assumes inv_step: "inv s \<Longrightarrow> inv (step s e)"
begin

lemma inv_run: "inv s \<Longrightarrow> inv (foldl step s es)"
  by (induction es arbitrary: s) (auto intro: inv_step)

lemma inv_every_prefix: "inv s \<Longrightarrow> inv (foldl step s (take n es))"
  by (rule inv_run)

end

end
