(* ===== verification/Hdlc_Framing.thy ===== *)
theory Hdlc_Framing
  imports Prelude
begin

text \<open>
  \<open>openaisg/hdlc.py\<close>, lines 1 to 92: the wire constants, the frame check sequence, byte stuffing,
  \<open>build_frame\<close> and the one-shot \<open>parse_frames\<close>. The lemmas give the table-driven FCS its bitwise
  reading, its range and its error detection, the round trip of stuffing, and what
  \<open>parse_frames\<close> makes of a stream of built frames.
\<close>

section \<open>Constants\<close>

definition FLAG :: byte where "FLAG = 0x7E"
definition ESC :: byte where "ESC = 0x7D"
definition ESC_XOR :: byte where "ESC_XOR = 0x20"

definition ADDR_BROADCAST :: int where "ADDR_BROADCAST = 0xFF"
definition ADDR_NO_DEVICE :: int where "ADDR_NO_DEVICE = 0x00"

definition CTRL_SNRM :: int where "CTRL_SNRM = 0x83"
definition CTRL_XID :: int where "CTRL_XID = 0xAF"
definition CTRL_UA :: int where "CTRL_UA = 0x63"
definition CTRL_DISC :: int where "CTRL_DISC = 0x43"
definition CTRL_DM :: int where "CTRL_DM = 0x0F"
definition CTRL_FRMR :: int where "CTRL_FRMR = 0x87"
definition PF :: int where "PF = 0x10"

lemmas stuff_consts = FLAG_def ESC_def ESC_XOR_def
lemmas ctrl_consts = CTRL_SNRM_def CTRL_XID_def CTRL_UA_def CTRL_DISC_def CTRL_DM_def
  CTRL_FRMR_def PF_def
lemmas wire_consts = stuff_consts ctrl_consts ADDR_BROADCAST_def ADDR_NO_DEVICE_def

section \<open>Frame check sequence\<close>

text \<open>One turn of the inner loop that fills \<open>_crc_table\<close>.\<close>

definition crc_bit :: "int \<Rightarrow> int" where
  "crc_bit c = (if c AND 1 \<noteq> 0 then drop_bit 1 c XOR 0x8408 else drop_bit 1 c)"

definition crc_table :: "int list" where
  "crc_table = map (\<lambda>b. (crc_bit ^^ 8) (int b)) [0..<256]"

definition crc_step :: "int \<Rightarrow> byte \<Rightarrow> int" where
  "crc_step crc b = drop_bit 8 crc XOR crc_table ! nat ((crc XOR uint b) AND 0xFF)"

definition fcs16 :: "bytes \<Rightarrow> int" where
  "fcs16 data = foldl crc_step 0xFFFF data XOR 0xFFFF"

section \<open>Byte stuffing\<close>

fun stuff :: "bytes \<Rightarrow> bytes" where
  "stuff [] = []"
| "stuff (b # bs) =
     (if b = FLAG \<or> b = ESC then ESC # (b XOR ESC_XOR) # stuff bs else b # stuff bs)"

text \<open>The loop of \<open>unstuff\<close>; the first argument is its local \<open>esc\<close>.\<close>

fun unstuff_loop :: "bool \<Rightarrow> bytes \<Rightarrow> bytes" where
  "unstuff_loop esc [] = []"
| "unstuff_loop esc (b # bs) =
     (if esc then (b XOR ESC_XOR) # unstuff_loop False bs
      else if b = ESC then unstuff_loop True bs
      else b # unstuff_loop False bs)"

definition unstuff :: "bytes \<Rightarrow> bytes" where
  "unstuff data = unstuff_loop False data"

section \<open>Building and parsing frames\<close>

definition build_frame :: "int \<Rightarrow> int \<Rightarrow> bytes \<Rightarrow> bytes res" where
  "build_frame addr ctrl payload =
     res_bind (py_bytes [addr, ctrl]) (\<lambda>head.
       let body = head @ payload; crc = fcs16 body in
       res_bind (py_bytes [crc AND 0xFF, drop_bit 8 crc]) (\<lambda>fcs.
         Inr ([FLAG] @ stuff (body @ fcs) @ [FLAG])))"

text \<open>\<open>fcs16(body[:-2]) == body[-2] | (body[-1] << 8)\<close>\<close>

definition fcs_ok :: "bytes \<Rightarrow> bool" where
  "fcs_ok body \<longleftrightarrow>
     (let n = length body in
      fcs16 (take (n - 2) body) = uint (body ! (n - 2)) OR push_bit 8 (uint (body ! (n - 1))))"

text \<open>\<open>body[0], body[1], body[2:-2]\<close>\<close>

definition frame_of :: "bytes \<Rightarrow> frame" where
  "frame_of body = (uint (body ! 0), uint (body ! 1), drop 2 (take (length body - 2) body))"

text \<open>The loop of \<open>parse_frames\<close>: the frames it yields, and the exception it then raises, if any.\<close>

fun parse_chunks :: "bytes list \<Rightarrow> frame list \<times> exn option" where
  "parse_chunks [] = ([], None)"
| "parse_chunks (chunk # chunks) =
     (if chunk = [] then parse_chunks chunks
      else let body = unstuff chunk in
        if length body < 4 then parse_chunks chunks
        else if \<not> fcs_ok body then ([], Some (FrameError (''bad FCS in frame: '' @ hex_sp body)))
        else (let (fs, e) = parse_chunks chunks in (frame_of body # fs, e)))"

definition parse_frames :: "bytes \<Rightarrow> frame list \<times> exn option" where
  "parse_frames raw = parse_chunks (py_split FLAG raw)"

text \<open>\<open>list(parse_frames(raw))\<close>: the frames already yielded are lost when it raises.\<close>

definition list_parse_frames :: "bytes \<Rightarrow> frame list res" where
  "list_parse_frames raw =
     (case parse_frames raw of (fs, None) \<Rightarrow> Inr fs | (fs, Some e) \<Rightarrow> Inl e)"

section \<open>The table against the bitwise CRC\<close>

definition crc_byte :: "int \<Rightarrow> int" where
  "crc_byte x = (crc_bit ^^ 8) x"

definition is16 :: "int \<Rightarrow> bool" where
  "is16 x \<longleftrightarrow> 0 \<le> x \<and> x < 65536"

lemma and_one_ne_0: "(x :: int) AND 1 \<noteq> 0 \<longleftrightarrow> odd x"
  by (simp add: and_one_eq odd_iff_mod_2_eq_one)

lemma crc_bit_alt: "crc_bit c = (if odd c then drop_bit 1 c XOR 0x8408 else drop_bit 1 c)"
  by (simp add: crc_bit_def and_one_ne_0)

lemma odd_xor_int: "odd ((x :: int) XOR y) \<longleftrightarrow> (odd x \<noteq> odd y)"
  using bit_xor_iff [of x y 0] by (simp add: bit_0)

lemma crc_bit_xor: "crc_bit (x XOR y) = crc_bit x XOR crc_bit y"
  by (auto simp: crc_bit_alt odd_xor_int drop_bit_xor ac_simps simp flip: xor.assoc)

lemma crc_bit_pow_xor: "(crc_bit ^^ n) (x XOR y) = (crc_bit ^^ n) x XOR (crc_bit ^^ n) y"
  by (induction n) (simp_all add: crc_bit_xor)

lemma crc_byte_xor: "crc_byte (x XOR y) = crc_byte x XOR crc_byte y"
  by (simp only: crc_byte_def crc_bit_pow_xor)

lemma crc_bit_double: "crc_bit (push_bit 1 x) = x"
  by (simp add: crc_bit_alt push_bit_eq_mult drop_bit_eq_div)

lemma crc_bit_pow_push: "(crc_bit ^^ n) (push_bit n x) = x"
proof (induction n)
  case (Suc n)
  have "push_bit (Suc n) x = push_bit 1 (push_bit n x)" by simp
  then have "(crc_bit ^^ Suc n) (push_bit (Suc n) x) = (crc_bit ^^ n) (push_bit n x)"
    by (simp only: funpow_Suc_right comp_apply crc_bit_double)
  with Suc show ?case by simp
qed simp

lemma crc_byte_push: "crc_byte (push_bit 8 x) = x"
  by (simp only: crc_byte_def crc_bit_pow_push)

lemma and_FF: "(x :: int) AND 0xFF = take_bit 8 x"
  by (simp add: take_bit_eq_mask mask_eq_exp_minus_1)

lemma split_low_byte: "(x :: int) = take_bit 8 x XOR push_bit 8 (drop_bit 8 x)"
  by (rule bit_eqI, rename_tac n, case_tac "n < 8") (auto simp: bit_simps)

lemma int_halves: "(x :: int) = take_bit 8 x OR push_bit 8 (drop_bit 8 x)"
proof (rule bit_eqI)
  fix n assume "possible_bit TYPE(int) n"
  show "bit x n = bit (take_bit 8 x OR push_bit 8 (drop_bit 8 x)) n"
    by (cases "n < 8") (auto simp: bit_simps)
qed

lemma crc_byte_split: "crc_byte x = drop_bit 8 x XOR crc_byte (take_bit 8 x)"
proof -
  have "crc_byte x = crc_byte (take_bit 8 x XOR push_bit 8 (drop_bit 8 x))"
    using split_low_byte [of x] by simp
  then show ?thesis by (simp add: crc_byte_xor crc_byte_push xor.commute)
qed

lemma crc_table_nth: "i < 256 \<Longrightarrow> crc_table ! i = crc_byte (int i)"
  by (simp add: crc_table_def crc_byte_def)

lemma drop_bit_byte [simp]: "drop_bit 8 (uint (b :: byte)) = 0"
  by (simp add: drop_bit_eq_div)

lemma take_bit_byte_range: "0 \<le> take_bit 8 (x :: int) \<and> take_bit 8 x < 256"
  using take_bit_int_less_exp [of 8 x] by simp

lemma crc_step_bitwise: "crc_step s b = crc_byte (s XOR uint b)"
proof -
  have "nat (take_bit 8 (s XOR uint b)) < 256"
    using take_bit_byte_range [of "s XOR uint b"] by (simp add: nat_less_iff)
  then have "crc_step s b = drop_bit 8 s XOR crc_byte (take_bit 8 (s XOR uint b))"
    unfolding crc_step_def and_FF by (subst crc_table_nth) (simp_all add: take_bit_byte_range)
  also have "\<dots> = crc_byte (s XOR uint b)"
    by (subst (2) crc_byte_split) (simp add: drop_bit_xor)
  finally show ?thesis .
qed

section \<open>Range of the FCS\<close>

lemma is16_xor: "is16 x \<Longrightarrow> is16 y \<Longrightarrow> is16 (x XOR y)"
  using XOR_upper [of x 16 y] by (simp add: is16_def)

lemma is16_crc_bit: "is16 x \<Longrightarrow> is16 (crc_bit x)"
proof -
  assume x: "is16 x"
  then have "is16 (drop_bit 1 x)" by (auto simp: is16_def drop_bit_eq_div)
  moreover have "is16 (0x8408)" by (simp add: is16_def)
  ultimately show ?thesis by (simp add: crc_bit_alt is16_xor)
qed

lemma is16_crc_byte: "is16 x \<Longrightarrow> is16 (crc_byte x)"
proof -
  have "is16 x \<Longrightarrow> is16 ((crc_bit ^^ n) x)" for n
    by (induction n) (simp_all add: is16_crc_bit)
  then show "is16 x \<Longrightarrow> is16 (crc_byte x)" by (simp only: crc_byte_def)
qed

lemma is16_byte: "is16 (uint (b :: byte))"
  using uint_byte_range(2) [of b] by (simp add: is16_def del: uint_byte_range)

lemma is16_crc_step: "is16 s \<Longrightarrow> is16 (crc_step s b)"
  by (simp add: crc_step_bitwise is16_crc_byte is16_xor is16_byte)

text \<open>The CRC register as a machine: 16 bits wide after every byte.\<close>

interpretation crc_reg: stepper crc_step is16
  by unfold_locales (rule is16_crc_step)

lemma is16_init: "is16 0xFFFF"
  by (simp add: is16_def)

lemma is16_fcs16: "is16 (fcs16 data)"
  unfolding fcs16_def by (intro is16_xor crc_reg.inv_run is16_init)

lemma fcs_octets: "py_bytes [fcs16 d AND 0xFF, drop_bit 8 (fcs16 d)]
    = Inr [word_of_int (fcs16 d), word_of_int (drop_bit 8 (fcs16 d))]"
proof -
  have f: "0 \<le> fcs16 d" "fcs16 d < 65536" using is16_fcs16 [of d] by (auto simp: is16_def)
  have "0 \<le> fcs16 d div 256 \<and> fcs16 d div 256 < 256" using f by arith
  moreover have "word_of_int (take_bit 8 (fcs16 d)) = (word_of_int (fcs16 d) :: byte)"
    by (simp add: word_of_int_eq_iff)
  ultimately show ?thesis
    by (simp add: py_bytes_def and_FF drop_bit_eq_div take_bit_byte_range)
qed

section \<open>Error detection\<close>

lemma xor_move: "(x :: int) XOR y = z \<longleftrightarrow> x XOR z = y"
  by (auto simp flip: xor.assoc)

lemma xor_eq_0: "(x :: int) XOR y = 0 \<longleftrightarrow> x = y"
  by (subst xor_move) auto

lemma xor_right_cancel: "(x :: int) XOR z = y XOR z \<longleftrightarrow> x = y"
  by (metis xor.assoc xor_self_eq xor.right_neutral)

lemma xor_left_cancel: "(z :: int) XOR x = z XOR y \<longleftrightarrow> x = y"
  by (metis xor.commute xor_right_cancel)

lemma crc_bit_zero: "is16 z \<Longrightarrow> crc_bit z = 0 \<Longrightarrow> z = 0"
proof -
  assume z: "is16 z" and c: "crc_bit z = 0"
  have "\<not> odd z"
  proof
    assume "odd z"
    with c have "drop_bit 1 z XOR 0x8408 = 0" by (simp add: crc_bit_alt)
    then have "drop_bit 1 z = 0x8408" by (simp add: xor_eq_0)
    then have "z div 2 = 33800" by (simp add: drop_bit_eq_div)
    moreover have "z < 65536" using z by (simp add: is16_def)
    ultimately show False by arith
  qed
  with c have "z div 2 = 0" by (simp add: crc_bit_alt drop_bit_eq_div)
  with \<open>\<not> odd z\<close> show "z = 0" by presburger
qed

lemma crc_byte_zero: "is16 z \<Longrightarrow> crc_byte z = 0 \<Longrightarrow> z = 0"
proof -
  have "is16 z \<Longrightarrow> (crc_bit ^^ n) z = 0 \<Longrightarrow> z = 0" for n
  proof (induction n arbitrary: z)
    case (Suc n)
    then have "crc_bit z = 0" by (simp only: funpow_Suc_right comp_apply is16_crc_bit)
    with Suc.prems(1) show ?case by (rule crc_bit_zero)
  qed simp
  then show "is16 z \<Longrightarrow> crc_byte z = 0 \<Longrightarrow> z = 0" by (simp only: crc_byte_def)
qed

lemma crc_byte_inj: "is16 x \<Longrightarrow> is16 y \<Longrightarrow> crc_byte x = crc_byte y \<longleftrightarrow> x = y"
proof -
  assume xy: "is16 x" "is16 y"
  show ?thesis
  proof
    assume "crc_byte x = crc_byte y"
    then have "crc_byte (x XOR y) = 0" by (simp add: crc_byte_xor)
    with xy have "x XOR y = 0" using crc_byte_zero is16_xor by blast
    then show "x = y" by (simp add: xor_eq_0)
  qed simp
qed

abbreviation crc_run :: "int \<Rightarrow> bytes \<Rightarrow> int" where
  "crc_run s d \<equiv> foldl crc_step s d"

lemma is16_crc_run: "is16 s \<Longrightarrow> is16 (crc_run s d)"
  by (rule crc_reg.inv_run)

lemma crc_step_state_inj: "is16 s \<Longrightarrow> is16 t \<Longrightarrow> crc_step s b = crc_step t b \<longleftrightarrow> s = t"
  by (simp add: crc_step_bitwise crc_byte_inj is16_xor is16_byte xor_right_cancel)

lemma crc_run_state_inj: "is16 s \<Longrightarrow> is16 t \<Longrightarrow> crc_run s d = crc_run t d \<longleftrightarrow> s = t"
  by (induction d arbitrary: s t) (simp_all add: crc_step_state_inj is16_crc_step)

text \<open>Two octets at once: the register sees them as one 16-bit value.\<close>

definition pair16 :: "byte \<Rightarrow> byte \<Rightarrow> int" where
  "pair16 a b = uint a OR push_bit 8 (uint b)"

lemma pair16_xor: "pair16 a b = uint a XOR push_bit 8 (uint b)"
proof -
  have "uint a AND push_bit 8 (uint b) = 0"
  proof (rule bit_eqI)
    fix n
    have "bit (uint a) n \<Longrightarrow> n < 8" using bit_imp_le_length [of a n] by (simp add: bit_uint_iff)
    then show "bit (uint a AND push_bit 8 (uint b)) n = bit 0 n"
      by (auto simp: bit_and_iff bit_push_bit_iff)
  qed
  then show ?thesis
    unfolding pair16_def by (auto simp: disjunctive_xor_eq_or)
qed

lemma pair16_range: "is16 (pair16 a b)"
proof -
  have "0 \<le> push_bit 8 (uint b)" "push_bit 8 (uint b) < 65536"
    using uint_byte_range [of b] by (simp_all add: push_bit_eq_mult del: uint_byte_range)
  then have "is16 (push_bit 8 (uint b))" by (simp add: is16_def)
  then show ?thesis by (simp add: pair16_xor is16_xor is16_byte)
qed

lemma pair16_inj: "pair16 a b = pair16 c d \<longleftrightarrow> a = c \<and> b = d"
proof
  assume e: "pair16 a b = pair16 c d"
  have lo: "take_bit 8 (pair16 x y) = uint x" for x y
    by (simp add: pair16_def take_bit_or take_bit_push_bit take_bit_int_eq_self)
  have hi: "drop_bit 8 (pair16 x y) = uint y" for x y
    by (simp add: pair16_xor drop_bit_xor drop_bit_push_bit)
  from e lo [of a b] lo [of c d] hi [of a b] hi [of c d] show "a = c \<and> b = d"
    by (simp add: word_uint_eq_iff)
qed simp

lemma crc_run_pair: "crc_run s [a, b] = crc_byte (crc_byte (s XOR pair16 a b))"
proof -
  have "crc_byte (s XOR uint a) XOR uint b = crc_byte ((s XOR uint a) XOR push_bit 8 (uint b))"
    by (simp add: crc_byte_xor crc_byte_push)
  then show ?thesis by (simp add: crc_step_bitwise pair16_xor xor.assoc)
qed

text \<open>
  The FCS of a body is right exactly when the register, run over the body and its two FCS octets,
  ends in the constant 0xF0B8.
\<close>

lemma crc_byte_unfold:
  "crc_byte x = crc_bit (crc_bit (crc_bit (crc_bit (crc_bit (crc_bit (crc_bit (crc_bit x)))))))"
  by (simp add: crc_byte_def eval_nat_numeral)

lemma crc_residue: "crc_byte (crc_byte 0xFFFF) = 0xF0B8"
  by (simp add: crc_byte_unfold crc_bit_def drop_bit_eq_div)

lemma body_split2:
  "2 \<le> length body \<Longrightarrow>
    body = take (length body - 2) body @ [body ! (length body - 2), body ! (length body - 1)]"
  by (rule nth_equalityI) (auto simp: nth_append nth_Cons' numeral_2_eq_2 intro: arg_cong)

lemma fcs_ok_residue: "2 \<le> length body \<Longrightarrow> fcs_ok body \<longleftrightarrow> crc_run 0xFFFF body = 0xF0B8"
proof -
  assume n: "2 \<le> length body"
  let ?d = "take (length body - 2) body"
  let ?w = "pair16 (body ! (length body - 2)) (body ! (length body - 1))"
  let ?s = "crc_run 0xFFFF ?d"
  have s: "is16 ?s" by (intro is16_crc_run is16_init)
  have sw: "is16 (?s XOR ?w)" by (intro is16_xor s pair16_range)
  have "crc_run 0xFFFF body = crc_byte (crc_byte (?s XOR ?w))"
    by (subst body_split2 [OF n]) (simp only: foldl_append crc_run_pair)
  then have "crc_run 0xFFFF body = 0xF0B8 \<longleftrightarrow> ?s XOR ?w = 0xFFFF"
    using crc_byte_inj [OF is16_crc_byte [OF sw] is16_crc_byte [OF is16_init]]
      crc_byte_inj [OF sw is16_init] by (simp add: crc_residue)
  also have "\<dots> \<longleftrightarrow> ?s XOR 0xFFFF = ?w"
    by (rule xor_move)
  also have "\<dots> \<longleftrightarrow> fcs_ok body"
    by (simp add: fcs_ok_def fcs16_def pair16_def Let_def)
  finally show ?thesis by simp
qed

lemma fcs_ok_burst:
  assumes "fcs_ok (p @ [a, b] @ q)" and "fcs_ok (p @ [c, d] @ q)"
  shows "a = c \<and> b = d"
proof -
  let ?s = "crc_run 0xFFFF p"
  have s: "is16 ?s" by (intro is16_crc_run is16_init)
  have "crc_run (crc_run ?s [a, b]) q = crc_run (crc_run ?s [c, d]) q"
    using assms by (simp add: fcs_ok_residue)
  then have "crc_run ?s [a, b] = crc_run ?s [c, d]"
    using s crc_run_state_inj is16_crc_run by blast
  then have "?s XOR pair16 a b = ?s XOR pair16 c d"
    unfolding crc_run_pair
    using crc_byte_inj is16_crc_byte is16_xor s pair16_range by meson
  then show ?thesis by (simp add: xor_left_cancel pair16_inj)
qed

section \<open>Stuffing is transparent\<close>

text \<open>
  What framing needs of an escaping scheme: decoding undoes encoding, and the delimiter never
  occurs in encoded data. From this alone, the non-empty chunks between delimiters of a stream of
  encoded bodies are exactly the bodies, however many delimiters stand between two of them.
\<close>

locale transparent =
  fixes enc :: "'a list \<Rightarrow> 'a list" and dec :: "'a list \<Rightarrow> 'a list" and flag :: 'a
  assumes dec_enc: "dec (enc d) = d"
    and flag_notin: "flag \<notin> set (enc d)"
    and dec_Nil: "dec [] = []"
begin

lemma enc_nonempty: "d \<noteq> [] \<Longrightarrow> enc d \<noteq> []"
  using dec_enc [of d] dec_Nil by auto

lemma enc_inj: "enc c = enc d \<longleftrightarrow> c = d"
  by (metis dec_enc)

lemma chunks_of_flags: "filter (\<lambda>c. c \<noteq> []) (py_split flag (replicate k flag @ xs))
    = filter (\<lambda>c. c \<noteq> []) (py_split flag xs)"
  by (induction k) simp_all

lemma chunks_of_frames:
  "\<forall>d \<in> set ds. d \<noteq> [] \<Longrightarrow>
    filter (\<lambda>c. c \<noteq> []) (py_split flag (concat (map (\<lambda>d. flag # enc d @ [flag]) ds) @ xs))
      = map enc ds @ filter (\<lambda>c. c \<noteq> []) (py_split flag xs)"
  by (induction ds) (simp_all add: py_split_sep_notin flag_notin enc_nonempty)

lemma chunks_of_stream:
  assumes "\<forall>(k, d) \<in> set ds. d \<noteq> []"
  shows "filter (\<lambda>c. c \<noteq> [])
      (py_split flag (concat (map (\<lambda>(k, d). replicate k flag @ flag # enc d) ds) @ flag # xs))
    = map (\<lambda>(k, d). enc d) ds @ filter (\<lambda>c. c \<noteq> []) (py_split flag xs)"
  using assms
proof (induction ds)
  case Nil
  then show ?case by simp
next
  case (Cons kd ds)
  obtain k d where kd: "kd = (k, d)" by (cases kd)
  have d: "enc d \<noteq> []" using Cons.prems kd enc_nonempty by simp
  let ?rest = "concat (map (\<lambda>(k, d). replicate k flag @ flag # enc d) ds) @ flag # xs"
  obtain r where r: "?rest = flag # r"
  proof (cases "ds")
    case Nil
    then show ?thesis using that by simp
  next
    case (Cons e es)
    obtain k' d' where "e = (k', d')" by (cases e)
    with Cons show ?thesis using that by (cases k') auto
  qed
  have "py_split flag (enc d @ ?rest) = enc d # py_split flag r"
    unfolding r by (rule py_split_sep_notin [OF flag_notin])
  moreover have "filter (\<lambda>c. c \<noteq> []) (py_split flag ?rest)
      = filter (\<lambda>c. c \<noteq> []) (py_split flag r)"
    by (simp add: r)
  ultimately show ?case
    using Cons kd d by (simp add: chunks_of_flags)
qed

end

lemma unstuff_stuff: "unstuff (stuff d) = d"
proof -
  have "unstuff_loop False (stuff d) = d"
    by (induction d) (auto simp: stuff_consts xor.assoc)
  then show ?thesis by (simp add: unstuff_def)
qed

lemma flag_notin_stuff: "FLAG \<notin> set (stuff d)"
  by (induction d) (auto simp: stuff_consts)

lemma unstuff_Nil [simp]: "unstuff [] = []"
  by (simp add: unstuff_def)

interpretation hdlc_stuffing: transparent stuff unstuff FLAG
  by unfold_locales (simp_all add: unstuff_stuff flag_notin_stuff)

section \<open>Built frames\<close>

text \<open>The octets between the flags of a frame, before stuffing.\<close>

definition wire_body :: "int \<Rightarrow> int \<Rightarrow> bytes \<Rightarrow> bytes" where
  "wire_body addr ctrl payload =
     (let body = [word_of_int addr, word_of_int ctrl] @ payload
      in body @ [word_of_int (fcs16 body), word_of_int (drop_bit 8 (fcs16 body))])"

definition octet :: "int \<Rightarrow> bool" where
  "octet x \<longleftrightarrow> 0 \<le> x \<and> x < 256"

lemma build_frame_eq:
  "build_frame addr ctrl payload =
     (if octet addr \<and> octet ctrl then Inr ([FLAG] @ stuff (wire_body addr ctrl payload) @ [FLAG])
      else Inl ValueError)"
  unfolding build_frame_def Let_def fcs_octets
  by (simp add: py_bytes_def wire_body_def octet_def Let_def)

lemma length_wire_body: "length (wire_body a c p) = length p + 4"
  by (simp add: wire_body_def Let_def)

lemma fcs_ok_append:
  "fcs_ok (d @ [word_of_int (fcs16 d), word_of_int (drop_bit 8 (fcs16 d))])"
proof -
  have f: "0 \<le> fcs16 d" "fcs16 d < 65536" using is16_fcs16 [of d] by (auto simp: is16_def)
  then have "0 \<le> fcs16 d div 256 \<and> fcs16 d div 256 < 256" by arith
  then have hi: "uint (word_of_int (drop_bit 8 (fcs16 d)) :: byte) = drop_bit 8 (fcs16 d)"
    by (simp add: uint_word_of_int_byte drop_bit_eq_div)
  have lo: "uint (word_of_int (fcs16 d) :: byte) = take_bit 8 (fcs16 d)"
    by (simp add: uint_word_of_int_eq)
  have "fcs16 d = take_bit 8 (fcs16 d) OR push_bit 8 (drop_bit 8 (fcs16 d))"
    by (rule int_halves)
  then show ?thesis by (simp add: fcs_ok_def nth_append hi lo Let_def)
qed

lemma fcs_ok_wire_body: "fcs_ok (wire_body a c p)"
  unfolding wire_body_def Let_def by (rule fcs_ok_append)

lemma frame_of_wire_body: "octet a \<Longrightarrow> octet c \<Longrightarrow> frame_of (wire_body a c p) = (a, c, p)"
  by (simp add: frame_of_def wire_body_def Let_def octet_def uint_word_of_int_byte)

lemma wire_body_nonempty [simp]: "wire_body a c p \<noteq> []" "[] \<noteq> wire_body a c p"
  by (auto simp: wire_body_def Let_def)

text \<open>The bytes of a built frame, and lists of them.\<close>

fun wire :: "frame \<Rightarrow> bytes" where
  "wire (a, c, p) = FLAG # stuff (wire_body a c p) @ [FLAG]"

lemma build_frame_wire: "build_frame a c p = Inr raw \<longleftrightarrow> octet a \<and> octet c \<and> raw = wire (a, c, p)"
  by (auto simp: build_frame_eq)

lemma build_frame_octets: "octet a \<Longrightarrow> octet c \<Longrightarrow> build_frame a c p = Inr (wire (a, c, p))"
  by (simp add: build_frame_wire)

lemma wire_inj:
  assumes "octet a" "octet c" "octet a'" "octet c'" and "wire (a, c, p) = wire (a', c', p')"
  shows "a = a' \<and> c = c' \<and> p = p'"
proof -
  have "stuff (wire_body a c p) = stuff (wire_body a' c' p')" using assms(5) by simp
  then have "wire_body a c p = wire_body a' c' p'" by (metis unstuff_stuff)
  then have "frame_of (wire_body a c p) = frame_of (wire_body a' c' p')" by simp
  then show ?thesis using assms(1-4) by (simp add: frame_of_wire_body)
qed

lemma built_frames:
  "list_all2 (\<lambda>(a, c, p) raw. build_frame a c p = Inr raw) fs raws \<Longrightarrow>
    raws = map wire fs \<and> (\<forall>(a, c, p) \<in> set fs. octet a \<and> octet c)"
  by (induction rule: list_all2_induct) (auto simp: build_frame_wire)

lemmas wire_body_facts = length_wire_body fcs_ok_wire_body frame_of_wire_body

lemma parse_chunks_filter: "parse_chunks cs = parse_chunks (filter (\<lambda>c. c \<noteq> []) cs)"
  by (induction cs) (simp_all add: Let_def)

lemma parse_chunks_built:
  "\<forall>(a, c, p) \<in> set fs. octet a \<and> octet c \<Longrightarrow>
    parse_chunks (map (\<lambda>(a, c, p). stuff (wire_body a c p)) fs) = (fs, None)"
proof (induction fs)
  case (Cons f fs)
  obtain a c p where f: "f = (a, c, p)" by (cases f) auto
  have "stuff (wire_body a c p) \<noteq> []" by (intro hdlc_stuffing.enc_nonempty) simp
  with Cons f show ?case by (simp add: unstuff_stuff wire_body_facts Let_def)
qed simp

text \<open>What the receiver accepts is what a sender could have built.\<close>

lemma fcs_ok_octets:
  assumes "2 \<le> length body" and "fcs_ok body"
  shows "body ! (length body - 2) = word_of_int (fcs16 (take (length body - 2) body))"
    and "body ! (length body - 1) = word_of_int (drop_bit 8 (fcs16 (take (length body - 2) body)))"
proof -
  let ?d = "take (length body - 2) body"
  have ok: "fcs_ok (?d @ [word_of_int (fcs16 ?d), word_of_int (drop_bit 8 (fcs16 ?d))] @ [])"
    using fcs_ok_append [of ?d] by simp
  have "fcs_ok (?d @ [body ! (length body - 2), body ! (length body - 1)] @ [])"
    using assms body_split2 [OF assms(1)] by simp
  from fcs_ok_burst [OF this ok]
  show "body ! (length body - 2) = word_of_int (fcs16 ?d)"
    and "body ! (length body - 1) = word_of_int (drop_bit 8 (fcs16 ?d))" by auto
qed

lemma wire_body_frame_of:
  assumes "4 \<le> length body" and "fcs_ok body" and "frame_of body = (a, c, p)"
  shows "octet a \<and> octet c \<and> body = wire_body a c p"
proof -
  let ?n = "length body - 2"
  have f: "a = uint (body ! 0)" "c = uint (body ! 1)" "p = drop 2 (take ?n body)"
    using assms(3) by (auto simp: frame_of_def)
  have "take ?n body = [body ! 0, body ! 1] @ p"
    using assms(1) unfolding f
    by (cases body; cases "tl body") (auto simp: take_Cons')
  with f fcs_ok_octets [of body] assms(1,2) body_split2 [of body]
  show ?thesis by (simp add: wire_body_def octet_def Let_def)
qed

lemma parse_chunks_sound:
  "(a, c, p) \<in> set (fst (parse_chunks cs)) \<Longrightarrow>
    octet a \<and> octet c \<and> (\<exists>chunk \<in> set cs. unstuff chunk = wire_body a c p)"
proof (induction cs)
  case (Cons chunk cs)
  show ?case
  proof (cases "frame_of (unstuff chunk) = (a, c, p) \<and> 4 \<le> length (unstuff chunk)
      \<and> fcs_ok (unstuff chunk)")
    case True
    then show ?thesis using wire_body_frame_of [of "unstuff chunk" a c p] by auto
  next
    case False
    with Cons.prems have "(a, c, p) \<in> set (fst (parse_chunks cs))"
      by (auto simp: Let_def split: if_splits prod.splits)
    with Cons.IH show ?thesis by auto
  qed
qed simp

lemma parse_chunks_error: "snd (parse_chunks cs) = Some e \<Longrightarrow> \<exists>m. e = FrameError m"
  by (induction cs) (auto simp: Let_def split: if_splits prod.splits)

text \<open>Built frames laid end to end, and with every closing flag shared as the next opening one.\<close>

lemma parse_built_stream:
  assumes "list_all2 (\<lambda>(a, c, p) raw. build_frame a c p = Inr raw) fs raws"
  shows "parse_frames (concat raws) = (fs, None)"
    and "parse_frames (concat (map butlast raws) @ [FLAG]) = (fs, None)"
proof -
  let ?ds = "map (\<lambda>(a, c, p). wire_body a c p) fs"
  have oct: "\<forall>(a, c, p) \<in> set fs. octet a \<and> octet c"
    and raws: "raws = map (\<lambda>d. FLAG # stuff d @ [FLAG]) ?ds"
    using built_frames [OF assms] by auto
  have ne: "\<forall>d \<in> set ?ds. d \<noteq> []" by auto
  have "map stuff ?ds = map (\<lambda>(a, c, p). stuff (wire_body a c p)) fs" by auto
  with parse_chunks_built [OF oct] have chunks: "parse_chunks (map stuff ?ds) = (fs, None)"
    by (simp only:)
  have apart: "filter (\<lambda>c. c \<noteq> []) (py_split FLAG (concat raws)) = map stuff ?ds"
    using hdlc_stuffing.chunks_of_frames [OF ne, of "[]"] by (simp add: raws)
  have shared: "filter (\<lambda>c. c \<noteq> []) (py_split FLAG (concat (map butlast raws) @ [FLAG]))
      = map stuff ?ds"
    using hdlc_stuffing.chunks_of_stream [of "map (Pair 0) ?ds" "[]"] ne
    by (simp add: raws comp_def butlast_append case_prod_beta)
  show "parse_frames (concat raws) = (fs, None)" "parse_frames (concat (map butlast raws) @ [FLAG]) = (fs, None)"
    unfolding parse_frames_def by (subst parse_chunks_filter, simp only: apart shared chunks)+
qed

section \<open>Properties\<close>

text \<open>
  C1: a stream of built frames parses back to exactly the frames sent, in order and without an
  exception: laid end to end, and also when every closing flag is shared as the next opening one.
\<close>

theorem frames_roundtrip:
  assumes "list_all2 (\<lambda>(a, c, p) raw. build_frame a c p = Inr raw) fs raws"
  shows "parse_frames (concat raws) = (fs, None)
    \<and> parse_frames (concat (map butlast raws) @ [FLAG]) = (fs, None)"
  using parse_built_stream [OF assms] by simp

theorem frames_roundtrip_witness:
  "parse_frames (concat [[0x7E, 0x01, 0x31, 0x95, 0x36, 0x7E]]) = ([(1, 0x31, [])], None)"
proof -
  have "build_frame 1 0x31 [] = Inr [0x7E, 0x01, 0x31, 0x95, 0x36, 0x7E]"
    by (simp add: build_frame_eq octet_def wire_body_def fcs16_def crc_step_bitwise
        crc_byte_unfold crc_bit_def drop_bit_eq_div stuff_consts)
  then show ?thesis
    using frames_roundtrip [of "[(1, 0x31, [])]" "[[0x7E, 0x01, 0x31, 0x95, 0x36, 0x7E]]"] by simp
qed

text \<open>
  \<open>build_frame\<close> succeeds exactly when the address and the control field are octets, whatever the
  payload, and raises \<open>ValueError\<close> otherwise: the two FCS octets can never be out of range. What it
  builds opens and closes with a flag and has none in between, and escaping at most doubles the
  four header and FCS octets and the payload.
\<close>

theorem build_frame_outcome:
  "case build_frame addr ctrl payload of
     Inr raw \<Rightarrow> octet addr \<and> octet ctrl
       \<and> (\<exists>mid. raw = [FLAG] @ mid @ [FLAG] \<and> FLAG \<notin> set mid
            \<and> length payload + 4 \<le> length mid \<and> length mid \<le> 2 * (length payload + 4))
   | Inl e \<Rightarrow> e = ValueError \<and> \<not> (octet addr \<and> octet ctrl)"
proof -
  have "length d \<le> length (stuff d) \<and> length (stuff d) \<le> 2 * length d" for d
    by (induction d) auto
  from this [of "wire_body addr ctrl payload"] flag_notin_stuff [of "wire_body addr ctrl payload"]
  show ?thesis by (auto simp: build_frame_eq length_wire_body)
qed


text \<open>
  C37: corruption confined to two neighbouring octets of a transmitted body, its FCS included, is
  always caught: when the chunk between two flags unstuffs to such a body, \<open>parse_frames\<close> yields
  nothing and raises \<open>FrameError\<close>.
\<close>

theorem burst_is_detected:
  assumes "wire_body addr ctrl payload = p @ [a, b] @ q"
    and "unstuff chunk = p @ [a', b'] @ q" and "(a, b) \<noteq> (a', b')" and "FLAG \<notin> set chunk"
  shows "\<exists>m. parse_frames ([FLAG] @ chunk @ [FLAG]) = ([], Some (FrameError m))"
proof -
  have len: "length (unstuff chunk) = length payload + 4"
    using assms(1,2) length_wire_body [of addr ctrl payload] by simp
  then have "chunk \<noteq> []" by auto
  have "\<not> fcs_ok (unstuff chunk)"
    using fcs_ok_burst [of p a b q a' b'] fcs_ok_wire_body [of addr ctrl payload] assms(1-3) by auto
  with \<open>chunk \<noteq> []\<close> len show ?thesis
    by (simp add: parse_frames_def py_split_sep_notin assms(4) Let_def)
qed

theorem burst_is_detected_witness:
  "\<exists>m. parse_frames ([FLAG] @ [0x01, 0x33, 0x95, 0x36] @ [FLAG]) = ([], Some (FrameError m))"
proof -
  have "wire_body 1 0x31 [] = [0x01] @ [0x31, 0x95] @ [0x36]"
    by (simp add: wire_body_def fcs16_def crc_step_bitwise crc_byte_unfold crc_bit_def drop_bit_eq_div)
  then show ?thesis
    by (rule burst_is_detected [where a' = "0x33" and b' = "0x95"])
      (simp_all add: unstuff_def stuff_consts)
qed

text \<open>
  C39: whatever the bytes on the line, \<open>parse_frames\<close> raises nothing but \<open>FrameError\<close>, and each frame
  it yields is one that \<open>build_frame\<close> builds: its address and control field are octets and some
  chunk between flags unstuffs to its header, payload and correct FCS.
\<close>

theorem parse_frames_sound:
  "(\<forall>e. snd (parse_frames raw) = Some e \<longrightarrow> (\<exists>m. e = FrameError m))
    \<and> (\<forall>(addr, ctrl, payload) \<in> set (fst (parse_frames raw)).
         build_frame addr ctrl payload = Inr ([FLAG] @ stuff (wire_body addr ctrl payload) @ [FLAG])
         \<and> (\<exists>chunk \<in> set (py_split FLAG raw). unstuff chunk = wire_body addr ctrl payload))"
  using parse_chunks_error parse_chunks_sound
  unfolding parse_frames_def by (fastforce simp: build_frame_eq)

theorem parse_frames_sound_witness:
  "build_frame 1 0x31 [] = Inr ([FLAG] @ stuff (wire_body 1 0x31 []) @ [FLAG])
    \<and> (\<exists>chunk \<in> set (py_split FLAG [0x7E, 0x01, 0x31, 0x95, 0x36, 0x7E]).
         unstuff chunk = wire_body 1 0x31 [])"
proof -
  let ?raw = "[0x7E, 0x01, 0x31, 0x95, 0x36, 0x7E] :: bytes"
  have "(1, 0x31, []) \<in> set (fst (parse_frames ?raw))"
    by (simp add: parse_frames_def stuff_consts unstuff_def fcs_ok_def fcs16_def
        crc_step_bitwise crc_byte_unfold crc_bit_def drop_bit_eq_div frame_of_def)
  with parse_frames_sound [of ?raw] show ?thesis by blast
qed

end
