(* ===== verification/Hdlc_Deframer.thy ===== *)
theory Hdlc_Deframer
  imports Hdlc_Framing
begin

text \<open>
  \<open>openaisg/hdlc.py\<close>, class \<open>Deframer\<close>: the incremental, resynchronising deframer of the long-lived
  session. The loop of \<open>feed\<close> is a recursive function over the state of the object; the lemmas
  relate it to the chunks between flags, and the properties follow from that: independence of how
  the stream is cut into reads, resynchronisation, agreement with \<open>parse_frames\<close>, the bound on the
  buffer and the meaning of \<open>partial\<close>.
\<close>

section \<open>State and operations\<close>

record deframer =
  df_buf :: bytes
  df_max :: int
  fcs_errors :: int
  overruns :: int

definition new_deframer :: "int \<Rightarrow> deframer" where
  "new_deframer max_frame = \<lparr>df_buf = [], df_max = max_frame, fcs_errors = 0, overruns = 0\<rparr>"

fun skip_flags :: "bytes \<Rightarrow> bytes" where
  "skip_flags [] = []"
| "skip_flags (b # bs) = (if b = FLAG then skip_flags bs else b # bs)"

text \<open>\<open>partial\<close>: index \<open>i\<close> runs over the leading flags; true when it stops before the end.\<close>

definition partial_frame :: "deframer \<Rightarrow> bool" where
  "partial_frame d \<longleftrightarrow> skip_flags (df_buf d) \<noteq> []"

text \<open>
  The \<open>while True\<close> loop of \<open>feed\<close>, with \<open>out\<close> its accumulator. Every turn that goes on has deleted
  at least the opening flag, so the buffer shrinks.
\<close>

function (sequential) feed_loop :: "frame list \<Rightarrow> deframer \<Rightarrow> frame list \<times> deframer" where
  "feed_loop out d =
     (case find_from FLAG (df_buf d) 0 of
        None \<Rightarrow>
          (if int (length (df_buf d)) > df_max d
           then (out, d\<lparr>df_buf := drop (length (df_buf d) - 1) (df_buf d), overruns := overruns d + 1\<rparr>)
           else (out, d))
      | Some i \<Rightarrow>
          (case find_from FLAG (df_buf d) (i + 1) of
             None \<Rightarrow>
               (let d = d\<lparr>df_buf := drop i (df_buf d)\<rparr> in
                if int (length (df_buf d)) > df_max d
                then (out, d\<lparr>df_buf := drop 1 (df_buf d), overruns := overruns d + 1\<rparr>)
                else (out, d))
           | Some j \<Rightarrow>
               (let chunk = take (j - (i + 1)) (drop (i + 1) (df_buf d));
                    d' = d\<lparr>df_buf := drop j (df_buf d)\<rparr>
                in if chunk = [] then feed_loop out d'
                   else let body = unstuff chunk in
                     if length body < 4 then feed_loop out d'
                     else if fcs_ok body then feed_loop (out @ [frame_of body]) d'
                     else feed_loop out (d'\<lparr>fcs_errors := fcs_errors d' + 1\<rparr>))))"
  by pat_completeness auto

termination
  by (relation "measure (\<lambda>(out, d). length (df_buf d))")
    (auto dest!: find_from_Some_bounds)

declare feed_loop.simps [simp del]

definition feed :: "deframer \<Rightarrow> bytes \<Rightarrow> frame list \<times> deframer" where
  "feed d data = feed_loop [] (d\<lparr>df_buf := df_buf d @ data\<rparr>)"

section \<open>What the loop does to the chunks\<close>

text \<open>The frames and the number of FCS errors of a list of complete chunks.\<close>

fun good_frames :: "bytes list \<Rightarrow> frame list" where
  "good_frames [] = []"
| "good_frames (c # cs) =
     (if length (unstuff c) \<ge> 4 \<and> fcs_ok (unstuff c) then frame_of (unstuff c) # good_frames cs
      else good_frames cs)"

fun bad_frames :: "bytes list \<Rightarrow> int" where
  "bad_frames [] = 0"
| "bad_frames (c # cs) =
     (if length (unstuff c) \<ge> 4 \<and> \<not> fcs_ok (unstuff c) then 1 + bad_frames cs else bad_frames cs)"

lemma good_frames_append: "good_frames (cs @ ds) = good_frames cs @ good_frames ds"
  by (induction cs) auto

lemma bad_frames_append: "bad_frames (cs @ ds) = bad_frames cs + bad_frames ds"
  by (induction cs) auto

lemma bad_frames_nonneg: "0 \<le> bad_frames cs"
  by (induction cs) auto

text \<open>What is kept when no complete frame is left, with the cap on its length.\<close>

definition keep_tail :: "deframer \<Rightarrow> bytes \<Rightarrow> deframer" where
  "keep_tail d t =
     (if int (length t) + 1 > df_max d then d\<lparr>df_buf := t, overruns := overruns d + 1\<rparr>
      else d\<lparr>df_buf := FLAG # t\<rparr>)"

lemma feed_loop_no_flag:
  "FLAG \<notin> set (df_buf d) \<Longrightarrow> feed_loop out d =
    (if int (length (df_buf d)) > df_max d
     then (out, d\<lparr>df_buf := drop (length (df_buf d) - 1) (df_buf d), overruns := overruns d + 1\<rparr>)
     else (out, d))"
  by (simp add: feed_loop.simps [of out d] find_from_0_None [THEN iffD2])

lemma feed_loop_one_flag:
  assumes "df_buf d = junk @ FLAG # t" and "FLAG \<notin> set junk" and "FLAG \<notin> set t"
  shows "feed_loop out d = (out, keep_tail d t)"
  using assms
  by (simp add: feed_loop.simps [of out d] find_from_0_notin find_from_drop [of _ _ "Suc _"]
      find_from_0_None [THEN iffD2] keep_tail_def Let_def)

lemma feed_loop_chunk:
  assumes "df_buf d = junk @ FLAG # c @ FLAG # rest" and "FLAG \<notin> set junk" and "FLAG \<notin> set c"
  shows "feed_loop out d =
    feed_loop (out @ good_frames [c])
      (d\<lparr>df_buf := FLAG # rest, fcs_errors := fcs_errors d + bad_frames [c]\<rparr>)"
proof -
  have j: "find_from FLAG (df_buf d) (Suc (length junk)) = Some (Suc (length junk + length c))"
    using assms by (subst find_from_drop) (simp add: find_from_0_notin)
  have dr: "drop (Suc (length junk + length c)) (df_buf d) = FLAG # rest"
    using assms(1) by simp
  show ?thesis
    using assms j dr
    by (simp add: feed_loop.simps [of out d] find_from_0_notin Let_def)
qed

lemma feed_loop_split:
  "py_split FLAG (df_buf d) = junk # mid @ [t] \<Longrightarrow>
    feed_loop out d =
      (out @ good_frames mid, keep_tail (d\<lparr>fcs_errors := fcs_errors d + bad_frames mid\<rparr>) t)"
proof (induction mid arbitrary: junk out d)
  case Nil
  then obtain rest where "df_buf d = junk @ FLAG # rest" "FLAG \<notin> set junk" "py_split FLAG rest = [t]"
    using py_split_Cons2 [of FLAG "df_buf d" junk "[t]"] by auto
  then show ?case by (simp add: py_split_singleton feed_loop_one_flag)
next
  case (Cons m ms)
  then obtain rest where r: "df_buf d = junk @ FLAG # rest" "FLAG \<notin> set junk"
    "py_split FLAG rest = m # ms @ [t]"
    using py_split_Cons2 [of FLAG "df_buf d" junk "m # ms @ [t]"] by auto
  then obtain rest' where r': "rest = m @ FLAG # rest'" "FLAG \<notin> set m"
    "py_split FLAG rest' = ms @ [t]"
    using py_split_Cons2 [of FLAG rest m "ms @ [t]"] by auto
  let ?d = "d\<lparr>df_buf := FLAG # rest', fcs_errors := fcs_errors d + bad_frames [m]\<rparr>"
  have "feed_loop out d = feed_loop (out @ good_frames [m]) ?d"
    using r r' by (intro feed_loop_chunk) auto
  also have "\<dots> = (out @ good_frames (m # ms),
      keep_tail (?d\<lparr>fcs_errors := fcs_errors ?d + bad_frames ms\<rparr>) t)"
    using Cons.IH [of ?d "[]" "out @ good_frames [m]"] r' by simp
  finally show ?case by (simp add: keep_tail_def)
qed

lemma feed_split:
  "py_split FLAG (df_buf d @ data) = junk # mid @ [t] \<Longrightarrow>
    feed d data = (good_frames mid, keep_tail (d\<lparr>fcs_errors := fcs_errors d + bad_frames mid\<rparr>) t)"
  unfolding feed_def
  by (subst feed_loop_split [where junk = junk and mid = mid and t = t]) (auto simp: keep_tail_def)

lemma feed_no_flag:
  "FLAG \<notin> set (df_buf d @ data) \<Longrightarrow>
    feed d data = ([], if int (length (df_buf d @ data)) > df_max d
      then d\<lparr>df_buf := drop (length (df_buf d @ data) - 1) (df_buf d @ data), overruns := overruns d + 1\<rparr>
      else d\<lparr>df_buf := df_buf d @ data\<rparr>)"
  unfolding feed_def by (subst feed_loop_no_flag) auto

lemma split_cases:
  obtains (no_flag) "FLAG \<notin> set xs"
    | (flags) junk mid t where "py_split FLAG xs = junk # mid @ [t]"
proof (cases "FLAG \<in> set xs")
  case True
  then obtain ys zs where "xs = ys @ FLAG # zs" "FLAG \<notin> set ys" by (meson split_list_first)
  then have "py_split FLAG xs = ys # butlast (py_split FLAG zs) @ [last (py_split FLAG zs)]"
    by (simp add: py_split_sep_notin)
  then show ?thesis by (rule flags)
qed (rule no_flag)

lemma keep_tail_simps [simp]:
  "df_max (keep_tail d t) = df_max d" "fcs_errors (keep_tail d t) = fcs_errors d"
  "overruns (keep_tail d t) = overruns d + (if int (length t) + 1 > df_max d then 1 else 0)"
  "df_buf (keep_tail d t) = (if int (length t) + 1 > df_max d then t else FLAG # t)"
  by (simp_all add: keep_tail_def)

lemma feed_max [simp]: "df_max (snd (feed d data)) = df_max d"
  by (cases "df_buf d @ data" rule: split_cases) (simp_all add: feed_no_flag feed_split)

lemma feed_overruns: "overruns d \<le> overruns (snd (feed d data))"
  by (cases "df_buf d @ data" rule: split_cases) (simp_all add: feed_no_flag feed_split)

lemma feed_fcs_errors: "fcs_errors d \<le> fcs_errors (snd (feed d data))"
  by (cases "df_buf d @ data" rule: split_cases)
    (simp_all add: feed_no_flag feed_split bad_frames_nonneg)

section \<open>Reads in sequence\<close>

text \<open>Feeding the deframer read after read, as the session does; all the frames, in order.\<close>

fun feed_reads :: "deframer \<Rightarrow> bytes list \<Rightarrow> frame list \<times> deframer" where
  "feed_reads d [] = ([], d)"
| "feed_reads d (r # rs) =
     (let (fs, d') = feed d r; (gs, d'') = feed_reads d' rs in (fs @ gs, d''))"

lemma feed_append:
  assumes "overruns (snd (feed d a)) = overruns d"
  shows "feed d (a @ b) = (let (fs, d') = feed d a; (gs, d'') = feed d' b in (fs @ gs, d''))"
proof (cases "df_buf d @ a" rule: split_cases)
  case no_flag
  with assms have "feed d a = ([], d\<lparr>df_buf := df_buf d @ a\<rparr>)" by (simp add: feed_no_flag split: if_splits)
  then show ?thesis by (simp add: feed_def case_prod_beta)
next
  case (flags junk mid t)
  let ?d = "d\<lparr>fcs_errors := fcs_errors d + bad_frames mid, df_buf := FLAG # t\<rparr>"
  from assms have fit: "\<not> int (length t) + 1 > df_max d"
    by (auto simp: feed_split [OF flags])
  then have fa: "feed d a = (good_frames mid, ?d)"
    by (simp add: feed_split [OF flags] keep_tail_def)
  have ab: "py_split FLAG (df_buf d @ a @ b) = junk # mid @ py_split FLAG (t @ b)"
    using flags by (simp add: py_split_append [of FLAG "df_buf d @ a" b, simplified] butlast_append)
  have tb: "py_split FLAG (df_buf ?d @ b) = [] # py_split FLAG (t @ b)" by simp
  obtain mid2 t2 where m2: "py_split FLAG (t @ b) = mid2 @ [t2]"
    by (metis append_butlast_last_id py_split_nonempty)
  show ?thesis
    using feed_split [of d "a @ b" junk "mid @ mid2" t2] feed_split [of ?d b "[]" mid2 t2] ab tb m2
    by (simp add: fa good_frames_append bad_frames_append keep_tail_def add.assoc)
qed

lemma feed_reads_overruns: "overruns d \<le> overruns (snd (feed_reads d rs))"
proof (induction rs arbitrary: d)
  case (Cons r rs)
  show ?case using feed_overruns [of d r] Cons [of "snd (feed d r)"]
    by (simp add: case_prod_beta)
qed simp

lemma good_frames_wire:
  "octet a \<Longrightarrow> octet c \<Longrightarrow> good_frames [stuff (wire_body a c p)] = [(a, c, p)]"
  "bad_frames [stuff (wire_body a c p)] = 0"
  by (simp_all add: unstuff_stuff wire_body_facts)

lemma split_wires:
  "\<forall>(a, c, p) \<in> set fs. octet a \<and> octet c \<Longrightarrow> fs \<noteq> [] \<Longrightarrow>
    \<exists>qs. py_split FLAG (concat (map wire fs)) = [] # qs @ [[]]
      \<and> good_frames qs = fs \<and> bad_frames qs = 0"
proof (induction fs)
  case (Cons f fs)
  obtain a c p where f: "f = (a, c, p)" by (cases f) auto
  let ?s = "stuff (wire_body a c p)"
  have sp: "py_split FLAG (concat (map wire (f # fs)))
      = [] # ?s # py_split FLAG (concat (map wire fs))"
    by (simp add: f py_split_sep_notin flag_notin_stuff)
  have g: "good_frames (?s # qs) = f # good_frames qs" "bad_frames (?s # qs) = bad_frames qs" for qs
    using good_frames_wire [of a c p] Cons.prems f good_frames_append [of "[?s]" qs]
      bad_frames_append [of "[?s]" qs] by simp_all
  show ?case
  proof (cases "fs = []")
    case True
    with sp g show ?thesis by (intro exI [of _ "[?s]"]) simp
  next
    case False
    with Cons obtain qs where "py_split FLAG (concat (map wire fs)) = [] # qs @ [[]]"
      "good_frames qs = fs" "bad_frames qs = 0" by auto
    with sp g show ?thesis by (intro exI [of _ "?s # [] # qs"]) simp
  qed
qed simp

lemma good_frames_length: "length (good_frames cs) \<le> length cs"
  by (induction cs) auto

lemma keep_tail_Nil: "1 \<le> df_max d \<Longrightarrow> keep_tail d [] = d\<lparr>df_buf := [FLAG]\<rparr>"
  by (simp add: keep_tail_def)

lemma feed_wires:
  assumes "\<forall>(a, c, p) \<in> set fs. octet a \<and> octet c" and "fs \<noteq> []" and "1 \<le> df_max d"
  shows "\<exists>cs. Suc (length cs) = length (py_split FLAG (df_buf d @ noise))
    \<and> feed d (noise @ concat (map wire fs))
      = (good_frames cs @ fs, d\<lparr>df_buf := [FLAG], fcs_errors := fcs_errors d + bad_frames cs\<rparr>)"
proof -
  obtain qs where qs: "py_split FLAG (concat (map wire fs)) = [] # qs @ [[]]"
    "good_frames qs = fs" "bad_frames qs = 0"
    using split_wires [OF assms(1,2)] by auto
  obtain r where r: "concat (map wire fs) = FLAG # r" and pr: "py_split FLAG r = qs @ [[]]"
    using py_split_Cons2 [of FLAG "concat (map wire fs)" "[]" "qs @ [[]]"] qs(1) by auto
  obtain junk cs where sp: "py_split FLAG (df_buf d @ noise) = junk # cs"
    by (cases "py_split FLAG (df_buf d @ noise)") simp
  have "py_split FLAG (df_buf d @ noise @ concat (map wire fs)) = junk # (cs @ qs) @ [[]]"
    using sp pr py_split_append_sep [of FLAG "df_buf d @ noise" r] by (simp add: r)
  from feed_split [OF this] qs assms(3) sp show ?thesis
    by (intro exI [of _ cs]) (simp add: good_frames_append bad_frames_append keep_tail_def)
qed

lemma partial_frame_flag: "FLAG \<notin> set t \<Longrightarrow> df_buf d = FLAG # t \<Longrightarrow> partial_frame d \<longleftrightarrow> t \<noteq> []"
  by (cases t) (auto simp: partial_frame_def)

lemma parse_chunks_good:
  "parse_chunks cs = (fs, e) \<Longrightarrow>
    (e = None \<longleftrightarrow> bad_frames cs = 0) \<and> (\<exists>rest. good_frames cs = fs @ rest \<and> (e = None \<longrightarrow> rest = []))"
proof (induction cs arbitrary: fs e)
  case (Cons c cs)
  show ?case
  proof (cases "c \<noteq> [] \<and> 4 \<le> length (unstuff c)")
    case True
    with Cons bad_frames_nonneg [of cs] show ?thesis
      by (cases "fcs_ok (unstuff c)") (auto simp: Let_def split: prod.splits)
  next
    case False
    with Cons show ?thesis by (cases "c = []") (auto simp: Let_def)
  qed
qed simp

section \<open>Bound on the buffer\<close>

text \<open>A buffer that holds a flag is within the cap; feeding keeps that.\<close>

definition df_inv :: "deframer \<Rightarrow> bool" where
  "df_inv d \<longleftrightarrow> 1 \<le> df_max d \<and> (FLAG \<in> set (df_buf d) \<longrightarrow> int (length (df_buf d)) \<le> df_max d)"

lemma df_inv_feed: "df_inv d \<Longrightarrow> df_inv (snd (feed d r))"
proof (cases "df_buf d @ r" rule: split_cases)
  case no_flag
  then have "FLAG \<notin> set (drop n r)" "FLAG \<notin> set (drop n (df_buf d))" for n
    using in_set_dropD by fastforce+
  with no_flag show "df_inv d \<Longrightarrow> ?thesis" by (simp add: feed_no_flag df_inv_def)
next
  case (flags junk mid t)
  then have "FLAG \<notin> set t" using py_split_chunks [of t FLAG "df_buf d @ r"] by simp
  then show "df_inv d \<Longrightarrow> ?thesis" by (auto simp: feed_split [OF flags] df_inv_def)
qed

interpretation deframer_run: stepper "\<lambda>d r. snd (feed d r)" df_inv
  by unfold_locales (rule df_inv_feed)

lemma feed_buffer_bound:
  assumes "df_inv d"
  shows "int (length (df_buf (snd (feed d r)))) \<le> df_max d + int (length r)"
proof (cases "df_buf d @ r" rule: split_cases)
  case no_flag
  then show ?thesis using assms by (auto simp: feed_no_flag df_inv_def)
next
  case (flags junk mid t)
  have "int (length t) \<le> df_max d + int (length r)"
  proof (cases "FLAG \<in> set (df_buf d)")
    case True
    have "length t < length (df_buf d @ r)"
      using py_split_last_length [OF flags] by simp
    with True assms show ?thesis by (simp add: df_inv_def)
  next
    case False
    then have "tl (py_split FLAG r) = mid @ [t]"
      using py_split_notin_append [of FLAG "df_buf d" r] flags by simp
    then have "length t < length r"
      using py_split_last_length [of FLAG r "hd (py_split FLAG r)" "mid @ [t]"]
      by (cases "py_split FLAG r") auto
    with assms show ?thesis by (simp add: df_inv_def)
  qed
  then show ?thesis by (simp add: feed_split [OF flags])
qed

section \<open>Properties\<close>



text \<open>
  C22: resynchronisation. Whatever state the deframer is in and whatever noise precedes them, frames
  that arrive intact are all delivered, in order, as the last frames of the result; what is made of
  the noise before them is at most one frame or one counted error for each flag in it, and the
  deframer ends between frames with no overrun.
\<close>

theorem feed_resynchronises:
  assumes "list_all2 (\<lambda>(a, c, p) raw. build_frame a c p = Inr raw) fs raws" and "fs \<noteq> []"
    and "1 \<le> df_max d"
  shows "\<exists>pre d'. feed d (noise @ concat raws) = (pre @ fs, d')
    \<and> length pre \<le> length (filter (\<lambda>b. b = FLAG) (df_buf d @ noise))
    \<and> fcs_errors d' - fcs_errors d \<le> int (length (filter (\<lambda>b. b = FLAG) (df_buf d @ noise)))
    \<and> overruns d' = overruns d \<and> df_buf d' = [FLAG] \<and> \<not> partial_frame d'"
proof -
  from built_frames [OF assms(1)] have raws: "raws = map wire fs"
    and oct: "\<forall>(a, c, p) \<in> set fs. octet a \<and> octet c" by auto
  obtain cs where cs: "length cs = length (filter (\<lambda>b. b = FLAG) (df_buf d @ noise))"
    "feed d (noise @ concat (map wire fs))
      = (good_frames cs @ fs, d\<lparr>df_buf := [FLAG], fcs_errors := fcs_errors d + bad_frames cs\<rparr>)"
    using feed_wires [OF oct assms(2,3), of noise] by (auto simp: length_py_split)
  have "bad_frames cs \<le> int (length cs)" by (induction cs) auto
  with cs good_frames_length [of cs] raws show ?thesis
    by (simp add: partial_frame_def)
qed

theorem feed_resynchronises_witness:
  "\<exists>pre d'. feed (new_deframer 512) ([0x7E, 0x55, 0x01] @ concat [wire (1, 0x31, [])])
    = (pre @ [(1, 0x31, [])], d') \<and> \<not> partial_frame d'"
proof -
  have "list_all2 (\<lambda>(a, c, p) raw. build_frame a c p = Inr raw) [(1, 0x31, [])] [wire (1, 0x31, [])]"
    by (simp add: build_frame_eq octet_def)
  from feed_resynchronises [OF this, of "new_deframer 512" "[0x7E, 0x55, 0x01]"]
  show ?thesis by (auto simp: new_deframer_def)
qed

text \<open>
  C23: on a stream that opens and closes with a flag the deframer agrees with the one-shot parser:
  \<open>parse_frames\<close> raises exactly when the deframer counts an FCS error, the frames it yielded before
  are the first ones of the deframer, and without an error both find the same frames.
\<close>

theorem feed_agrees_with_parse_frames:
  assumes "1 \<le> mx" and "parse_frames (FLAG # m @ [FLAG]) = (fs, e)"
    and "feed (new_deframer mx) (FLAG # m @ [FLAG]) = (gs, d)"
  shows "(e = None \<longleftrightarrow> fcs_errors d = 0) \<and> (\<exists>rest. gs = fs @ rest \<and> (e = None \<longrightarrow> rest = []))"
proof -
  let ?raw = "FLAG # m @ [FLAG]"
  have sp: "py_split FLAG ?raw = [] # py_split FLAG m @ [[]]"
    using py_split_append_sep [of FLAG m "[]"] by simp
  have "feed (new_deframer mx) ?raw = (good_frames (py_split FLAG m),
      keep_tail ((new_deframer mx)\<lparr>fcs_errors := bad_frames (py_split FLAG m)\<rparr>) [])"
    using feed_split [of "new_deframer mx" ?raw] sp by (simp add: new_deframer_def)
  moreover have "parse_chunks (py_split FLAG m @ [[]]) = (fs, e)"
    using assms(2) sp by (simp add: parse_frames_def)
  note parse_chunks_good [OF this]
  ultimately show ?thesis
    using assms(3) by (auto simp: good_frames_append bad_frames_append)
qed

theorem feed_agrees_with_parse_frames_witness:
  "\<exists>gs d. feed (new_deframer 512) (FLAG # [0x01, 0x31, 0x95, 0x36] @ [FLAG]) = (gs, d)
    \<and> fcs_errors d = 0 \<and> gs = [(1, 0x31, [])]"
proof -
  let ?m = "[0x01, 0x31, 0x95, 0x36] :: bytes"
  have p: "parse_frames (FLAG # ?m @ [FLAG]) = ([(1, 0x31, [])], None)"
    by (simp add: parse_frames_def stuff_consts unstuff_def fcs_ok_def fcs16_def
        crc_step_bitwise crc_byte_unfold crc_bit_def drop_bit_eq_div frame_of_def)
  obtain gs d where f: "feed (new_deframer 512) (FLAG # ?m @ [FLAG]) = (gs, d)" by force
  from feed_agrees_with_parse_frames [OF _ p f] f show ?thesis by auto
qed

text \<open>
  The buffer of a session's deframer stays bounded: after any reads at all it is at most the cap
  longer than the last read.
\<close>

theorem deframer_buffer_bounded:
  assumes "1 \<le> mx"
  shows "int (length (df_buf (snd (feed (foldl (\<lambda>d r. snd (feed d r)) (new_deframer mx) reads) r))))
    \<le> mx + int (length r)"
proof -
  let ?d = "foldl (\<lambda>d r. snd (feed d r)) (new_deframer mx) reads"
  have "df_inv (new_deframer mx)" using assms by (simp add: df_inv_def new_deframer_def)
  then have "df_inv ?d" by (rule deframer_run.inv_run)
  moreover have "df_max (foldl (\<lambda>d r. snd (feed d r)) d rs) = df_max d" for d rs
    by (induction rs arbitrary: d) simp_all
  then have "df_max ?d = mx" by (simp add: new_deframer_def)
  ultimately show ?thesis using feed_buffer_bound [of ?d r] by simp
qed

theorem deframer_buffer_bounded_witness:
  "int (length (df_buf (snd (feed (foldl (\<lambda>d r. snd (feed d r)) (new_deframer 16)
      [replicate 64 0]) [0x7E])))) \<le> 16 + int (length [0x7E :: byte])"
  by (rule deframer_buffer_bounded) simp

text \<open>
  Half-duplex: while a frame is arriving at an idle deframer nothing is delivered and
  \<open>partial\<close> holds, from the first octet after the opening flag up to the closing flag; the rest of
  the frame then delivers it and \<open>partial\<close> is false again.
\<close>

theorem partial_while_arriving:
  assumes "build_frame a c p = Inr (x @ y)" and "y \<noteq> []" and "df_buf d = [] \<or> df_buf d = [FLAG]"
    and "int (length (x @ y)) < df_max d"
  shows "fst (feed d x) = [] \<and> (partial_frame (snd (feed d x)) \<longleftrightarrow> 2 \<le> length x)
    \<and> (\<exists>d'. feed (snd (feed d x)) y = ([(a, c, p)], d') \<and> \<not> partial_frame d')"
proof -
  let ?s = "stuff (wire_body a c p)"
  from assms(1) have oct: "octet a" "octet c" and xy: "x @ y = FLAG # ?s @ [FLAG]"
    by (auto simp: build_frame_wire)
  have "py_split FLAG (df_buf d @ x @ y) = (if df_buf d = [] then [[], ?s, []] else [[], [], ?s, []])"
    using assms(3) flag_notin_stuff [of "wire_body a c p"] by (auto simp: xy py_split_sep_notin)
  then have "feed d (x @ y) = ([(a, c, p)], d\<lparr>df_buf := [FLAG]\<rparr>)"
    using feed_split [of d "x @ y" "[]" "[?s]" "[]"] feed_split [of d "x @ y" "[]" "[[], ?s]" "[]"]
      good_frames_wire(1) [OF oct, of p] good_frames_wire(2) [of a c p] assms(3,4) by (auto simp: keep_tail_def split: if_splits)
  moreover have fx: "fst (feed d x) = []
      \<and> (partial_frame (snd (feed d x)) \<longleftrightarrow> 2 \<le> length x) \<and> overruns (snd (feed d x)) = overruns d"
  proof (cases x)
    case Nil
    then show ?thesis
      using assms(3,4) feed_split [of d "[]" "[]" "[]" "[]"]
      by (auto simp: feed_no_flag partial_frame_def stuff_consts)
  next
    case (Cons b x')
    from xy Cons assms(2) have b: "b = FLAG" and "x' @ butlast y = ?s"
      by (auto simp: append_eq_append_conv2 butlast_append append_eq_Cons_conv)
    then have x': "FLAG \<notin> set x'" using flag_notin_stuff [of "wire_body a c p"]
      by (metis Un_iff set_append)
    have "int (length x') + 1 \<le> df_max d" using assms(4) Cons by simp
    with assms(3) x' b Cons show ?thesis
      using feed_split [of d x "[]" "[]" x'] feed_split [of d x "[]" "[[]]" x']
        partial_frame_flag [OF x', of "snd (feed d x)"]
      by (auto simp: py_split_notin Suc_le_eq)
  qed
  ultimately show ?thesis using feed_append [of d x y]
    by (cases "feed d x"; cases "feed (snd (feed d x)) y") (auto simp: partial_frame_def)
qed

theorem partial_while_arriving_witness:
  "fst (feed (new_deframer 512) [0x7E, 0x01, 0x31]) = []
    \<and> partial_frame (snd (feed (new_deframer 512) [0x7E, 0x01, 0x31]))"
proof -
  have "build_frame 1 0x31 [] = Inr ([0x7E, 0x01, 0x31] @ [0x95, 0x36, 0x7E])"
    by (simp add: build_frame_eq octet_def wire_body_def fcs16_def crc_step_bitwise
        crc_byte_unfold crc_bit_def drop_bit_eq_div stuff_consts)
  from partial_while_arriving [OF this, of "new_deframer 512"] show ?thesis
    by (simp add: new_deframer_def)
qed

end
