(* ===== verification/Hdlc_Control.thy ===== *)
theory Hdlc_Control
  imports Hdlc_Framing
begin

text \<open>
  \<open>openaisg/hdlc.py\<close>, lines 162 to 231: classification of the control field, the sequence numbers
  in it, and the XID parameter field of device scan and address assignment.
\<close>

section \<open>Control field\<close>

datatype frame_kind = I_FRAME | RR | RNR | REJ | SREJ | U_FRAME

definition s_types :: "int \<Rightarrow> frame_kind option" where
  "s_types = [0 \<mapsto> RR, 1 \<mapsto> RNR, 2 \<mapsto> REJ, 3 \<mapsto> SREJ]"

definition kind :: "int \<Rightarrow> frame_kind res" where
  "kind ctrl =
     (if ctrl AND 0x01 = 0 then Inr I_FRAME
      else if ctrl AND 0x03 = 0x01
        then (case s_types (drop_bit 2 ctrl AND 0x03) of None \<Rightarrow> Inl KeyError | Some k \<Rightarrow> Inr k)
      else Inr U_FRAME)"

definition ns_of :: "int \<Rightarrow> int" where
  "ns_of ctrl = drop_bit 1 ctrl AND 7"

definition nr_of :: "int \<Rightarrow> int" where
  "nr_of ctrl = drop_bit 5 ctrl AND 7"

text \<open>
  The control fields the link layer composes in \<open>exchange\<close> and \<open>_rr\<close>:
  \<open>(vs << 1) | (vr << 5) | PF\<close> and \<open>0x01 | (vr << 5) | (PF if poll else 0)\<close>.
\<close>

definition i_ctrl :: "int \<Rightarrow> int \<Rightarrow> int" where
  "i_ctrl vs vr = push_bit 1 vs OR push_bit 5 vr OR PF"

definition rr_ctrl :: "int \<Rightarrow> bool \<Rightarrow> int" where
  "rr_ctrl vr poll = 0x01 OR push_bit 5 vr OR (if poll then PF else 0)"

definition seq_no :: "int \<Rightarrow> bool" where
  "seq_no n \<longleftrightarrow> 0 \<le> n \<and> n < 8"

lemma seq_no_cases: "seq_no n \<Longrightarrow> n \<in> {0, 1, 2, 3, 4, 5, 6, 7}"
  by (auto simp: seq_no_def)

lemma and_7: "(x :: int) AND 7 = x mod 8"
  using take_bit_eq_mask [of 3 x] by (simp add: take_bit_eq_mod mask_eq_exp_minus_1)

lemma and_3: "(x :: int) AND 3 = x mod 4"
  using take_bit_eq_mask [of 2 x] by (simp add: take_bit_eq_mod mask_eq_exp_minus_1)

lemma seq_no_and_7 [simp]: "seq_no (x AND 7)"
  by (simp add: seq_no_def and_7)

lemma seq_no_0 [simp]: "seq_no 0"
  by (simp add: seq_no_def)

lemma seq_no_ns_of [simp]: "seq_no (ns_of ctrl)" and seq_no_nr_of [simp]: "seq_no (nr_of ctrl)"
  by (simp_all add: ns_of_def nr_of_def)

text \<open>The kind as a total function, and \<open>kind\<close> computes it: the lookup never misses.\<close>

definition kind_of :: "int \<Rightarrow> frame_kind" where
  "kind_of ctrl =
     (if even ctrl then I_FRAME
      else if ctrl mod 4 = 1 then
        (if (ctrl div 4) mod 4 = 0 then RR else if (ctrl div 4) mod 4 = 1 then RNR
         else if (ctrl div 4) mod 4 = 2 then REJ else SREJ)
      else U_FRAME)"

lemma kind_eq: "kind ctrl = Inr (kind_of ctrl)"
proof -
  have c: "ctrl AND 1 = 0 \<longleftrightarrow> even ctrl" by (simp add: and_one_eq even_iff_mod_2_eq_zero)
  have s: "s_types x = (if x = 0 then Some RR else if x = 1 then Some RNR
      else if x = 2 then Some REJ else if x = 3 then Some SREJ else None)" for x
    by (simp add: s_types_def)
  have "(ctrl div 4) mod 4 \<in> {0, 1, 2, 3}" by auto
  moreover have "drop_bit 2 ctrl = ctrl div 4" by (simp add: drop_bit_eq_div)
  ultimately show ?thesis
    unfolding kind_def kind_of_def c and_3 s by (simp split: if_splits)
qed

lemma i_ctrl_fields [simp]:
  assumes "seq_no s" and "seq_no r"
  shows "octet (i_ctrl s r)" and "kind (i_ctrl s r) = Inr I_FRAME"
    and "ns_of (i_ctrl s r) = s" and "nr_of (i_ctrl s r) = r"
  using seq_no_cases [OF assms(1)] seq_no_cases [OF assms(2)]
  by (elim insertE emptyE;
      simp add: i_ctrl_def ns_of_def nr_of_def kind_def PF_def octet_def push_bit_eq_mult drop_bit_eq_div)+

lemma rr_ctrl_fields [simp]:
  assumes "seq_no r"
  shows "octet (rr_ctrl r poll)" and "kind (rr_ctrl r poll) = Inr RR"
    and "nr_of (rr_ctrl r poll) = r" and "rr_ctrl r poll AND PF = 0 \<longleftrightarrow> \<not> poll"
  using seq_no_cases [OF assms]
  by (elim insertE emptyE; cases poll;
      simp add: rr_ctrl_def nr_of_def kind_def s_types_def PF_def octet_def push_bit_eq_mult drop_bit_eq_div)+

lemmas control_fields = i_ctrl_fields rr_ctrl_fields

section \<open>XID parameters\<close>

definition XID_FI :: int where "XID_FI = 0x81"
definition XID_GI :: int where "XID_GI = 0xF0"

definition PI_UNIQUE_ID :: int where "PI_UNIQUE_ID = 1"
definition PI_HDLC_ADDR :: int where "PI_HDLC_ADDR = 2"
definition PI_BITMASK :: int where "PI_BITMASK = 3"
definition PI_DEVICE_TYPE :: int where "PI_DEVICE_TYPE = 4"
definition PI_PROTOCOL_VERSION :: int where "PI_PROTOCOL_VERSION = 5"
definition PI_VENDOR_CODE :: int where "PI_VENDOR_CODE = 6"
definition PI_RESET_DEVICE :: int where "PI_RESET_DEVICE = 7"

lemmas xid_consts = XID_FI_def XID_GI_def PI_UNIQUE_ID_def PI_HDLC_ADDR_def PI_BITMASK_def
  PI_DEVICE_TYPE_def PI_PROTOCOL_VERSION_def PI_VENDOR_CODE_def PI_RESET_DEVICE_def

text \<open>The loop of \<open>xid_encode\<close> over the parameters, with \<open>field\<close> its accumulator.\<close>

fun xid_field :: "(int \<times> bytes) list \<Rightarrow> bytes \<Rightarrow> bytes res" where
  "xid_field [] field = Inr field"
| "xid_field ((pi, pv) # params) field =
     res_bind (py_bytes [pi, int (length pv)]) (\<lambda>h. xid_field params (field @ h @ pv))"

definition xid_encode :: "(int \<times> bytes) list \<Rightarrow> bytes res" where
  "xid_encode params =
     res_bind (xid_field params []) (\<lambda>field.
       res_bind (py_bytes [XID_FI, XID_GI, int (length field)]) (\<lambda>h. Inr (h @ field)))"

text \<open>
  The loop of \<open>xid_decode\<close>. A slice that runs past the end of the field is cut short, as Python
  slices are; a parameter that occurs twice keeps its last value.
\<close>

function xid_loop :: "bytes \<Rightarrow> nat \<Rightarrow> (int \<rightharpoonup> bytes) \<Rightarrow> (int \<rightharpoonup> bytes)" where
  "xid_loop field i params =
     (if i + 2 \<le> length field then
        (let pi = uint (field ! i); pl = nat (uint (field ! (i + 1)))
         in xid_loop field (i + 2 + pl) (params(pi \<mapsto> take pl (drop (i + 2) field))))
      else params)"
  by pat_completeness auto
termination
  by (relation "measure (\<lambda>(field, i, params). length field - i)") auto

declare xid_loop.simps [simp del]

definition xid_decode :: "bytes \<Rightarrow> (int \<rightharpoonup> bytes) res" where
  "xid_decode payload =
     (if length payload < 3 \<or> uint (payload ! 0) \<noteq> XID_FI \<or> uint (payload ! 1) \<noteq> XID_GI
      then Inl (FrameError (''not an AISG XID payload: '' @ hex_sp payload))
      else (let gl = nat (uint (payload ! 2)); field = take gl (drop 3 payload)
            in Inr (xid_loop field 0 Map.empty)))"

text \<open>The octets of one encoded parameter.\<close>

definition tlv :: "int \<times> bytes \<Rightarrow> bytes" where
  "tlv = (\<lambda>(pi, pv). [word_of_int pi, word_of_int (int (length pv))] @ pv)"

definition tlv_ok :: "int \<times> bytes \<Rightarrow> bool" where
  "tlv_ok = (\<lambda>(pi, pv). octet pi \<and> length pv < 256)"

lemma xid_field_eq:
  "xid_field ps field =
     (if list_all tlv_ok ps then Inr (field @ concat (map tlv ps)) else Inl ValueError)"
  by (induction ps field rule: xid_field.induct)
    (auto simp: py_bytes_def tlv_ok_def tlv_def octet_def)

lemma xid_encode_eq:
  "xid_encode ps =
     (let field = concat (map tlv ps) in
      if list_all tlv_ok ps \<and> length field < 256
      then Inr ([0x81, 0xF0, word_of_int (int (length field))] @ field) else Inl ValueError)"
  by (auto simp: xid_encode_def xid_field_eq py_bytes_def XID_FI_def XID_GI_def Let_def)

lemma xid_loop_tlvs:
  "list_all tlv_ok ps \<Longrightarrow>
    xid_loop (pre @ concat (map tlv ps)) (length pre) m = m ++ map_of (rev ps)"
proof (induction ps arbitrary: pre m)
  case Nil
  then show ?case by (simp add: xid_loop.simps)
next
  case (Cons pp ps)
  obtain pi pv where p: "pp = (pi, pv)" by (cases pp)
  with Cons.prems have ok: "octet pi" "length pv < 256" "list_all tlv_ok ps"
    by (auto simp: tlv_ok_def)
  let ?field = "pre @ concat (map tlv (pp # ps))"
  have f: "?field = pre @ word_of_int pi # word_of_int (int (length pv)) # pv @ concat (map tlv ps)"
    by (simp add: p tlv_def)
  have u: "uint (word_of_int pi :: byte) = pi"
    "unat (word_of_nat (length pv) :: byte) = length pv"
    using ok by (simp_all add: octet_def uint_word_of_int_byte unat_word_of_nat_byte)
  have step: "xid_loop ?field (length pre) m
      = xid_loop ?field (length pre + 2 + length pv) (m(pi \<mapsto> pv))"
    unfolding f by (subst xid_loop.simps) (simp add: u nth_append Let_def)
  have shift: "?field = (pre @ tlv pp) @ concat (map tlv ps)"
    "length pre + 2 + length pv = length (pre @ tlv pp)" by (simp_all add: p tlv_def)
  have last: "m ++ map_of (rev (pp # ps)) = m(pi \<mapsto> pv) ++ map_of (rev ps)"
    by (rule ext) (simp add: p map_add_def split: option.split)
  show ?case
    unfolding last step unfolding shift by (rule Cons.IH [OF ok(3)])
qed

section \<open>Properties\<close>

text \<open>
  Every control field is classified, without an exception, and by the standard's bits: an
  I-frame exactly when bit 0 is clear, an unnumbered frame exactly when bits 0 and 1 are set,
  otherwise a supervisory frame whose type is bits 2 and 3. The poll/final bit never matters, so
  DM, FRMR, UA, SNRM, DISC and XID are unnumbered frames with or without it.
\<close>

theorem kind_classifies:
  "\<exists>k. kind ctrl = Inr k \<and> kind (ctrl XOR PF) = Inr k
    \<and> (k = I_FRAME \<longleftrightarrow> \<not> bit ctrl 0) \<and> (k = U_FRAME \<longleftrightarrow> bit ctrl 0 \<and> bit ctrl 1)
    \<and> (k = RR \<longleftrightarrow> ctrl mod 16 = 1) \<and> (k = RNR \<longleftrightarrow> ctrl mod 16 = 5)
    \<and> (k = REJ \<longleftrightarrow> ctrl mod 16 = 9) \<and> (k = SREJ \<longleftrightarrow> ctrl mod 16 = 13)
    \<and> list_all (\<lambda>u. kind u = Inr U_FRAME \<and> kind (u OR PF) = Inr U_FRAME)
         [CTRL_DM, CTRL_FRMR, CTRL_UA, CTRL_SNRM, CTRL_DISC, CTRL_XID]"
proof -
  have m: "(ctrl XOR PF) mod 16 = ctrl mod 16"
    using take_bit_xor [of 4 ctrl PF] by (simp add: take_bit_eq_mod PF_def)
  have k16: "kind_of c = kind_of (c mod 16)" for c :: int
  proof -
    have "c mod 16 mod 2 = c mod 2" "c mod 16 mod 4 = c mod 4"
      by (rule mod_mod_cancel, simp)+
    moreover have "c mod 16 div 4 = c div 4 mod 4"
      using drop_bit_take_bit [of 2 4 c] by (simp add: take_bit_eq_mod drop_bit_eq_div)
    ultimately show ?thesis
      unfolding kind_of_def even_iff_mod_2_eq_zero by (simp only: mod_mod_trivial)
  qed
  have b: "bit ctrl 0 \<longleftrightarrow> bit (ctrl mod 16) 0" "bit ctrl 1 \<longleftrightarrow> bit (ctrl mod 16) 1"
    using bit_take_bit_iff [of 4 ctrl] by (simp_all add: take_bit_eq_mod)
  have "0 \<le> ctrl mod 16" "ctrl mod 16 < 16" by simp_all
  then have "ctrl mod 16 \<in> {0, 1, 2, 3, 4, 5, 6, 7, 8, 9, 10, 11, 12, 13, 14, 15}"
    unfolding insert_iff empty_iff by presburger
  then have "(kind_of ctrl = I_FRAME \<longleftrightarrow> \<not> bit ctrl 0) \<and> (kind_of ctrl = U_FRAME \<longleftrightarrow> bit ctrl 0 \<and> bit ctrl 1)
    \<and> (kind_of ctrl = RR \<longleftrightarrow> ctrl mod 16 = 1) \<and> (kind_of ctrl = RNR \<longleftrightarrow> ctrl mod 16 = 5)
    \<and> (kind_of ctrl = REJ \<longleftrightarrow> ctrl mod 16 = 9) \<and> (kind_of ctrl = SREJ \<longleftrightarrow> ctrl mod 16 = 13)"
    unfolding b k16 [of ctrl] by (elim insertE emptyE) (simp_all add: kind_of_def bit_iff_odd)
  moreover have "kind_of (ctrl XOR PF) = kind_of ctrl"
    using k16 [of "ctrl XOR PF"] k16 [of ctrl] m by simp
  ultimately show ?thesis
    by (intro exI [of _ "kind_of ctrl"]) (simp add: kind_eq kind_of_def ctrl_consts)
qed

text \<open>
  The control fields the link layer composes are octets that classify as what they are meant
  to be and give back the sequence numbers put into them.
\<close>

theorem control_fields_roundtrip:
  assumes "0 \<le> vs" and "vs < 8" and "0 \<le> vr" and "vr < 8"
  shows "octet (i_ctrl vs vr) \<and> kind (i_ctrl vs vr) = Inr I_FRAME
    \<and> ns_of (i_ctrl vs vr) = vs \<and> nr_of (i_ctrl vs vr) = vr
    \<and> octet (rr_ctrl vr poll) \<and> kind (rr_ctrl vr poll) = Inr RR \<and> nr_of (rr_ctrl vr poll) = vr
    \<and> (rr_ctrl vr poll AND PF = 0 \<longleftrightarrow> \<not> poll)"
  using assms by (simp add: control_fields seq_no_def)

theorem control_fields_roundtrip_witness:
  "ns_of (i_ctrl 7 3) = 7 \<and> nr_of (rr_ctrl 3 False) = 3"
  using control_fields_roundtrip [of 7 3 False] by simp

text \<open>
  C40: encoding a parameter list succeeds exactly when each parameter identifier is an octet, each
  value is shorter than 256 octets and they fit one group; decoding then gives back every
  parameter (the last, where an identifier repeats), also when octets follow the group.
\<close>

theorem xid_roundtrip:
  "case xid_encode params of
     Inr raw \<Rightarrow> xid_decode (raw @ trailing) = Inr (map_of (rev params))
   | Inl e \<Rightarrow> e = ValueError
       \<and> ((\<exists>(pi, pv) \<in> set params. \<not> octet pi \<or> 256 \<le> length pv)
          \<or> 256 \<le> sum_list (map (\<lambda>(pi, pv). length pv + 2) params))"
proof -
  let ?field = "concat (map tlv params)"
  have len: "length ?field = sum_list (map (\<lambda>(pi, pv). length pv + 2) params)"
    by (induction params) (auto simp: tlv_def)
  show ?thesis
  proof (cases "list_all tlv_ok params \<and> length ?field < 256")
    case True
    have "xid_loop ?field 0 Map.empty = map_of (rev params)"
      using xid_loop_tlvs [of params "[]" Map.empty] True by simp
    with True show ?thesis
      by (simp add: xid_encode_eq xid_decode_def XID_FI_def XID_GI_def unat_word_of_nat_byte Let_def)
  next
    case False
    then show ?thesis
      by (force simp: xid_encode_eq Let_def len list_all_iff tlv_ok_def not_less)
  qed
qed

theorem xid_roundtrip_witness:
  "xid_encode [(1, [0x41, 0x42]), (2, [7])] = Inr [0x81, 0xF0, 7, 1, 2, 0x41, 0x42, 2, 1, 7]
    \<and> xid_decode ([0x81, 0xF0, 7, 1, 2, 0x41, 0x42, 2, 1, 7] @ [9]) = Inr [1 \<mapsto> [0x41, 0x42], 2 \<mapsto> [7]]"
proof -
  have "xid_encode [(1, [0x41, 0x42]), (2, [7])] = Inr [0x81, 0xF0, 7, 1, 2, 0x41, 0x42, 2, 1, 7]"
    by code_simp
  with xid_roundtrip [of "[(1, [0x41, 0x42]), (2, [7])]" "[9]"] show ?thesis by simp
qed

end
