(* ===== verification/Link_State.thy ===== *)
theory Link_State
  imports Hdlc_Deframer Hdlc_Control
begin

text \<open>
  \<open>openaisg/link.py\<close>: the state of \<open>AisgLink\<close> and of its peers, the serial port and clock it works
  on, opening the port, and the primitives the rest of the file is built from (\<open>_peer\<close>, \<open>_write\<close>,
  \<open>_rr\<close>, \<open>_xfer\<close>, \<open>_command\<close>, \<open>_read_frames\<close>).

  pyserial is not part of the repository and the clock is the environment's, so both are a
  parameter: a record of operations on an unspecified world \<open>'w\<close>. Every operation of the port may
  raise, and what it raises is an \<open>OSError\<close> with a text (\<open>SerialException\<close> is one). The world also
  holds whatever the callbacks of \<open>exchange\<close> change.
\<close>

section \<open>The port and the clock\<close>

datatype errno = EWOULDBLOCK | EAGAIN | EACCES | EIO | EPROTO | ENODEV | ENXIO | OTHER_ERRNO int

type_synonym ('w, 'a) port_io = "'w \<Rightarrow> (string + 'a) \<times> 'w"

record 'w port_ops =
  ser_open :: "string \<Rightarrow> 'w \<Rightarrow> ((errno option \<times> string) + unit) \<times> 'w"
  ser_set_dtr :: "bool \<Rightarrow> ('w, unit) port_io"
  ser_write :: "bytes \<Rightarrow> ('w, unit) port_io"
  ser_flush :: "('w, unit) port_io"
  ser_read :: "nat \<Rightarrow> ('w, bytes) port_io"
  ser_in_waiting :: "('w, nat) port_io"
  ser_reset_input_buffer :: "('w, unit) port_io"
  ser_close :: "('w, unit) port_io"
  monotonic :: "'w \<Rightarrow> time \<times> 'w"
  sleep :: "time \<Rightarrow> 'w \<Rightarrow> 'w"

section \<open>State\<close>

record peer =
  vs :: int
  vr :: int
  connected :: bool

definition new_peer :: peer where
  "new_peer = \<lparr>vs = 0, vr = 0, connected = False\<rparr>"

definition peer_reset :: "peer \<Rightarrow> peer" where
  "peer_reset p = p\<lparr>vs := 0, vr := 0\<rparr>"

record device =
  unique_id :: bytes
  device_type :: "int option"
  vendor :: "bytes option"
  address :: "int option"

record link_stats =
  st_polls :: int
  st_dup_i :: int
  st_unexpected :: int
  st_foreign :: int
  st_rnr :: int
  st_retx :: int
  st_link_resets :: int

definition zero_stats :: link_stats where
  "zero_stats = \<lparr>st_polls = 0, st_dup_i = 0, st_unexpected = 0, st_foreign = 0, st_rnr = 0,
     st_retx = 0, st_link_resets = 0\<rparr>"

record 'w link =
  world :: 'w
  lk_timeout :: time
  peers :: "int \<rightharpoonup> peer"
  lk_deframer :: deframer
  stats :: link_stats

definition new_link :: "time \<Rightarrow> 'w \<Rightarrow> 'w link" where
  "new_link timeout w =
     \<lparr>world = w, lk_timeout = timeout, peers = Map.empty, lk_deframer = new_deframer 512,
      stats = zero_stats\<rparr>"

text \<open>How a failure of \<open>serial.Serial(...)\<close> is translated, by its \<open>errno\<close>.\<close>

definition open_error :: "string \<Rightarrow> errno option \<Rightarrow> string \<Rightarrow> exn" where
  "open_error port eno text =
     (if eno \<in> {Some EWOULDBLOCK, Some EAGAIN, Some EACCES}
      then PortBusy (port @ '' is locked by another process (the openaisg service ''
             @ ''holds it while its AISG session is up)'')
      else if eno \<in> {Some EIO, Some EPROTO, Some ENODEV, Some ENXIO}
      then PortLost (port @ '' exists but the adapter is not '' @ ''responding ('' @ text @ '')'')
      else AisgError (''cannot open '' @ port @ '': '' @ text))"

text \<open>The constructor: open, set DTR unless \<open>dtr\<close> is \<open>None\<close>, start with no peers.\<close>

definition open_link :: "'w port_ops \<Rightarrow> string \<Rightarrow> bool option \<Rightarrow> time \<Rightarrow> ('w, 'w link) io" where
  "open_link P port dtr timeout w =
     (case ser_open P port w of
        (Inl (eno, text), w') \<Rightarrow> (Inl (open_error port eno text), w')
      | (Inr _, w') \<Rightarrow>
          (case (case dtr of None \<Rightarrow> (Inr (), w') | Some b \<Rightarrow> ser_set_dtr P b w') of
             (Inl text, w'') \<Rightarrow> (Inl (OSError text), w'')
           | (Inr _, w'') \<Rightarrow> (Inr (new_link timeout w''), w'')))"

text \<open>An operation of the world, run inside a link.\<close>

definition on_world :: "('w, 'a) io \<Rightarrow> ('w link, 'a) io" where
  "on_world m l = (let (r, w) = m (world l) in (r, l\<lparr>world := w\<rparr>))"

text \<open>An operation of the port; what it raises is an \<open>OSError\<close>.\<close>

definition on_port :: "('w, 'a) port_io \<Rightarrow> ('w link, 'a) io" where
  "on_port m = on_world (\<lambda>w. case m w of (Inl text, w') \<Rightarrow> (Inl (OSError text), w') | (Inr a, w') \<Rightarrow> (Inr a, w'))"

definition clock :: "'w port_ops \<Rightarrow> ('w link, time) io" where
  "clock P = on_world (\<lambda>w. let (t, w') = monotonic P w in (Inr t, w'))"

definition sleep_for :: "'w port_ops \<Rightarrow> time \<Rightarrow> ('w link, unit) io" where
  "sleep_for P t = on_world (\<lambda>w. (Inr (), sleep P t w))"

section \<open>Primitives\<close>

definition close_link :: "'w port_ops \<Rightarrow> ('w link, unit) io" where
  "close_link P = on_port (ser_close P)"

text \<open>\<open>_peer\<close>: the state of an address, created on first use.\<close>

definition peer_of :: "'w link \<Rightarrow> int \<Rightarrow> peer" where
  "peer_of l addr = (case peers l addr of None \<Rightarrow> new_peer | Some p \<Rightarrow> p)"

definition get_peer :: "int \<Rightarrow> ('w link, peer) io" where
  "get_peer addr l = (Inr (peer_of l addr), l\<lparr>peers := (peers l)(addr \<mapsto> peer_of l addr)\<rparr>)"

definition upd_peer :: "int \<Rightarrow> (peer \<Rightarrow> peer) \<Rightarrow> ('w link, unit) io" where
  "upd_peer addr f l = (Inr (), l\<lparr>peers := (peers l)(addr \<mapsto> f (peer_of l addr))\<rparr>)"

definition upd_stats :: "(link_stats \<Rightarrow> link_stats) \<Rightarrow> ('w link, unit) io" where
  "upd_stats f l = (Inr (), l\<lparr>stats := f (stats l)\<rparr>)"

text \<open>\<open>_write\<close>\<close>

definition link_write :: "'w port_ops \<Rightarrow> bytes \<Rightarrow> ('w link, unit) io" where
  "link_write P frame = io_seq (on_port (ser_write P frame)) (on_port (ser_flush P))"

text \<open>\<open>_rr\<close>\<close>

definition rr_frame :: "int \<Rightarrow> int \<Rightarrow> bool \<Rightarrow> bytes res" where
  "rr_frame addr nr poll = build_frame addr (rr_ctrl nr poll) []"

text \<open>The read loop of \<open>_xfer\<close>, with \<open>buf\<close> the bytes collected so far.\<close>

primrec xfer_loop :: "'w port_ops \<Rightarrow> nat \<Rightarrow> time \<Rightarrow> bytes \<Rightarrow> ('w link, bytes) io" where
  "xfer_loop P 0 deadline buf = io_raise Diverged"
| "xfer_loop P (Suc n) deadline buf =
     io_bind (clock P) (\<lambda>now.
       if \<not> now < deadline then io_return buf
       else io_bind (on_port (ser_read P 256)) (\<lambda>chunk.
         if chunk = [] then xfer_loop P n deadline buf
         else let buf = buf @ chunk in
           if length (filter (\<lambda>b. b = FLAG) buf) \<ge> 2
           then io_bind (on_port (ser_in_waiting P)) (\<lambda>waiting.
                  if waiting = 0 then io_return buf else xfer_loop P n deadline buf)
           else xfer_loop P n deadline buf))"

definition xfer :: "'w port_ops \<Rightarrow> nat \<Rightarrow> bytes \<Rightarrow> time option \<Rightarrow> ('w link, bytes) io" where
  "xfer P fuel frame timeout =
     io_seq (io_modify (\<lambda>l. l\<lparr>lk_deframer := new_deframer 512\<rparr>))
     (io_seq (on_port (ser_reset_input_buffer P))
     (io_seq (on_port (ser_write P frame))
     (io_seq (on_port (ser_flush P))
     (io_bind (clock P) (\<lambda>now l.
        let t = (case timeout of None \<Rightarrow> lk_timeout l | Some t \<Rightarrow> if t = 0 then lk_timeout l else t)
        in xfer_loop P fuel (now + t) [] l)))))"

text \<open>\<open>_command\<close>\<close>

definition link_command ::
  "'w port_ops \<Rightarrow> nat \<Rightarrow> int \<Rightarrow> int \<Rightarrow> bytes \<Rightarrow> time option \<Rightarrow> ('w link, frame list) io" where
  "link_command P fuel addr ctrl payload timeout =
     io_bind (io_res (build_frame addr ctrl payload)) (\<lambda>frame.
     io_bind (xfer P fuel frame timeout) (\<lambda>raw. io_res (list_parse_frames raw)))"

text \<open>
  The \<open>while True\<close> of \<open>_read_frames\<close>. When \<open>frames\<close> is not empty the loop returns at once, so the
  list is what this turn's \<open>feed\<close> gave.
\<close>

definition df_feed :: "bytes \<Rightarrow> ('w link, frame list) io" where
  "df_feed chunk l = (let (fs, d) = feed (lk_deframer l) chunk in (Inr fs, l\<lparr>lk_deframer := d\<rparr>))"

definition df_partial :: "('w link, bool) io" where
  "df_partial l = (Inr (partial_frame (lk_deframer l)), l)"

primrec read_loop :: "'w port_ops \<Rightarrow> nat \<Rightarrow> time \<Rightarrow> time \<Rightarrow> time \<Rightarrow> time \<Rightarrow> ('w link, frame list) io" where
  "read_loop P 0 end_at hard_end idle_gap last_rx = io_raise Diverged"
| "read_loop P (Suc n) end_at hard_end idle_gap last_rx =
     io_bind (on_port (ser_in_waiting P)) (\<lambda>waiting.
     io_bind (on_port (ser_read P (if waiting \<noteq> 0 then waiting else 1))) (\<lambda>chunk.
     io_bind (clock P) (\<lambda>now.
     io_bind (if chunk \<noteq> [] then df_feed chunk else io_return []) (\<lambda>frames.
       let last_rx = (if chunk \<noteq> [] then now else last_rx) in
       if frames \<noteq> [] then io_return frames
       else if now \<ge> hard_end then io_return frames
       else io_bind df_partial (\<lambda>partial.
         if partial \<and> now - last_rx < idle_gap then read_loop P n end_at hard_end idle_gap last_rx
         else if now \<ge> end_at then io_return frames
         else read_loop P n end_at hard_end idle_gap last_rx)))))"

definition idle_gap_default :: time where "idle_gap_default = 50000"
definition hard_cap_default :: time where "hard_cap_default = 3000000"

definition read_frames :: "'w port_ops \<Rightarrow> nat \<Rightarrow> time \<Rightarrow> ('w link, frame list) io" where
  "read_frames P fuel budget =
     io_bind (clock P) (\<lambda>start.
       read_loop P fuel (start + budget) (start + max budget hard_cap_default) idle_gap_default 0)"

section \<open>What the primitives raise\<close>

text \<open>A failure of the line: the port raised, or (in the model) a loop ran out of fuel.\<close>

definition line_error :: "exn \<Rightarrow> bool" where
  "line_error e = (case e of OSError _ \<Rightarrow> True | Diverged \<Rightarrow> True | _ \<Rightarrow> False)"

lemma line_error_simps [simp]: "line_error (OSError m)" "line_error Diverged"
  by (simp_all add: line_error_def)

lemma raises_on_port [raises_intros]: "io_raises line_error (on_port m)"
  by (rule io_raisesI) (auto simp: on_port_def on_world_def split: prod.splits sum.splits)

lemma raises_clock [raises_intros]: "io_raises E (clock P)"
  by (rule io_raisesI) (auto simp: clock_def on_world_def split: prod.splits)

lemma raises_sleep_for [raises_intros]: "io_raises E (sleep_for P t)"
  by (rule io_raisesI) (auto simp: sleep_for_def on_world_def split: prod.splits)

lemma raises_get_peer [raises_intros]: "io_raises E (get_peer a)"
  by (simp add: io_raises_def get_peer_def)

lemma raises_upd_peer [raises_intros]: "io_raises E (upd_peer a f)"
  by (simp add: io_raises_def upd_peer_def)

lemma raises_upd_stats [raises_intros]: "io_raises E (upd_stats f)"
  by (simp add: io_raises_def upd_stats_def)

lemma raises_df_feed [raises_intros]: "io_raises E (df_feed c)"
  by (auto simp: io_raises_def df_feed_def split: prod.splits)

lemma raises_df_partial [raises_intros]: "io_raises E df_partial"
  by (simp add: io_raises_def df_partial_def)

lemma raises_write [raises_intros]: "io_raises line_error (link_write P f)"
  unfolding link_write_def by (intro raises_intros)

lemma raises_xfer_loop [raises_intros]: "io_raises line_error (xfer_loop P n d buf)"
  by (induction n arbitrary: buf) (auto simp: Let_def intro!: raises_intros io_raises_raise)

lemma raises_xfer [raises_intros]: "io_raises line_error (xfer P n f t)"
proof -
  have "io_raises line_error (\<lambda>l. xfer_loop P n (now + g l) [] l)" for now g
    using raises_xfer_loop unfolding io_raises_def by blast
  then show ?thesis
    unfolding xfer_def Let_def by (intro raises_intros)
qed

lemma raises_read_loop [raises_intros]: "io_raises line_error (read_loop P n e h g rx)"
  by (induction n arbitrary: rx) (auto simp: Let_def intro!: raises_intros io_raises_raise)

lemma raises_read_frames [raises_intros]: "io_raises line_error (read_frames P n b)"
  unfolding read_frames_def by (intro raises_intros)

section \<open>What the primitives leave alone\<close>

text \<open>
  The contract between the port and a predicate on links: reading, flushing, asking for the time and
  sleeping keep it, and it does not look at the deframer, the counters or at whether a peer entry has
  been created yet. Then the read pump keeps it.
\<close>

locale port_local =
  fixes P :: "'w port_ops" and I :: "'w link \<Rightarrow> bool"
  assumes P_read: "io_keeps I (on_port (ser_read P n))"
    and P_waiting: "io_keeps I (on_port (ser_in_waiting P))"
    and P_flush: "io_keeps I (on_port (ser_flush P))"
    and P_clock: "io_keeps I (clock P)"
    and P_sleep: "io_keeps I (sleep_for P t)"
    and I_deframer: "I l \<Longrightarrow> I (l\<lparr>lk_deframer := d\<rparr>)"
    and I_stats: "I l \<Longrightarrow> I (l\<lparr>stats := s\<rparr>)"
    and I_touch: "I l \<Longrightarrow> I (l\<lparr>peers := (peers l)(a \<mapsto> peer_of l a)\<rparr>)"
begin

lemmas keeps_port [keeps_intros] = P_read P_waiting P_flush P_clock P_sleep

lemma keeps_state [keeps_intros]:
  "io_keeps I (get_peer a)" "io_keeps I (upd_stats f)" "io_keeps I (df_feed c)" "io_keeps I df_partial"
  by (auto simp: io_keeps_def get_peer_def upd_stats_def df_feed_def df_partial_def
      I_touch I_stats I_deframer split: prod.split)

lemma keeps_read_loop [keeps_intros]: "io_keeps I (read_loop P n e h g rx)"
  by (induction n arbitrary: rx) (auto simp: Let_def intro!: keeps_intros)

lemma keeps_read_frames [keeps_intros]: "io_keeps I (read_frames P n b)"
  unfolding read_frames_def by (intro keeps_intros)

end

text \<open>
  A predicate that does not look at the world at all satisfies that contract for every port, and is
  kept by every primitive, whatever the port does and however it fails.
\<close>

locale link_local =
  fixes I :: "'w link \<Rightarrow> bool"
  assumes I_world: "I l \<Longrightarrow> I (l\<lparr>world := w\<rparr>)"
    and L_deframer: "I l \<Longrightarrow> I (l\<lparr>lk_deframer := d\<rparr>)"
    and L_stats: "I l \<Longrightarrow> I (l\<lparr>stats := s\<rparr>)"
    and L_touch: "I l \<Longrightarrow> I (l\<lparr>peers := (peers l)(a \<mapsto> peer_of l a)\<rparr>)"
begin

lemma keeps_on_world [keeps_intros]: "io_keeps I (on_world m)"
  by (auto simp: io_keeps_def on_world_def I_world split: prod.split)

lemma keeps_on_port [keeps_intros]: "io_keeps I (on_port m)"
  unfolding on_port_def by (rule keeps_on_world)

lemma keeps_clock [keeps_intros]: "io_keeps I (clock P)" and keeps_sleep: "io_keeps I (sleep_for P t)"
  unfolding clock_def sleep_for_def by (rule keeps_on_world)+

sublocale port: port_local P I for P
  by unfold_locales
    (simp_all add: keeps_on_port keeps_clock keeps_sleep L_deframer L_stats L_touch)

lemma keeps_close [keeps_intros]: "io_keeps I (close_link P)"
  unfolding close_link_def by (rule keeps_on_port)

lemma keeps_write [keeps_intros]: "io_keeps I (link_write P f)"
  unfolding link_write_def by (intro keeps_intros)

lemma keeps_xfer_loop [keeps_intros]: "io_keeps I (xfer_loop P n d buf)"
  by (induction n arbitrary: buf) (auto simp: Let_def intro!: keeps_intros)

lemma keeps_xfer [keeps_intros]: "io_keeps I (xfer P n f t)"
proof -
  have "io_keeps I (\<lambda>l. xfer_loop P n (now + g l) [] l)" for now g
    using keeps_xfer_loop by (auto simp: io_keeps_def)
  then show ?thesis
    unfolding xfer_def Let_def
    by (intro keeps_intros io_keeps_modify) (auto intro: L_deframer)
qed

lemma keeps_command [keeps_intros]: "io_keeps I (link_command P n a c p t)"
  unfolding link_command_def by (intro keeps_intros)

end

text \<open>The sequence numbers of every peer are in range.\<close>

definition peer_ok :: "peer \<Rightarrow> bool" where
  "peer_ok p \<longleftrightarrow> seq_no (vs p) \<and> seq_no (vr p)"

definition link_ok :: "'w link \<Rightarrow> bool" where
  "link_ok l \<longleftrightarrow> (\<forall>a. peer_ok (peer_of l a))"

lemma peer_of_simps [simp]:
  "peer_of (l\<lparr>world := w\<rparr>) a = peer_of l a"
  "peer_of (l\<lparr>lk_deframer := d\<rparr>) a = peer_of l a"
  "peer_of (l\<lparr>stats := s\<rparr>) a = peer_of l a"
  "peer_of (l\<lparr>peers := (peers l)(b \<mapsto> p)\<rparr>) a = (if a = b then p else peer_of l a)"
  by (simp_all add: peer_of_def)

lemma peer_ok_new [simp]: "peer_ok new_peer"
  by (simp add: peer_ok_def new_peer_def)

lemma peer_ok_reset [simp]: "peer_ok (peer_reset p)"
  by (simp add: peer_ok_def peer_reset_def)

lemma link_ok_new: "link_ok (new_link t w)"
  by (simp add: link_ok_def new_link_def peer_of_def)

interpretation ok: link_local link_ok
  by unfold_locales (auto simp: link_ok_def)

interpretation peer_is: link_local "\<lambda>l. peer_of l a = p" for a p
  by unfold_locales auto

lemma link_ok_upd_peer: "(\<And>p. peer_ok p \<Longrightarrow> peer_ok (f p)) \<Longrightarrow> io_keeps link_ok (upd_peer a f)"
  by (auto simp: io_keeps_def upd_peer_def link_ok_def)

lemma peer_is_upd_peer [keeps_intros]: "a \<noteq> b \<Longrightarrow> io_keeps (\<lambda>l. peer_of l a = p) (upd_peer b f)"
  by (simp add: io_keeps_def upd_peer_def)

end
