(* ===== verification/Link_Scan.thy ===== *)
theory Link_Scan
  imports Link_State
begin

text \<open>
  \<open>openaisg/link.py\<close>, lines 193 to 305: the device scan with its bisection of the unique-ID space,
  address assignment, connecting and disconnecting, and the probe for devices that already hold an
  address.
\<close>

section \<open>Device scan\<close>

text \<open>
  The loop of \<open>scan_once\<close> over the frames of the reply. \<open>p.get(PI_DEVICE_TYPE, b"\xff")[0]\<close> raises
  \<open>IndexError\<close> on an empty value.
\<close>

definition device_of :: "(int \<rightharpoonup> bytes) \<Rightarrow> device res" where
  "device_of p =
     (case (case p PI_DEVICE_TYPE of None \<Rightarrow> [0xff] | Some v \<Rightarrow> v) of
        [] \<Rightarrow> Inl IndexError
      | b # _ \<Rightarrow> Inr \<lparr>unique_id = (case p PI_UNIQUE_ID of None \<Rightarrow> [] | Some v \<Rightarrow> v),
                    device_type = Some (uint b), vendor = p PI_VENDOR_CODE, address = None\<rparr>)"

fun scan_frames :: "frame list \<Rightarrow> device list res" where
  "scan_frames [] = Inr []"
| "scan_frames ((_, ctrl, pl) # frames) =
     (if ctrl AND NOT PF \<noteq> CTRL_XID then scan_frames frames
      else res_bind (xid_decode pl) (\<lambda>p.
           res_bind (device_of p) (\<lambda>dev.
           res_bind (scan_frames frames) (\<lambda>found. Inr (dev # found)))))"

definition scan_once :: "'w port_ops \<Rightarrow> nat \<Rightarrow> bytes \<Rightarrow> bytes \<Rightarrow> ('w link, device list) io" where
  "scan_once P fuel uid msk =
     io_bind (io_res (xid_encode [(PI_UNIQUE_ID, uid), (PI_BITMASK, msk)])) (\<lambda>payload.
     io_bind (link_command P fuel ADDR_BROADCAST (CTRL_XID OR PF) payload None) (\<lambda>frames.
       io_res (scan_frames frames)))"

text \<open>\<open>results[dev.unique_id] = dev\<close>: a new key goes last, a known one is overwritten in place.\<close>

fun dict_set :: "'k \<Rightarrow> 'v \<Rightarrow> ('k \<times> 'v) list \<Rightarrow> ('k \<times> 'v) list" where
  "dict_set k v [] = [(k, v)]"
| "dict_set k v ((k', v') # d) = (if k' = k then (k, v) # d else (k', v') # dict_set k v d)"

type_synonym scan_results = "(bytes \<times> device) list"

definition record_devices :: "device list \<Rightarrow> scan_results \<Rightarrow> scan_results" where
  "record_devices devs results = foldl (\<lambda>r d. dict_set (unique_id d) d r) results devs"

text \<open>\<open>uid.ljust(n, b"\x00")\<close>\<close>

definition ljust :: "nat \<Rightarrow> bytes \<Rightarrow> bytes" where
  "ljust n b = b @ replicate (n - length b) 0"

text \<open>\<open>b[-1] |= 1 << bit\<close> on a non-empty bytearray.\<close>

definition set_last_bit :: "nat \<Rightarrow> bytes \<Rightarrow> bytes" where
  "set_last_bit n b = butlast b @ [last b OR push_bit n 1]"

text \<open>The mask and the two unique IDs of the probes one level below a collision.\<close>

definition split_mask :: "bytes \<Rightarrow> nat \<Rightarrow> bytes" where
  "split_mask msk depth =
     (let nbytes = (if msk = [] \<or> last msk = 0xFF then length msk + 1 else length msk)
      in set_last_bit (7 - depth mod 8) (ljust nbytes msk))"

definition split_uid :: "bytes \<Rightarrow> bytes \<Rightarrow> nat \<Rightarrow> bool \<Rightarrow> bytes" where
  "split_uid uid msk depth v =
     (let nbytes = (if msk = [] \<or> last msk = 0xFF then length msk + 1 else length msk);
          u = ljust nbytes uid
      in if v then set_last_bit (7 - depth mod 8) u else u)"

text \<open>
  The nested function \<open>probe\<close>, over any implementation \<open>once\<close> of \<open>scan_once\<close>; the first argument is
  \<open>max_depth - depth\<close>. A device list is recorded before an exception can come from a later probe.
\<close>

type_synonym 's scanner = "bytes \<Rightarrow> bytes \<Rightarrow> ('s, device list) io"

definition is_frame_error :: "exn \<Rightarrow> bool" where
  "is_frame_error e = (case e of FrameError _ \<Rightarrow> True | _ \<Rightarrow> False)"

primrec probe ::
  "nat \<Rightarrow> 's scanner \<Rightarrow> nat \<Rightarrow> bytes \<Rightarrow> bytes \<Rightarrow> scan_results \<Rightarrow> ('s, scan_results) io" where
  "probe 0 once depth uid msk results s =
     (case once uid msk s of
        (Inr devs, s') \<Rightarrow> (Inr (record_devices devs results), s')
      | (Inl e, s') \<Rightarrow>
          (Inl (if is_frame_error e then AisgError ''scan collision could not be resolved'' else e), s'))"
| "probe (Suc n) once depth uid msk results s =
     (case once uid msk s of
        (Inr devs, s') \<Rightarrow> (Inr (record_devices devs results), s')
      | (Inl e, s') \<Rightarrow>
          (if \<not> is_frame_error e then (Inl e, s')
           else io_bind
             (probe n once (depth + 1) (split_uid uid msk depth False) (split_mask msk depth) results)
             (probe n once (depth + 1) (split_uid uid msk depth True) (split_mask msk depth)) s'))"

definition max_depth_default :: nat where "max_depth_default = 24"

definition scan_with :: "'s scanner \<Rightarrow> nat \<Rightarrow> ('s, device list) io" where
  "scan_with once max_depth =
     io_bind (probe max_depth once 0 [] [] []) (\<lambda>results. io_return (map snd results))"

definition scan :: "'w port_ops \<Rightarrow> nat \<Rightarrow> ('w link, device list) io" where
  "scan P fuel = scan_with (scan_once P fuel) max_depth_default"

section \<open>Address assignment\<close>

text \<open>The message ends in \<open>str(dev)\<close>, which is left out: no code looks at it.\<close>

definition assign_error :: exn where
  "assign_error = AisgError ''no XID response to address assignment''"

definition assign_address :: "'w port_ops \<Rightarrow> nat \<Rightarrow> device \<Rightarrow> int \<Rightarrow> ('w link, device) io" where
  "assign_address P fuel dev addr =
     io_bind (io_res (py_bytes [addr])) (\<lambda>a.
     io_bind (io_res (xid_encode [(PI_UNIQUE_ID, unique_id dev), (PI_HDLC_ADDR, a)])) (\<lambda>payload.
     io_bind (link_command P fuel ADDR_BROADCAST (CTRL_XID OR PF) payload None) (\<lambda>frames.
       if \<exists>(faddr, ctrl, pl) \<in> set frames. ctrl AND NOT PF = CTRL_XID \<and> faddr = addr
       then io_return (dev\<lparr>address := Some addr\<rparr>)
       else io_raise assign_error)))"

section \<open>Connection management\<close>

definition connect_link :: "'w port_ops \<Rightarrow> nat \<Rightarrow> int \<Rightarrow> ('w link, unit) io" where
  "connect_link P fuel addr =
     io_bind (link_command P fuel addr (CTRL_SNRM OR PF) [] None) (\<lambda>frames.
       if \<exists>(faddr, ctrl, pl) \<in> set frames. faddr = addr \<and> ctrl AND NOT PF = CTRL_UA
       then upd_peer addr (\<lambda>p. (peer_reset p)\<lparr>connected := True\<rparr>)
       else io_raise (AisgError (''no UA to SNRM from address '' @ show_0x addr)))"

definition disconnect_link :: "'w port_ops \<Rightarrow> nat \<Rightarrow> int \<Rightarrow> time option \<Rightarrow> ('w link, unit) io" where
  "disconnect_link P fuel addr timeout =
     io_seq (link_command P fuel addr (CTRL_DISC OR PF) [] timeout)
       (upd_peer addr (\<lambda>p. (peer_reset p)\<lparr>connected := False\<rparr>))"

definition probe_address :: "'w port_ops \<Rightarrow> nat \<Rightarrow> int \<Rightarrow> bool \<Rightarrow> ('w link, bool) io" where
  "probe_address P fuel addr disconnect l =
     (case connect_link P fuel addr l of
        (Inl e, l') \<Rightarrow> if is_aisg_error e then (Inr False, l') else (Inl e, l')
      | (Inr _, l') \<Rightarrow>
          (if disconnect
           then io_seq (io_catch (disconnect_link P fuel addr None)
                  (\<lambda>e. if is_aisg_error e then Some (io_return ()) else None)) (io_return True) l'
           else (Inr True, l')))"

primrec scan_assigned :: "nat \<Rightarrow> 'w port_ops \<Rightarrow> nat \<Rightarrow> int \<Rightarrow> ('w link, device list) io" where
  "scan_assigned 0 P fuel first = io_return []"
| "scan_assigned (Suc count) P fuel first =
     io_bind (probe_address P fuel first False) (\<lambda>found.
     io_bind (scan_assigned count P fuel (first + 1)) (\<lambda>devs.
       io_return (if found
                  then \<lparr>unique_id = [], device_type = None, vendor = None, address = Some first\<rparr> # devs
                  else devs)))"

end
