(* ===== verification/Link_Bisection.thy ===== *)
theory Link_Bisection
  imports Link_Scan
begin

text \<open>
  The bisection of \<open>AisgLink.scan\<close>: what the masks and unique IDs of its probes say, bit by bit, and
  what the search finds on a bus that answers as a bus of devices should.
\<close>

section \<open>Bits of a unique ID\<close>

text \<open>Bit \<open>i\<close> of a byte string, from the most significant bit of its first octet; 0 past its end.\<close>

definition ubit :: "bytes \<Rightarrow> nat \<Rightarrow> bool" where
  "ubit u i \<longleftrightarrow> i div 8 < length u \<and> bit (u ! (i div 8)) (7 - i mod 8)"

text \<open>
  How a device decides whether a scan concerns it: the octets under the mask agree. This is the
  device's behaviour, not the repository's; the theorems that need it name it as a hypothesis.
\<close>

definition octet_at :: "bytes \<Rightarrow> nat \<Rightarrow> byte" where
  "octet_at u i = (if i < length u then u ! i else 0)"

definition matches :: "bytes \<Rightarrow> bytes \<Rightarrow> bytes \<Rightarrow> bool" where
  "matches u uid msk \<longleftrightarrow>
     list_all (\<lambda>i. octet_at u i AND msk ! i = octet_at uid i AND msk ! i) [0..<length msk]"

lemma ubit_octet_at: "ubit u i \<longleftrightarrow> bit (octet_at u (i div 8)) (7 - i mod 8)"
  by (simp add: ubit_def octet_at_def)

lemma octet_eq_iff: "(x :: byte) = y \<longleftrightarrow> (\<forall>n < 8. bit x n = bit y n)"
  using bit_word_eqI [of x y] by auto

lemma bit_index:
  assumes "n < (8 :: nat)"
  shows "(8 * j + (7 - n)) div 8 = j \<and> 7 - (8 * j + (7 - n)) mod 8 = n"
proof -
  obtain m where m: "7 - n = m" "m < 8" "7 - m = n" using assms by simp
  then show ?thesis unfolding m(1) by simp
qed

lemma matches_bits:
  "matches u uid msk \<longleftrightarrow> (\<forall>i. ubit msk i \<longrightarrow> (ubit u i \<longleftrightarrow> ubit uid i))"
proof -
  have "matches u uid msk \<longleftrightarrow> (\<forall>j < length msk. \<forall>n < 8. bit (msk ! j) n \<longrightarrow>
      (bit (octet_at u j) n \<longleftrightarrow> bit (octet_at uid j) n))"
    unfolding matches_def octet_eq_iff list_all_iff by (auto simp: bit_and_iff)
  also have "\<dots> \<longleftrightarrow> (\<forall>i. ubit msk i \<longrightarrow> (ubit u i \<longleftrightarrow> ubit uid i))" (is "?L \<longleftrightarrow> ?R")
  proof
    assume ?L
    then have "bit (msk ! (i div 8)) (7 - i mod 8) \<Longrightarrow> i div 8 < length msk \<Longrightarrow>
        ubit u i \<longleftrightarrow> ubit uid i" for i
      by (simp add: ubit_octet_at)
    then show ?R by (simp add: ubit_def [of msk])
  next
    assume R: ?R
    show ?L
    proof (intro allI impI)
      fix j n :: nat assume j: "j < length msk" and n: "n < 8" and b: "bit (msk ! j) n"
      from R [rule_format, of "8 * j + (7 - n)"] j b
      show "bit (octet_at u j) n \<longleftrightarrow> bit (octet_at uid j) n"
        unfolding ubit_octet_at [of u] ubit_octet_at [of uid] ubit_def [of msk]
        by (simp only: bit_index [OF n, of j])
    qed
  qed
  finally show ?thesis .
qed

section \<open>The probes\<close>

text \<open>
  At depth \<open>k\<close>, on the branch that chose the bits \<open>p\<close>: the mask covers exactly the first \<open>k\<close> bits and
  the unique ID is \<open>p\<close> followed by zeros.
\<close>

definition probe_at :: "bool list \<Rightarrow> bytes \<Rightarrow> bytes \<Rightarrow> bool" where
  "probe_at p uid msk \<longleftrightarrow>
     length msk = (length p + 7) div 8 \<and> length uid = (length p + 7) div 8
     \<and> (\<forall>i. ubit msk i \<longleftrightarrow> i < length p) \<and> (\<forall>i. ubit uid i \<longleftrightarrow> i < length p \<and> p ! i)"

definition agrees :: "bytes \<Rightarrow> bool list \<Rightarrow> bool" where
  "agrees u p \<longleftrightarrow> (\<forall>i < length p. ubit u i \<longleftrightarrow> p ! i)"

lemma probe_at_Nil: "probe_at [] [] []"
  by (simp add: probe_at_def ubit_def)

lemma probe_at_matches: "probe_at p uid msk \<Longrightarrow> matches u uid msk \<longleftrightarrow> agrees u p"
  by (auto simp: matches_bits probe_at_def agrees_def)

lemma ubit_ljust: "ubit (ljust n u) i \<longleftrightarrow> ubit u i"
  by (auto simp: ubit_def ljust_def nth_append)

lemma length_ljust: "length u \<le> n \<Longrightarrow> length (ljust n u) = n"
  by (simp add: ljust_def)

lemma length_set_last_bit: "u \<noteq> [] \<Longrightarrow> length (set_last_bit n u) = length u"
  by (simp add: set_last_bit_def)

lemma ubit_set_last_bit:
  assumes "length u = Suc m" and "k div 8 = m"
  shows "ubit (set_last_bit (7 - k mod 8) u) i \<longleftrightarrow> ubit u i \<or> i = k"
proof -
  from assms(1) obtain v b where u: "u = v @ [b]" "length v = m"
    by (cases u rule: rev_cases) auto
  have k: "i = k \<longleftrightarrow> i div 8 = m \<and> 7 - i mod 8 = 7 - k mod 8"
  proof -
    have "i mod 8 \<le> 7" "k mod 8 \<le> 7" by simp_all
    then show ?thesis using assms(2) div_mult_mod_eq [of i 8] div_mult_mod_eq [of k 8]
      by (metis diff_diff_cancel)
  qed
  have "7 - i mod 8 < LENGTH(8)" by simp
  then show ?thesis unfolding k
    by (auto simp: set_last_bit_def u ubit_def nth_append bit_or_iff push_bit_of_1
        bit_exp_iff less_Suc_eq)
qed

lemma ff_iff: "(b :: byte) = 0xFF \<longleftrightarrow> (\<forall>n < 8. bit b n)"
proof -
  have "bit (0xFF :: byte) n" if "n < 8" for n
    using that by (simp add: bit_numeral_rec less_Suc_eq numeral_eq_Suc) auto
  then show ?thesis unfolding octet_eq_iff by auto
qed

lemma div8_up: "((k :: nat) + 7) div 8 = (if k mod 8 = 0 then k div 8 else Suc (k div 8))"
proof -
  have "(k mod 8 + 7) div 8 = (if k mod 8 = 0 then 0 else 1)"
    by (auto intro: div_nat_eqI)
  moreover have "(8 * (k div 8) + (k mod 8 + 7)) div 8 = k div 8 + (k mod 8 + 7) div 8"
    by (rule div_mult_self4) simp
  moreover have "8 * (k div 8) + (k mod 8 + 7) = k + 7" by simp
  ultimately show ?thesis by (simp split: if_splits)
qed

lemma div8_last:
  assumes "0 < ((k :: nat) + 7) div 8"
  shows "8 * ((k + 7) div 8 - 1) + 7 < k \<longleftrightarrow> k mod 8 = 0"
proof -
  have k: "k = 8 * (k div 8) + k mod 8" "k mod 8 < 8" by simp_all
  show ?thesis
  proof (cases "k mod 8 = 0")
    case True
    with assms have "0 < k div 8" "(k + 7) div 8 = k div 8" by (simp_all only: div8_up simp_thms if_True)
    with k True show ?thesis by linarith
  next
    case False
    then have "(k + 7) div 8 = Suc (k div 8)" by (simp only: div8_up simp_thms if_False)
    with k False show ?thesis by linarith
  qed
qed

lemma div8_up_pos: "0 < (k :: nat) \<Longrightarrow> 0 < (k + 7) div 8"
  by (auto simp: div_greater_zero_iff)

lemma last_byte_full:
  assumes "probe_at p uid msk" and "p \<noteq> []"
  shows "last msk = 0xFF \<longleftrightarrow> length p mod 8 = 0"
proof -
  let ?k = "length p" and ?L = "(length p + 7) div 8"
  have "0 < ?k" using assms(2) by simp
  then have L: "length msk = ?L" "0 < ?L"
    using assms(1) div8_up_pos by (simp_all only: probe_at_def)
  then have "msk \<noteq> []" by force
  then have lst: "last msk = msk ! (?L - 1)" using last_conv_nth [of msk] unfolding L(1) by blast
  have b: "bit (msk ! (?L - 1)) n \<longleftrightarrow> 8 * (?L - 1) + (7 - n) < ?k" if n: "n < 8" for n
  proof -
    have "ubit msk (8 * (?L - 1) + (7 - n)) \<longleftrightarrow> bit (msk ! (?L - 1)) n"
      unfolding ubit_def bit_index [OF n, THEN conjunct1] bit_index [OF n, THEN conjunct2]
      using L by simp
    with assms(1) show ?thesis by (simp add: probe_at_def)
  qed
  have "(\<forall>n < 8. bit (msk ! (?L - 1)) n) \<longleftrightarrow> 8 * (?L - 1) + 7 < ?k"
  proof
    assume "\<forall>n < 8. bit (msk ! (?L - 1)) n"
    with b [of 0] show "8 * (?L - 1) + 7 < ?k" by simp
  next
    assume "8 * (?L - 1) + 7 < ?k"
    with b show "\<forall>n < 8. bit (msk ! (?L - 1)) n" by (auto intro: le_less_trans [rotated])
  qed
  also have "\<dots> \<longleftrightarrow> ?k mod 8 = 0" using L(2) by (rule div8_last)
  finally show ?thesis by (simp add: ff_iff lst)
qed

lemma probe_at_step:
  assumes "probe_at p uid msk"
  shows "probe_at (p @ [v]) (split_uid uid msk (length p) v) (split_mask msk (length p))"
proof -
  let ?k = "length p"
  let ?n = "if msk = [] \<or> last msk = 0xFF then length msk + 1 else length msk"
  have l: "length msk = (?k + 7) div 8" using assms by (simp add: probe_at_def)
  have "(?k + 7) div 8 = 0 \<longleftrightarrow> ?k = 0" using div8_up_pos [of ?k] by (cases "?k = 0") auto
  with l have e: "msk = [] \<longleftrightarrow> p = []" by (metis length_0_conv)
  have n: "?n = Suc (?k div 8)"
  proof (cases "p = []")
    case True
    with e show ?thesis by simp
  next
    case False
    note full = last_byte_full [OF assms False]
    show ?thesis
    proof (cases "?k mod 8 = 0")
      case True
      then have "(?k + 7) div 8 = ?k div 8" by (simp only: div8_up simp_thms if_True)
      with l have "length msk = ?k div 8" by (simp only:)
      moreover have "last msk = 0xFF" using full True by (simp only:)
      ultimately show ?thesis by simp
    next
      case no: False
      then have "(?k + 7) div 8 = Suc (?k div 8)" by (simp only: div8_up simp_thms if_False)
      with l have "length msk = Suc (?k div 8)" by (simp only:)
      moreover have "last msk \<noteq> 0xFF" "msk \<noteq> []" using full no e False by blast+
      ultimately show ?thesis by simp
    qed
  qed
  have len: "length msk \<le> ?n" "length uid \<le> ?n" using assms by (auto simp: probe_at_def)
  have k8: "(Suc ?k + 7) div 8 = Suc (?k div 8)" by simp
  have ne: "ljust ?n msk \<noteq> []" "ljust ?n uid \<noteq> []"
    using length_ljust [OF len(1)] length_ljust [OF len(2)] n by force+
  have lens: "length (ljust ?n msk) = Suc (?k div 8)" "length (ljust ?n uid) = Suc (?k div 8)"
    using length_ljust [OF len(1)] length_ljust [OF len(2)] n by simp_all
  have bits: "\<And>i. ubit msk i \<longleftrightarrow> i < ?k" "\<And>i. ubit uid i \<longleftrightarrow> i < ?k \<and> p ! i"
    using assms by (simp_all only: probe_at_def simp_thms)
  have m: "ubit (split_mask msk ?k) i \<longleftrightarrow> i < Suc ?k" for i
    unfolding split_mask_def Let_def ubit_set_last_bit [OF lens(1) refl] ubit_ljust bits by auto
  have u: "ubit (split_uid uid msk ?k v) i \<longleftrightarrow> i < Suc ?k \<and> (p @ [v]) ! i" for i
  proof (cases v)
    case True
    then show ?thesis
      unfolding split_uid_def Let_def if_P [OF True] ubit_set_last_bit [OF lens(2) refl] ubit_ljust bits
      by (auto simp: nth_append)
  next
    case False
    then show ?thesis
      unfolding split_uid_def Let_def if_not_P [OF False] ubit_ljust bits
      by (auto simp: nth_append less_Suc_eq)
  qed
  have "length (split_mask msk ?k) = Suc (?k div 8)"
    unfolding split_mask_def Let_def length_set_last_bit [OF ne(1)] by (rule lens)
  moreover have "length (split_uid uid msk ?k v) = Suc (?k div 8)"
    unfolding split_uid_def Let_def using length_set_last_bit [OF ne(2)] lens(2) by simp
  ultimately show ?thesis
    unfolding probe_at_def length_append_singleton k8 by (simp only: m u simp_thms)
qed

lemma agrees_snoc: "agrees u (p @ [v]) \<longleftrightarrow> agrees u p \<and> ubit u (length p) = v"
  by (auto simp: agrees_def nth_append less_Suc_eq)

section \<open>The search on a well-behaved bus\<close>

text \<open>
  What the search relies on: every unaddressed device that matches a probe answers it, one answer
  arrives intact, and several collide into a frame with a bad FCS. Only the masks the search uses,
  of at most \<open>(max_depth + 7) div 8\<close> octets, matter.
\<close>

definition matching :: "device list \<Rightarrow> bytes \<Rightarrow> bytes \<Rightarrow> device list" where
  "matching D uid msk = filter (\<lambda>d. matches (unique_id d) uid msk) D"

definition bus_of :: "nat \<Rightarrow> 's scanner \<Rightarrow> device list \<Rightarrow> bool" where
  "bus_of max_depth once D \<longleftrightarrow>
     (\<forall>uid msk s. length msk \<le> (max_depth + 7) div 8 \<and> length uid = length msk \<longrightarrow>
        fst (once uid msk s) =
          (if length (matching D uid msk) \<le> 1 then Inr (matching D uid msk)
           else Inl (FrameError ''collision'')))"

definition told_apart :: "nat \<Rightarrow> device list \<Rightarrow> bool" where
  "told_apart n D \<longleftrightarrow> distinct D
     \<and> (\<forall>d \<in> set D. \<forall>e \<in> set D. d \<noteq> e \<longrightarrow> (\<exists>i < n. ubit (unique_id d) i \<noteq> ubit (unique_id e) i))"

text \<open>The entries a result dictionary may hold, and that it holds each key once.\<close>

definition entries :: "device set \<Rightarrow> (bytes \<times> device) set" where
  "entries S = (\<lambda>d. (unique_id d, d)) ` S"

definition results_ok :: "device list \<Rightarrow> scan_results \<Rightarrow> bool" where
  "results_ok D r \<longleftrightarrow> set r \<subseteq> entries (set D) \<and> distinct (map fst r)"

lemma told_apart_inj:
  "told_apart n D \<Longrightarrow> d \<in> set D \<Longrightarrow> e \<in> set D \<Longrightarrow> unique_id d = unique_id e \<Longrightarrow> d = e"
  unfolding told_apart_def by metis

lemma fst_dict_set: "fst ` set (dict_set k v r) = insert k (fst ` set r)"
  by (induction k v r rule: dict_set.induct) auto

lemma distinct_dict_set: "distinct (map fst r) \<Longrightarrow> distinct (map fst (dict_set k v r))"
  by (induction k v r rule: dict_set.induct) (auto simp: fst_dict_set)

lemma set_dict_set:
  "distinct (map fst r) \<Longrightarrow> (\<And>w. (k, w) \<in> set r \<Longrightarrow> w = v) \<Longrightarrow>
    set (dict_set k v r) = insert (k, v) (set r)"
  by (induction k v r rule: dict_set.induct) auto

lemma record_devices_ok:
  assumes "told_apart n D" and "results_ok D r" and "set ds \<subseteq> set D"
  shows "results_ok D (record_devices ds r) \<and> set (record_devices ds r) = set r \<union> entries (set ds)"
  using assms(2,3)
proof (induction ds arbitrary: r)
  case (Cons d ds)
  have "w = d" if "(unique_id d, w) \<in> set r" for w
    using that Cons.prems told_apart_inj [OF assms(1), of w d] by (auto simp: results_ok_def entries_def)
  with Cons.prems have s: "set (dict_set (unique_id d) d r) = insert (unique_id d, d) (set r)"
    by (intro set_dict_set) (auto simp: results_ok_def)
  with Cons.prems have "results_ok D (dict_set (unique_id d) d r)"
    by (auto simp: results_ok_def distinct_dict_set entries_def)
  with Cons s show ?case by (auto simp: record_devices_def entries_def)
qed (simp add: record_devices_def entries_def)

lemma once_result:
  assumes "bus_of max_depth once D" and "probe_at p uid msk" and "length p \<le> max_depth"
  shows "fst (once uid msk s) =
    (let ds = filter (\<lambda>d. agrees (unique_id d) p) D in
     if length ds \<le> 1 then Inr ds else Inl (FrameError ''collision''))"
proof -
  have "length msk \<le> (max_depth + 7) div 8" "length uid = length msk"
    using assms(2,3) by (auto simp: probe_at_def div_le_mono)
  moreover have "matching D uid msk = filter (\<lambda>d. agrees (unique_id d) p) D"
    by (simp add: matching_def probe_at_matches [OF assms(2)])
  ultimately show ?thesis using assms(1) by (simp add: bus_of_def Let_def)
qed

lemma probe_finds:
  assumes bus: "bus_of max_depth once D" and apart: "told_apart max_depth D"
    and "probe_at p uid msk" and "length p + n = max_depth" and "results_ok D r"
  shows "\<exists>r' s'. probe n once (length p) uid msk r s = (Inr r', s') \<and> results_ok D r'
    \<and> set r' = set r \<union> entries {d \<in> set D. agrees (unique_id d) p}"
  using assms(3-5)
proof (induction n arbitrary: p uid msk r s)
  case 0
  let ?ds = "filter (\<lambda>d. agrees (unique_id d) p) D"
  have "length ?ds \<le> 1"
  proof (rule ccontr)
    assume "\<not> length ?ds \<le> 1"
    then obtain d e rest where de: "?ds = d # e # rest"
      by (cases ?ds; cases "tl ?ds") auto
    moreover have "distinct ?ds" using apart by (simp add: told_apart_def)
    ultimately have "d \<noteq> e" "d \<in> set ?ds" "e \<in> set ?ds" by auto
    with apart 0 show False by (auto simp: told_apart_def agrees_def)
  qed
  with once_result [OF bus 0(1), of s] 0 obtain s' where "once uid msk s = (Inr ?ds, s')"
    by (cases "once uid msk s") auto
  with record_devices_ok [OF apart 0(3), of ?ds] show ?case by (auto simp: entries_def)
next
  case (Suc n)
  let ?ds = "filter (\<lambda>d. agrees (unique_id d) p) D"
  obtain a s' where o: "once uid msk s = (a, s')" by force
  show ?case
  proof (cases "length ?ds \<le> 1")
    case True
    with once_result [OF bus Suc.prems(1), of s] Suc.prems(2) o have "a = Inr ?ds" by simp
    with o record_devices_ok [OF apart Suc.prems(3), of ?ds] show ?thesis by (auto simp: entries_def)
  next
    case False
    with once_result [OF bus Suc.prems(1), of s] Suc.prems(2) o
    have a: "a = Inl (FrameError ''collision'')" by simp
    note step = probe_at_step [OF Suc.prems(1)]
    obtain r1 s1 where p1: "probe n once (length (p @ [False])) (split_uid uid msk (length p) False)
        (split_mask msk (length p)) r s' = (Inr r1, s1)" and r1: "results_ok D r1"
      "set r1 = set r \<union> entries {d \<in> set D. agrees (unique_id d) (p @ [False])}"
      using Suc.IH [OF step, of False r s'] Suc.prems by auto
    obtain r2 s2 where p2: "probe n once (length (p @ [True])) (split_uid uid msk (length p) True)
        (split_mask msk (length p)) r1 s1 = (Inr r2, s2)" and r2: "results_ok D r2"
      "set r2 = set r1 \<union> entries {d \<in> set D. agrees (unique_id d) (p @ [True])}"
      using Suc.IH [OF step, of True r1 s1] Suc.prems r1 by auto
    have "probe (Suc n) once (length p) uid msk r s = (Inr r2, s2)"
      using p1 p2 by (simp add: o a is_frame_error_def io_bind_def)
    moreover have "set r2 = set r \<union> entries {d \<in> set D. agrees (unique_id d) p}"
      unfolding r2 r1 agrees_snoc by (auto simp: entries_def)
    ultimately show ?thesis using r2(1) by blast
  qed
qed

text \<open>
  When two devices agree on every bit the search may look at, it gives up: the exception of the
  deepest probe ends the whole search.
\<close>

definition gave_up :: exn where
  "gave_up = AisgError ''scan collision could not be resolved''"

lemma two_of_filter:
  assumes "distinct D" and "d \<in> set D" "e \<in> set D" "d \<noteq> e" and "Q d" "Q e"
  shows "\<not> length (filter Q D) \<le> 1"
proof
  assume "length (filter Q D) \<le> 1"
  moreover have "d \<in> set (filter Q D)" "e \<in> set (filter Q D)" using assms by auto
  ultimately show False using assms(4) by (cases "filter Q D") auto
qed

lemma probe_outcome:
  assumes bus: "bus_of max_depth once D"
    and "probe_at p uid msk" and "length p + n = max_depth"
  shows "fst (probe n once (length p) uid msk r s) \<in> {Inl gave_up} \<union> range Inr"
  using assms(2,3)
proof (induction n arbitrary: p uid msk r s)
  case 0
  with once_result [OF bus 0(1), of s] show ?case
    by (cases "once uid msk s") (auto simp: Let_def is_frame_error_def gave_up_def split: if_splits)
next
  case (Suc n)
  note IH = Suc.IH [OF probe_at_step [OF Suc.prems(1)]]
  have e: "length (p @ [v]) + n = max_depth" for v using Suc.prems(2) by simp
  obtain a s' where o: "once uid msk s = (a, s')" by force
  with once_result [OF bus Suc.prems(1), of s] Suc.prems(2) show ?case
    using IH [OF e, of False r s'] IH [OF e, of True]
    by (auto simp: Let_def io_bind_def is_frame_error_def split: if_splits prod.splits sum.splits)
qed

lemma probe_gives_up:
  assumes bus: "bus_of max_depth once D" and "distinct D" "d \<in> set D" "e \<in> set D" "d \<noteq> e"
    and same: "\<forall>i < max_depth. ubit (unique_id d) i = ubit (unique_id e) i"
    and "probe_at p uid msk" and "length p + n = max_depth" and "agrees (unique_id d) p"
  shows "fst (probe n once (length p) uid msk r s) = Inl gave_up"
  using assms(7-9)
proof (induction n arbitrary: p uid msk r s)
  case 0
  then have "agrees (unique_id e) p" using same by (simp add: agrees_def)
  with 0 two_of_filter [OF assms(2-5), of "\<lambda>d. agrees (unique_id d) p"]
    once_result [OF bus 0(1), of s] show ?case
    by (cases "once uid msk s") (auto simp: Let_def is_frame_error_def gave_up_def)
next
  case (Suc n)
  note step = probe_at_step [OF Suc.prems(1)]
  have len: "length (p @ [v]) + n = max_depth" for v using Suc.prems(2) by simp
  from Suc.prems(2,3) have "agrees (unique_id e) p" using same by (simp add: agrees_def)
  with Suc.prems two_of_filter [OF assms(2-5), of "\<lambda>d. agrees (unique_id d) p"]
    once_result [OF bus Suc.prems(1), of s]
  obtain s' where o: "once uid msk s = (Inl (FrameError ''collision''), s')"
    by (cases "once uid msk s") (auto simp: Let_def)
  let ?probe = "\<lambda>v. probe n once (length p + 1) (split_uid uid msk (length p) v) (split_mask msk (length p))"
  have unfold: "probe (Suc n) once (length p) uid msk r s = io_bind (?probe False r) (?probe True) s'"
    by (simp add: o is_frame_error_def)
  show ?case
  proof (cases "ubit (unique_id d) (length p)")
    case False
    then have "agrees (unique_id d) (p @ [False])" using Suc.prems(3) by (simp add: agrees_snoc)
    from Suc.IH [OF step len this, of r s'] show ?thesis
      unfolding unfold by (auto simp: io_bind_def split: prod.split sum.split)
  next
    case True
    then have "agrees (unique_id d) (p @ [True])" using Suc.prems(3) by (simp add: agrees_snoc)
    then have "fst (?probe True r1 s1) = Inl gave_up" for r1 s1
      using Suc.IH [OF step len, of True] by simp
    moreover have "fst (?probe False r s') \<in> {Inl gave_up} \<union> range Inr"
      using probe_outcome [OF bus step len, of False] by simp
    ultimately show ?thesis
      unfolding unfold by (auto simp: io_bind_def split: prod.split sum.split)
  qed
qed

section \<open>Properties\<close>


definition example_devices :: "device list" where
  "example_devices = map (\<lambda>u. \<lparr>unique_id = u, device_type = Some 1, vendor = None, address = None\<rparr>)
     [[0x41, 0x53, 0x31], [0x41, 0x53, 0x32], [0x58, 0x59]]"

definition example_bus :: "device list \<Rightarrow> unit scanner" where
  "example_bus D uid msk s =
     ((if length (matching D uid msk) \<le> 1 then Inr (matching D uid msk)
       else Inl (FrameError ''collision'')), s)"

lemma example_bus_ok: "bus_of n (example_bus D) D"
  by (simp add: bus_of_def example_bus_def)



definition serial_neighbours :: "device list" where
  "serial_neighbours = map (\<lambda>u. \<lparr>unique_id = u, device_type = Some 1, vendor = None, address = None\<rparr>)
     [[0x41, 0x53, 0x31, 0x32], [0x41, 0x53, 0x31, 0x33]]"


end
