(* ===== verification/Link_Trace.thy ===== *)
theory Link_Trace
  imports Link_Exchange
begin

text \<open>
  What a transfer puts on the line. A tap around any port records the byte strings written to it and
  the indications handed to the callback; a transfer over the tapped port is the transfer over the
  port (\<open>tap_exchange\<close>), so what holds of the record holds of the line.

  Properties: the command is written at most four times, everything else is a receive-ready frame
  to the same address; once the command is acknowledged it is never written again.
\<close>

section \<open>The tap\<close>

record 'e tapped =
  env :: 'e
  sent :: "bytes list"
  got :: "bytes list"

definition in_env :: "('e \<Rightarrow> 'a \<times> 'e) \<Rightarrow> 'e tapped \<Rightarrow> 'a \<times> 'e tapped" where
  "in_env m w = (let (r, e) = m (env w) in (r, w\<lparr>env := e\<rparr>))"

definition tap :: "'e port_ops \<Rightarrow> 'e tapped port_ops" where
  "tap P = \<lparr>ser_open = \<lambda>port. in_env (ser_open P port), ser_set_dtr = \<lambda>b. in_env (ser_set_dtr P b),
     ser_write = \<lambda>b w. in_env (ser_write P b) (w\<lparr>sent := sent w @ [b]\<rparr>),
     ser_flush = in_env (ser_flush P), ser_read = \<lambda>n. in_env (ser_read P n),
     ser_in_waiting = in_env (ser_in_waiting P),
     ser_reset_input_buffer = in_env (ser_reset_input_buffer P), ser_close = in_env (ser_close P),
     monotonic = in_env (monotonic P), sleep = \<lambda>t w. w\<lparr>env := sleep P t (env w)\<rparr>\<rparr>"

definition tap_opts :: "'e xopts \<Rightarrow> 'e tapped xopts" where
  "tap_opts opts = \<lparr>opt_timeout = opt_timeout opts, opt_poll_interval = opt_poll_interval opts,
     opt_router = opt_router opts,
     opt_on_poll = map_option (\<lambda>h n a w. w\<lparr>env := h n a (env w)\<rparr>) (opt_on_poll opts),
     opt_on_indication = Some (\<lambda>pl w. w\<lparr>
       env := (case opt_on_indication opts of None \<Rightarrow> env w | Some h \<Rightarrow> h pl (env w)),
       got := got w @ [pl]\<rparr>)\<rparr>"

lemma tap_simps:
  "ser_flush (tap P) = in_env (ser_flush P)" "ser_read (tap P) n = in_env (ser_read P n)"
  "ser_in_waiting (tap P) = in_env (ser_in_waiting P)" "monotonic (tap P) = in_env (monotonic P)"
  "sleep (tap P) t w = w\<lparr>env := sleep P t (env w)\<rparr>"
  "ser_write (tap P) b w = in_env (ser_write P b) (w\<lparr>sent := sent w @ [b]\<rparr>)"
  by (simp_all add: tap_def)

section \<open>The tap is faithful\<close>

text \<open>Forgetting the record: the link over the port itself.\<close>

definition untap :: "'e tapped link \<Rightarrow> 'e link" where
  "untap l = \<lparr>world = env (world l), lk_timeout = lk_timeout l, peers = peers l,
     lk_deframer = lk_deframer l, stats = stats l\<rparr>"

definition io_sim :: "('e tapped link, 'a) io \<Rightarrow> ('e link, 'a) io \<Rightarrow> bool" where
  "io_sim m m' \<longleftrightarrow> (\<forall>l. m' (untap l) = (let (r, l') = m l in (r, untap l')))"

named_theorems sim_intros

lemma sim_return [sim_intros]: "io_sim (io_return a) (io_return a)"
  and sim_raise [sim_intros]: "io_sim (io_raise e) (io_raise e)"
  and sim_res [sim_intros]: "io_sim (io_res r) (io_res r)"
  by (simp_all add: io_sim_def io_defs)

lemma sim_bind [sim_intros]:
  "io_sim m m' \<Longrightarrow> (\<And>a. io_sim (f a) (f' a)) \<Longrightarrow> io_sim (io_bind m f) (io_bind m' f')"
  by (simp add: io_sim_def io_bind_def split: prod.split sum.split)

lemma sim_seq [sim_intros]:
  "io_sim m m' \<Longrightarrow> io_sim k k' \<Longrightarrow> io_sim (io_seq m k) (io_seq m' k')"
  unfolding io_seq_def by (rule sim_bind)

lemma sim_if [sim_intros]:
  "(b \<Longrightarrow> io_sim m m') \<Longrightarrow> (\<not> b \<Longrightarrow> io_sim k k') \<Longrightarrow>
    io_sim (if b then m else k) (if b then m' else k')"
  by simp

lemma sim_port: "(\<And>w. fst (m w) = fst (m' (env w)) \<and> env (snd (m w)) = snd (m' (env w))) \<Longrightarrow>
    io_sim (on_port m) (on_port m')"
  unfolding io_sim_def on_port_def on_world_def Let_def
  by (auto simp: untap_def split: prod.splits sum.splits) (metis fst_conv snd_conv sum.inject sum.distinct)+

lemma sim_primitives [sim_intros]:
  "io_sim (on_port (ser_read (tap P) n)) (on_port (ser_read P n))"
  "io_sim (on_port (ser_in_waiting (tap P))) (on_port (ser_in_waiting P))"
  "io_sim (on_port (ser_flush (tap P))) (on_port (ser_flush P))"
  "io_sim (on_port (ser_write (tap P) b)) (on_port (ser_write P b))"
  by (rule sim_port, simp add: tap_simps in_env_def split: prod.split)+

lemma sim_clock [sim_intros]: "io_sim (clock (tap P)) (clock P)"
  by (simp add: tap_simps io_sim_def clock_def on_world_def untap_def in_env_def split: prod.split)

lemma sim_sleep_for [sim_intros]: "io_sim (sleep_for (tap P) t) (sleep_for P t)"
  by (simp add: tap_simps io_sim_def sleep_for_def on_world_def untap_def)

lemma peer_of_untap [simp]: "peer_of (untap l) a = peer_of l a"
  by (simp add: peer_of_def untap_def)

lemma sim_state [sim_intros]:
  "io_sim (get_peer a) (get_peer a)" "io_sim (upd_peer a f) (upd_peer a f)"
  "io_sim (upd_stats g) (upd_stats g)" "io_sim df_partial df_partial" "io_sim (df_feed c) (df_feed c)"
  by (simp_all add: io_sim_def get_peer_def upd_peer_def upd_stats_def df_partial_def df_feed_def
      split: prod.split) (simp_all add: untap_def)

lemma sim_write [sim_intros]: "io_sim (link_write (tap P) f) (link_write P f)"
  unfolding link_write_def by (intro sim_intros)

lemma sim_send_rr [sim_intros]: "io_sim (send_rr (tap P) a nr poll) (send_rr P a nr poll)"
  unfolding send_rr_def by (intro sim_intros)

lemma sim_read_loop [sim_intros]: "io_sim (read_loop (tap P) n e h g rx) (read_loop P n e h g rx)"
  by (induction n arbitrary: rx) (auto simp: Let_def intro!: sim_intros)

lemma sim_read_frames [sim_intros]: "io_sim (read_frames (tap P) n b) (read_frames P n b)"
  unfolding read_frames_def by (intro sim_intros)

lemma sim_call_back: "(\<And>g. f = Some g \<Longrightarrow>
      env (g w) = (case f' of None \<Rightarrow> env w | Some g' \<Rightarrow> g' (env w))) \<Longrightarrow> f \<noteq> None \<or> f' = None \<Longrightarrow>
    w = world l \<Longrightarrow>
    call_back f' (untap l) = (let (r, l') = call_back f l in (r, untap l'))"
  by (auto simp: call_back_def io_return_def on_world_def untap_def split: option.splits)

lemma sim_on_poll [sim_intros]:
  "io_sim (call_back (map_option (\<lambda>h. h n a) (opt_on_poll (tap_opts opts))))
     (call_back (map_option (\<lambda>h. h n a) (opt_on_poll opts)))"
  unfolding io_sim_def by (intro allI sim_call_back) (auto simp: tap_opts_def split: option.split)

lemma sim_on_indication [sim_intros]:
  "io_sim (call_back (map_option (\<lambda>h. h pl) (opt_on_indication (tap_opts opts))))
     (call_back (map_option (\<lambda>h. h pl) (opt_on_indication opts)))"
  unfolding io_sim_def by (intro allI sim_call_back) (auto simp: tap_opts_def split: option.split)

lemma tap_opts_simps [simp]:
  "opt_timeout (tap_opts opts) = opt_timeout opts" "opt_router (tap_opts opts) = opt_router opts"
  "opt_poll_interval (tap_opts opts) = opt_poll_interval opts"
  by (simp_all add: tap_opts_def)

lemma sim_handle_frame [sim_intros]:
  "io_sim (handle_frame (tap P) (exchange_args a ns f (tap_opts opts)) x fr)
     (handle_frame P (exchange_args a ns f opts) x fr)"
  unfolding handle_frame_def handle_i_frame_def apply_ack_def Let_def exchange_args_simps tap_opts_simps
  by (cases fr) (simp only: prod.case, intro sim_intros)

lemma sim_handle_frames [sim_intros]:
  "io_sim (handle_frames (tap P) (exchange_args a ns f (tap_opts opts)) fs x)
     (handle_frames P (exchange_args a ns f opts) fs x)"
  by (induction fs arbitrary: x) (auto intro!: sim_intros split: xnext.split)

lemma sim_poll_again [sim_intros]:
  "io_sim (poll_again (tap P) (exchange_args a ns f (tap_opts opts)) x)
     (poll_again P (exchange_args a ns f opts) x)"
  unfolding poll_again_def Let_def exchange_args_simps tap_opts_simps by (intro sim_intros)

lemma sim_exchange_loop [sim_intros]:
  "io_sim (exchange_loop (tap P) fuel (exchange_args a ns f (tap_opts opts)) n x)
     (exchange_loop P fuel (exchange_args a ns f opts) n x)"
  by (induction n arbitrary: x) (auto intro!: sim_intros split: xnext.split)

lemma tap_exchange:
  "exchange P fuel addr message opts (untap l) =
    (let (r, l') = exchange (tap P) fuel addr message (tap_opts opts) l in (r, untap l'))"
proof -
  have "io_sim (exchange (tap P) fuel addr message (tap_opts opts)) (exchange P fuel addr message opts)"
    unfolding exchange_def tap_opts_simps by (intro sim_intros)
  then show ?thesis by (simp add: io_sim_def)
qed

section \<open>What is written\<close>

text \<open>
  The counterpart of \<open>link_local\<close> over a tapped port, for predicates that may look at the two records
  and at the peers: kept by whatever neither writes nor changes a peer.
\<close>

locale ghost_local =
  fixes I :: "'e tapped link \<Rightarrow> bool"
  assumes I_env: "I l \<Longrightarrow> I (l\<lparr>world := (world l)\<lparr>env := e\<rparr>\<rparr>)"
    and G_touch: "I l \<Longrightarrow> I (l\<lparr>peers := (peers l)(b \<mapsto> peer_of l b)\<rparr>)"
    and G_deframer: "I l \<Longrightarrow> I (l\<lparr>lk_deframer := d\<rparr>)"
    and G_stats: "I l \<Longrightarrow> I (l\<lparr>stats := s\<rparr>)"
begin

lemma keeps_in_env [keeps_intros]: "io_keeps I (on_port (in_env m))"
  by (auto simp: io_keeps_def on_port_def on_world_def in_env_def I_env split: prod.split sum.split)

sublocale port: port_local "tap P" I for P
proof
  show "io_keeps I (on_port (ser_read (tap P) n))" "io_keeps I (on_port (ser_in_waiting (tap P)))"
    "io_keeps I (on_port (ser_flush (tap P)))" for n
    unfolding tap_simps by (rule keeps_in_env)+
  show "io_keeps I (clock (tap P))" "io_keeps I (sleep_for (tap P) t)" for t
    by (auto simp: tap_simps io_keeps_def clock_def sleep_for_def on_world_def in_env_def I_env
        split: prod.split)
qed (fact G_deframer G_stats G_touch)+

lemma keeps_on_poll [keeps_intros]:
  "io_keeps I (call_back (map_option (\<lambda>h. h n a) (opt_on_poll (tap_opts opts))))"
  by (auto simp: io_keeps_def call_back_def tap_opts_def io_return_def on_world_def
      intro!: I_env split: option.split)

text \<open>Writing keeps what allows the written string.\<close>

lemma keeps_write:
  "(\<And>l. I l \<Longrightarrow> I (l\<lparr>world := (world l)\<lparr>sent := sent (world l) @ [b]\<rparr>\<rparr>)) \<Longrightarrow>
    io_keeps I (link_write (tap P) b)"
  unfolding link_write_def
  by (intro keeps_intros)
    (auto simp: io_keeps_def on_port_def on_world_def tap_simps in_env_def split: prod.split sum.split
      dest: I_env [of "_\<lparr>world := _\<rparr>", simplified])

end

text \<open>Predicates that look at what was written only.\<close>

locale trace_local = ghost_local +
  assumes I_got: "I l \<Longrightarrow> I (l\<lparr>world := (world l)\<lparr>got := g\<rparr>\<rparr>)"
    and I_peers: "I l \<Longrightarrow> I (l\<lparr>peers := ps\<rparr>)"
begin

lemma keeps_upd_peer [keeps_intros]: "io_keeps I (upd_peer a f)"
  by (auto simp: io_keeps_def upd_peer_def I_peers)

lemma keeps_apply_ack [keeps_intros]: "io_keeps I (apply_ack a ctrl ns)"
  unfolding apply_ack_def by (intro keeps_intros)

lemma keeps_on_indication [keeps_intros]:
  "io_keeps I (call_back (map_option (\<lambda>h. h pl) (opt_on_indication (tap_opts opts))))"
proof -
  have "I (l\<lparr>world := (world l)\<lparr>env := e, got := g\<rparr>\<rparr>)" if "I l" for l e g
    using I_got [OF I_env [OF that, of e], of g] by simp
  then show ?thesis
    by (auto simp: io_keeps_def call_back_def tap_opts_def io_return_def on_world_def
        intro!: I_got split: option.split)
qed

end

text \<open>
  A bookkeeping of what a transfer to \<open>a\<close> writes: \<open>W x\<close> holds between two steps with the local
  variables \<open>x\<close>, receive-ready frames are free, and a copy of the command \<open>f\<close> is paid for with one
  of the retransmissions left.
\<close>

abbreviation put :: "bytes \<Rightarrow> 'e tapped link \<Rightarrow> 'e tapped link" where
  "put b l \<equiv> l\<lparr>world := (world l)\<lparr>sent := sent (world l) @ [b]\<rparr>\<rparr>"

locale writes =
  fixes W :: "xstate \<Rightarrow> 'e tapped link \<Rightarrow> bool" and a :: int and f :: bytes
  assumes W_local: "trace_local (W x)"
    and W_rr: "rr_frame a nr poll = Inr b \<Longrightarrow> W x l \<Longrightarrow> W x (put b l)"
    and W_resend: "W x l \<Longrightarrow> \<not> acked x \<Longrightarrow> retx_left x \<noteq> 0 \<Longrightarrow>
      W (x\<lparr>retx_left := retx_left x - 1\<rparr>) (put f l)"
    and W_mono: "W x l \<Longrightarrow> retx_left x' = retx_left x \<Longrightarrow> (acked x \<longrightarrow> acked x') \<Longrightarrow> W x' l"
begin

sublocale trace_local "W x" for x by (rule W_local)

definition spent :: "'e tapped link \<Rightarrow> bool" where
  "spent l \<longleftrightarrow> (\<exists>x. W x l)"

lemma keeps_send_rr [keeps_intros]: "io_keeps (W x) (send_rr (tap P) a nr poll)"
  unfolding send_rr_def
  by (cases "rr_frame a nr poll") (auto intro!: keeps_intros keeps_write W_rr)

lemma keeps_post: "io_keeps (W x) m \<Longrightarrow> io_post (W x) m (\<lambda>_. W x) (\<lambda>_. spent)"
  by (rule io_post_keeps [where R = "\<lambda>_. True"]) (auto simp: spent_def io_raises_def)

lemma keeps_seq: "io_keeps (W x) m \<Longrightarrow> io_post (W x) k Q (\<lambda>_. spent) \<Longrightarrow>
    io_post (W x) (io_seq m k) Q (\<lambda>_. spent)"
  by (rule io_post_seq [OF keeps_post])

lemma keeps_bind: "io_keeps (W x) m \<Longrightarrow> (\<And>r. io_post (W x) (k r) Q (\<lambda>_. spent)) \<Longrightarrow>
    io_post (W x) (io_bind m k) Q (\<lambda>_. spent)"
  by (rule io_post_bind [OF keeps_post])

lemma resend_post:
  assumes "\<not> acked x" and "retx_left x \<noteq> 0"
  shows "io_post (W x) (link_write (tap P) f)
    (\<lambda>_. W (x\<lparr>retx_left := retx_left x - 1\<rparr>)) (\<lambda>_. spent)"
proof -
  let ?x = "x\<lparr>retx_left := retx_left x - 1\<rparr>"
  have "io_post (W x) (on_port (ser_write (tap P) f)) (\<lambda>_. W ?x) (\<lambda>_. spent)"
    using W_resend [OF _ assms] I_env [of ?x "put f l" e for l e]
    by (auto simp: io_post_def on_port_def on_world_def tap_simps in_env_def spent_def
        split: prod.split sum.split)
  then show ?thesis
    unfolding link_write_def by (rule io_post_seq) (intro keeps_post port.P_flush)
qed

text \<open>What the frames of a read leave.\<close>

definition W_next :: "xnext \<Rightarrow> 'e tapped link \<Rightarrow> bool" where
  "W_next r l = (case r of Go x \<Rightarrow> W x l | Done _ \<Rightarrow> spent l)"

lemma next_go: "retx_left x' = retx_left x \<Longrightarrow> (acked x \<longrightarrow> acked x') \<Longrightarrow>
    io_post (W x) (io_return (Go x')) W_next E"
  by (rule io_post_return) (auto simp: W_next_def intro: W_mono)

lemma next_done: "io_post (W x) (io_return (Done pl)) W_next E"
  by (rule io_post_return) (auto simp: W_next_def spent_def)

lemma ack_writes:
  assumes "b = acked x" and "\<And>r. (acked x \<longrightarrow> r) \<Longrightarrow> io_post (W x) (k r) Q (\<lambda>_. spent)"
  shows "io_post (W x) (io_bind (if b then io_return True else apply_ack a ctrl ns) k) Q (\<lambda>_. spent)"
  using assms by (cases "acked x") (auto intro!: keeps_bind keeps_apply_ack)

lemma handle_frame_writes:
  assumes "c = exchange_args a ns f (tap_opts opts)"
  shows "io_post (W x) (handle_frame (tap P) c x fr) W_next (\<lambda>_. spent)"
proof (cases fr)
  case (fields faddr ctrl pl)
  have rej: "io_post (W x) (io_seq (upd_stats g) (io_seq (link_write (tap P) f)
      (io_return (Go (x'\<lparr>retx_left := retx_left x' - 1\<rparr>))))) W_next (\<lambda>_. spent)"
    if "\<not> acked x' \<and> retx_left x' \<noteq> 0" "retx_left x' = retx_left x" "acked x \<longrightarrow> acked x'" for x' g
  proof (rule keeps_seq [OF _ io_post_seq [OF resend_post]])
    show "io_post (W (x\<lparr>retx_left := retx_left x - 1\<rparr>))
        (io_return (Go (x'\<lparr>retx_left := retx_left x' - 1\<rparr>))) W_next (\<lambda>_. spent)"
      using that by (intro next_go) auto
  qed (use that in \<open>auto intro: keeps_intros\<close>)
  have raise: "io_post (W x) (io_raise e) Q (\<lambda>_. spent)" for e and Q :: "xnext \<Rightarrow> _"
    by (rule io_post_raise) (auto simp: spent_def)
  show ?thesis
    unfolding fields handle_frame_def handle_i_frame_def Let_def prod.case kind_eq io_bind_simps
      assms exchange_args_simps missing_or
    by (intro next_go next_done rej raise io_post_if keeps_seq ack_writes keeps_bind
        keeps_intros | simp)+
qed

lemma handle_frames_writes:
  assumes "c = exchange_args a ns f (tap_opts opts)"
  shows "io_post (W x) (handle_frames (tap P) c fs x) W_next (\<lambda>_. spent)"
proof (induction fs arbitrary: x)
  case Nil
  show ?case by (simp add: next_go)
next
  case (Cons fr fs)
  have "io_post (W_next r) (case r of Done pl \<Rightarrow> io_return (Done pl)
      | Go x' \<Rightarrow> handle_frames (tap P) c fs x') W_next (\<lambda>_. spent)" for r
    using Cons.IH by (cases r) (auto simp: W_next_def [abs_def] intro!: io_post_return)
  then show ?case
    by (simp add: io_post_bind [OF handle_frame_writes [OF assms]])
qed

lemma poll_again_writes:
  assumes "c = exchange_args a ns f (tap_opts opts)"
  shows "io_post (W x) (poll_again (tap P) c x) W (\<lambda>_. spent)"
proof -
  have ret: "io_post (W x) (io_return x') W E"
    if "retx_left x' = retx_left x" "acked x \<longrightarrow> acked x'" for x x' E
    using that by (auto intro!: io_post_return intro: W_mono)
  have resend: "io_post (W x) (io_seq (upd_stats g) (io_seq (link_write (tap P) f)
      (io_return (x\<lparr>retx_left := retx_left x - 1, retx_at := t, missing := m\<rparr>)))) W (\<lambda>_. spent)"
    if "\<not> acked x \<and> p \<and> q \<and> retx_left x \<noteq> 0" for g t m p q
    using that by (intro keeps_seq io_post_seq [OF resend_post] ret keeps_intros) auto
  have raise: "io_post (W x) (io_raise e) Q (\<lambda>_. spent)" for e and Q :: "xstate \<Rightarrow> _"
    by (rule io_post_raise) (auto simp: spent_def)
  show ?thesis
    unfolding poll_again_def Let_def assms exchange_args_simps
    by (intro ret resend raise io_post_if keeps_seq keeps_bind keeps_intros | simp)+
qed

lemma exchange_loop_writes:
  assumes "c = exchange_args a ns f (tap_opts opts)"
  shows "io_post (W x) (exchange_loop (tap P) fuel c n x) (\<lambda>_. spent) (\<lambda>_. spent)"
proof (induction n arbitrary: x)
  case 0
  show ?case by (auto intro!: io_post_raise simp: spent_def)
next
  case (Suc n)
  have "io_post (W_next r) (case r of Done pl \<Rightarrow> io_return pl
      | Go x' \<Rightarrow> io_bind (poll_again (tap P) c x') (exchange_loop (tap P) fuel c n)) (\<lambda>_. spent) (\<lambda>_. spent)" for r
    using io_post_bind [OF poll_again_writes [OF assms] Suc.IH]
    by (cases r) (auto simp: W_next_def [abs_def] intro!: io_post_return)
  then show ?case
    by (auto intro!: keeps_bind keeps_intros io_post_bind [OF handle_frames_writes [OF assms]])
qed

end

text \<open>
  Two accounts: while the transfer is unacknowledged the copies of the command and the
  retransmissions left are three together; after the acknowledgement there are no copies.
\<close>

definition rr_to :: "int \<Rightarrow> bytes set" where
  "rr_to a = {b. \<exists>nr poll. rr_frame a nr poll = Inr b}"

lemma rr_toI: "rr_frame a nr poll = Inr b \<Longrightarrow> b \<in> rr_to a"
  by (auto simp: rr_to_def)

definition written :: "int \<Rightarrow> bytes \<Rightarrow> bytes list \<Rightarrow> int \<Rightarrow> 'e tapped link \<Rightarrow> bool" where
  "written a f s0 n l \<longleftrightarrow>
     (\<exists>bs. sent (world l) = s0 @ bs \<and> set bs \<subseteq> insert f (rr_to a) \<and> int (count_list bs f) \<le> n)"

lemma written_put_rr:
  assumes "written a f s0 n l" and "b \<in> rr_to a" and "f \<notin> rr_to a"
  shows "written a f s0 n (put b l)"
proof -
  obtain bs where "sent (world l) = s0 @ bs" "set bs \<subseteq> insert f (rr_to a)" "int (count_list bs f) \<le> n"
    using assms(1) by (auto simp: written_def)
  moreover have "b \<noteq> f" using assms by auto
  ultimately show ?thesis
    using assms(2) unfolding written_def by (intro exI [of _ "bs @ [b]"]) auto
qed

lemma written_put_command:
  assumes "written a f s0 n l"
  shows "written a f s0 (n + 1) (put f l)"
proof -
  obtain bs where "sent (world l) = s0 @ bs" "set bs \<subseteq> insert f (rr_to a)" "int (count_list bs f) \<le> n"
    using assms by (auto simp: written_def)
  then show ?thesis
    unfolding written_def by (intro exI [of _ "bs @ [f]"]) auto
qed

lemma written_le: "written a f s0 m l \<Longrightarrow> m \<le> n \<Longrightarrow> written a f s0 n l"
  unfolding written_def by (meson order_trans)

lemma written_local: "trace_local (\<lambda>l. p \<and> written a f s0 n l)"
  by unfold_locales (auto simp: written_def)

definition open_account :: "int \<Rightarrow> bytes \<Rightarrow> bytes list \<Rightarrow> xstate \<Rightarrow> 'e tapped link \<Rightarrow> bool" where
  "open_account a f s0 x l \<longleftrightarrow>
     (f \<notin> rr_to a \<and> 0 \<le> retx_left x) \<and> written a f s0 (3 - retx_left x) l"

definition closed_account :: "int \<Rightarrow> bytes \<Rightarrow> bytes list \<Rightarrow> xstate \<Rightarrow> 'e tapped link \<Rightarrow> bool" where
  "closed_account a f s0 x l \<longleftrightarrow> (f \<notin> rr_to a \<and> acked x) \<and> written a f s0 0 l"

interpretation unacked: writes "open_account a f s0" a f for a f s0
proof (rule writes.intro)
  fix x and l :: "'e tapped link"
  show "trace_local (open_account a f s0 x :: 'e tapped link \<Rightarrow> bool)"
    unfolding open_account_def by (rule written_local)
  show "open_account a f s0 x (put b l)" if "rr_frame a nr poll = Inr b" "open_account a f s0 x l" for nr poll b
    using that by (auto simp: open_account_def intro!: written_put_rr intro: rr_toI)
  show "open_account a f s0 (x\<lparr>retx_left := retx_left x - 1\<rparr>) (put f l)"
    if "open_account a f s0 x l" "\<not> acked x" "retx_left x \<noteq> 0"
    using that written_put_command [of a f s0 "3 - retx_left x" l] by (auto simp: open_account_def)
qed (auto simp: open_account_def)

interpretation settled: writes "closed_account a f s0" a f for a f s0
proof (rule writes.intro)
  fix x and l :: "'e tapped link"
  show "trace_local (closed_account a f s0 x :: 'e tapped link \<Rightarrow> bool)"
    unfolding closed_account_def by (rule written_local)
  show "closed_account a f s0 x (put b l)"
    if "rr_frame a nr poll = Inr b" "closed_account a f s0 x l" for nr poll b
    using that by (auto simp: closed_account_def intro!: written_put_rr intro: rr_toI)
qed (auto simp: closed_account_def)

text \<open>The command is not a receive-ready frame.\<close>

lemma odd_rr_ctrl: "odd (rr_ctrl nr poll)"
  by (simp add: rr_ctrl_def PF_def even_or_iff)

lemma command_not_rr:
  assumes "octet a" and "seq_no s" and "seq_no r"
  shows "wire (a, i_ctrl s r, m) \<notin> rr_to a"
proof
  assume "wire (a, i_ctrl s r, m) \<in> rr_to a"
  then obtain nr poll where "octet (rr_ctrl nr poll)" "wire (a, i_ctrl s r, m) = wire (a, rr_ctrl nr poll, [])"
    by (auto simp: rr_to_def rr_frame_def build_frame_wire)
  then have "i_ctrl s r = rr_ctrl nr poll"
    using wire_inj [of a "i_ctrl s r" a "rr_ctrl nr poll" m "[]"] assms by simp
  moreover have "even (i_ctrl s r)"
    using i_ctrl_fields(2) [OF assms(2,3)] by (auto simp: kind_eq kind_of_def split: if_splits)
  ultimately show False using odd_rr_ctrl [of nr poll] by simp
qed

section \<open>What is delivered\<close>

text \<open>
  The receiver's contract, without the line: the payloads of the I-frames from \<open>a\<close> that carry the
  expected number, in order, and the number expected after them.
\<close>

fun receive :: "int \<Rightarrow> int \<Rightarrow> frame list \<Rightarrow> bytes list \<times> int" where
  "receive a n [] = ([], n)"
| "receive a n ((fa, ctrl, pl) # fs) =
     (if fa = a \<and> kind ctrl = Inr I_FRAME \<and> ns_of ctrl = n
      then (let (ps, m) = receive a ((n + 1) mod 8) fs in (pl # ps, m))
      else receive a n fs)"

text \<open>A predicate on what is expected next and what was delivered so far.\<close>

definition inbox :: "int \<Rightarrow> int \<Rightarrow> bytes list \<Rightarrow> 'e tapped link \<Rightarrow> bool" where
  "inbox a n g l \<longleftrightarrow> vr (peer_of l a) = n \<and> got (world l) = g"

interpretation inbox: ghost_local "inbox a n g" for a n g
  by unfold_locales (auto simp: inbox_def peer_of_def split: option.splits)

abbreviation delivers ::
  "('e tapped link \<Rightarrow> bool) \<Rightarrow> ('e tapped link, 'a) io \<Rightarrow> ('a \<Rightarrow> 'e tapped link \<Rightarrow> bool) \<Rightarrow> bool" where
  "delivers I m Q \<equiv> io_post I m Q (\<lambda>_ _. True)"

lemma delivers_seq: "io_keeps I m \<Longrightarrow> delivers I k Q \<Longrightarrow> delivers I (io_seq m k) Q"
  and delivers_bind: "io_keeps I m' \<Longrightarrow> (\<And>r. delivers I (f r) Q) \<Longrightarrow> delivers I (io_bind m' f) Q"
  by (rule io_post_seq [OF io_post_keeps [where R = "\<lambda>_. True"]]
      io_post_bind [OF io_post_keeps [where R = "\<lambda>_. True"]]; simp add: io_raises_def)+

lemma inbox_write [keeps_intros]: "io_keeps (inbox a n g) (link_write (tap P) b)"
  by (rule inbox.keeps_write) (simp add: inbox_def peer_of_def)

lemma inbox_send_rr [keeps_intros]: "io_keeps (inbox a n g) (send_rr (tap P) b nr poll)"
  unfolding send_rr_def by (intro keeps_intros)

lemma inbox_vs [keeps_intros]:
  "io_keeps (inbox a n g) (upd_peer b (\<lambda>p. p\<lparr>vs := v\<rparr>))"
  by (auto simp: io_keeps_def inbox_def upd_peer_def)

lemma inbox_vr: "delivers (inbox a n g) (upd_peer a (\<lambda>p. p\<lparr>vr := m\<rparr>)) (\<lambda>_. inbox a m g)"
  by (auto simp: io_post_def inbox_def upd_peer_def)

lemma inbox_indication:
  "delivers (inbox a n g) (call_back (map_option (\<lambda>h. h pl) (opt_on_indication (tap_opts opts))))
     (\<lambda>_. inbox a n (g @ [pl]))"
  by (auto simp: io_post_def inbox_def call_back_def tap_opts_def on_world_def peer_of_def)

lemma inbox_peer:
  "(\<And>p. vr p = n \<Longrightarrow> delivers (inbox a n g) (f p) Q) \<Longrightarrow> delivers (inbox a n g) (io_bind (get_peer a) f) Q"
  unfolding io_post_def io_bind_def get_peer_def inbox_def by simp

lemma inbox_ack: "io_keeps (inbox a n g) (apply_ack b ctrl ns)"
  unfolding apply_ack_def by (intro keeps_intros)

text \<open>One frame: what it makes of the inbox, and when it ends the transfer.\<close>

definition frame_effect ::
  "int \<Rightarrow> int \<Rightarrow> bytes list \<Rightarrow> router \<Rightarrow> frame \<Rightarrow> xnext \<Rightarrow> 'e tapped link \<Rightarrow> bool" where
  "frame_effect a n g route fr r l =
     (case fr of (fa, ctrl, pl) \<Rightarrow>
        if fa = a \<and> kind ctrl = Inr I_FRAME \<and> ns_of ctrl = n
        then (case r of
                Done p \<Rightarrow> p = pl \<and> route pl = ACCEPT \<and> inbox a ((n + 1) mod 8) g l
              | Go x \<Rightarrow> route pl \<noteq> ACCEPT
                  \<and> inbox a ((n + 1) mod 8) (if route pl = INDICATION then g @ [pl] else g) l)
        else (\<exists>x. r = Go x) \<and> inbox a n g l)"

lemma handle_frame_delivers:
  assumes "c = exchange_args a ns f (tap_opts opts)"
  shows "delivers (inbox a n g) (handle_frame (tap P) c x fr) (frame_effect a n g (opt_router opts) fr)"
proof (cases fr)
  case (fields fa ctrl pl)
  let ?fin = "\<lambda>b. delivers (inbox a ((n + 1) mod 8) b)"
  have kind: "kind ctrl = Inr k \<longleftrightarrow> kind_of ctrl = k" for k by (simp add: kind_eq)
  have skip: "delivers (inbox a n g) (io_return (Go x')) (frame_effect a n g (opt_router opts) fr)"
    if "\<not> (fa = a \<and> kind_of ctrl = I_FRAME \<and> ns_of ctrl = n)" for x'
    using that by (auto intro!: io_post_return simp: frame_effect_def fields kind)
  have i_frame: "delivers (inbox a n g) (handle_i_frame (tap P) c x' ctrl pl)
      (frame_effect a n g (opt_router opts) fr)" if fa: "fa = a" and k: "kind_of ctrl = I_FRAME" for x'
  proof -
    have acc: "?fin g (io_return (Done pl)) (frame_effect a n g (opt_router opts) fr)"
      if "ns_of ctrl = n" "opt_router opts pl = ACCEPT"
      using that fa k by (auto intro!: io_post_return simp: frame_effect_def fields kind)
    have ind: "?fin (g @ [pl]) (io_return (Go y)) (frame_effect a n g (opt_router opts) fr)"
      if "ns_of ctrl = n" "opt_router opts pl = INDICATION" for y
      using that fa k by (auto intro!: io_post_return simp: frame_effect_def fields kind)
    have une: "?fin g (io_return (Go y)) (frame_effect a n g (opt_router opts) fr)"
      if "ns_of ctrl = n" "opt_router opts pl \<noteq> ACCEPT" "opt_router opts pl \<noteq> INDICATION" for y
      using that fa k by (auto intro!: io_post_return simp: frame_effect_def fields kind)
    show ?thesis
      unfolding handle_i_frame_def Let_def assms exchange_args_simps tap_opts_simps and_7
      by (intro inbox_peer io_post_if)
        (intro skip delivers_seq delivers_bind acc ind une io_post_if io_post_seq [OF inbox_vr]
          io_post_seq [OF inbox_indication] keeps_intros | simp)+
  qed
  have raise: "delivers (inbox a n g) (io_seq (upd_peer a h) (io_seq (upd_stats h') (io_raise e)))
      (frame_effect a n g (opt_router opts) fr)" for h h' e
    by (auto simp: io_post_def io_defs upd_peer_def upd_stats_def)
  show ?thesis
    unfolding fields handle_frame_def Let_def prod.case kind_eq io_bind_simps
      assms exchange_args_simps missing_or
    by (intro raise [unfolded fields] skip [unfolded fields] i_frame [unfolded assms fields] io_post_if
        delivers_seq delivers_bind inbox_ack keeps_intros | simp | (cases "kind_of ctrl"; simp))+
qed

abbreviation indicated :: "router \<Rightarrow> bytes list \<Rightarrow> bytes list" where
  "indicated route ps \<equiv> filter (\<lambda>p. route p = INDICATION) ps"

text \<open>The frames of one read, against the contract.\<close>

definition frames_effect ::
  "int \<Rightarrow> int \<Rightarrow> bytes list \<Rightarrow> router \<Rightarrow> frame list \<Rightarrow> xnext \<Rightarrow> 'e tapped link \<Rightarrow> bool" where
  "frames_effect a n g route fs r l =
     (case r of
        Go x \<Rightarrow> (\<forall>q \<in> set (fst (receive a n fs)). route q \<noteq> ACCEPT)
          \<and> inbox a (snd (receive a n fs)) (g @ indicated route (fst (receive a n fs))) l
      | Done p \<Rightarrow> (\<exists>ps rest. fst (receive a n fs) = ps @ p # rest \<and> route p = ACCEPT
          \<and> (\<forall>q \<in> set ps. route q \<noteq> ACCEPT)
          \<and> inbox a ((n + int (length ps) + 1) mod 8) (g @ indicated route ps) l))"

lemma frames_effect_step:
  fixes l :: "'e tapped link"
  assumes "frame_effect a n g route fr (Go x) l"
  obtains m g' where "inbox a m g' l"
    and "\<And>r (l' :: 'e tapped link). frames_effect a m g' route fs r l' \<Longrightarrow> frames_effect a n g route (fr # fs) r l'"
proof (cases fr)
  case (fields fa ctrl pl)
  let ?hit = "fa = a \<and> kind ctrl = Inr I_FRAME \<and> ns_of ctrl = n"
  show thesis
  proof (cases ?hit)
    case False
    with assms fields have "inbox a n g l" by (auto simp: frame_effect_def)
    moreover have "receive a n (fr # fs) = receive a n fs" using False fields by auto
    ultimately show thesis by (intro that [of n g]) (simp_all add: frames_effect_def split: xnext.splits)
  next
    case True
    let ?g = "if route pl = INDICATION then g @ [pl] else g" and ?m = "(n + 1) mod 8"
    have i: "inbox a ?m ?g l" and na: "route pl \<noteq> ACCEPT"
      using assms fields True by (auto simp: frame_effect_def)
    have rec: "receive a n (fr # fs) = (pl # fst (receive a ?m fs), snd (receive a ?m fs))"
      using True fields by (simp add: case_prod_beta)
    have "frames_effect a n g route (fr # fs) r l'" if eff: "frames_effect a ?m ?g route fs r l'" for r and l' :: "'e tapped link"
    proof (cases r)
      case (Go x)
      with eff na rec show ?thesis by (auto simp: frames_effect_def)
    next
      case (Done p)
      then obtain ps rest where ps: "fst (receive a ?m fs) = ps @ p # rest" "route p = ACCEPT"
          "(\<forall>q \<in> set ps. route q \<noteq> ACCEPT)" "inbox a ((?m + int (length ps) + 1) mod 8) (?g @ indicated route ps) l'"
        using eff by (auto simp: frames_effect_def)
      have len: "(?m + int (length ps) + 1) mod 8 = (n + int (length (pl # ps)) + 1) mod 8"
        using mod_add_left_eq [of "n + 1" 8 "int (length ps) + 1"] by (simp add: algebra_simps)
      have "\<exists>ps rest. fst (receive a n (fr # fs)) = ps @ p # rest \<and> route p = ACCEPT
          \<and> (\<forall>q \<in> set ps. route q \<noteq> ACCEPT)
          \<and> inbox a ((n + int (length ps) + 1) mod 8) (g @ indicated route ps) l'"
        using ps na rec len by (intro exI [of _ "pl # ps"] exI [of _ rest]) (auto split: if_splits)
      with Done show ?thesis by (simp add: frames_effect_def)
    qed
    with i show thesis by (rule that)
  qed
qed

lemma handle_frames_delivers:
  assumes "c = exchange_args a ns f (tap_opts opts)"
  shows "delivers (inbox a n g) (handle_frames (tap P) c fs x) (frames_effect a n g (opt_router opts) fs)"
proof (induction fs arbitrary: n g x)
  case Nil
  show ?case by (auto intro!: io_post_return simp: frames_effect_def)
next
  case (Cons fr fs)
  have "delivers (frame_effect a n g (opt_router opts) fr r)
      (case r of Done pl \<Rightarrow> io_return (Done pl) | Go x' \<Rightarrow> handle_frames (tap P) c fs x')
      (frames_effect a n g (opt_router opts) (fr # fs))" for r
  proof (cases r)
    case (Done p)
    obtain fa ctrl pl where fr: "fr = (fa, ctrl, pl)" by (cases fr)
    have "frames_effect a n g (opt_router opts) (fr # fs) (Done p) l"
      if "frame_effect a n g (opt_router opts) fr (Done p) l" for l :: "'a tapped link"
    proof -
      let ?rest = "fst (receive a ((n + 1) mod 8) fs)"
      have "fst (receive a n (fr # fs)) = [] @ p # ?rest" "opt_router opts p = ACCEPT"
        "inbox a ((n + int (length ([] :: bytes list)) + 1) mod 8) (g @ indicated (opt_router opts) []) l"
        using that unfolding frame_effect_def fr by (auto simp: case_prod_beta split: if_splits)
      then show ?thesis
        unfolding frames_effect_def xnext.case by (intro exI [of _ "[]"] exI [of _ ?rest]) simp
    qed
    with Done show ?thesis by (auto intro!: io_post_return)
  next
    case (Go x')
    have "case handle_frames (tap P) c fs x' l of
        (Inl e, s') \<Rightarrow> True | (Inr r', s') \<Rightarrow> frames_effect a n g (opt_router opts) (fr # fs) r' s'"
      if eff: "frame_effect a n g (opt_router opts) fr (Go x') l" for l
    proof -
      obtain m g' where i: "inbox a m g' l" and
        step: "\<And>r (l' :: 'a tapped link). frames_effect a m g' (opt_router opts) fs r l' \<Longrightarrow>
          frames_effect a n g (opt_router opts) (fr # fs) r l'"
        using frames_effect_step [OF eff] by metis
      have "case handle_frames (tap P) c fs x' l of
          (Inl e, s') \<Rightarrow> True | (Inr r', s') \<Rightarrow> frames_effect a m g' (opt_router opts) fs r' s'"
        using Cons.IH [of m g' x'] i by (simp add: io_post_def)
      then show ?thesis
        by (auto split: sum.splits prod.splits intro: step)
    qed
    with Go show ?thesis by (simp add: io_post_def)
  qed
  then show ?case
    by (simp add: io_post_bind [OF handle_frame_delivers [OF assms]])
qed

text \<open>A sender that repeats each of its I-frames any number of times.\<close>

fun repeated :: "int \<Rightarrow> int \<Rightarrow> (nat \<times> int \<times> bytes) list \<Rightarrow> frame list" where
  "repeated a n [] = []"
| "repeated a n ((k, nr, pl) # bs) =
     replicate (Suc k) (a, i_ctrl n nr, pl) @ repeated a ((n + 1) mod 8) bs"

lemma receive_skip:
  "ns_of ctrl \<noteq> n \<Longrightarrow> receive a n (replicate k (fa, ctrl, pl) @ fs) = receive a n fs"
  by (induction k) auto

lemma receive_repeated:
  assumes "seq_no n" and "\<forall>(k, nr, pl) \<in> set bs. seq_no nr"
  shows "receive a n (repeated a n bs) = (map (\<lambda>(k, nr, pl). pl) bs, (n + int (length bs)) mod 8)"
  using assms
proof (induction bs arbitrary: n)
  case Nil
  then show ?case by (simp add: seq_no_def)
next
  case (Cons b bs)
  obtain k nr pl where b: "b = (k, nr, pl)" by (cases b)
  have nr: "seq_no nr" and n: "seq_no n" using Cons.prems b by auto
  have "seq_no ((n + 1) mod 8)" by (simp add: seq_no_def)
  moreover have "n \<noteq> (n + 1) mod 8" using n by (auto simp: seq_no_def) presburger
  ultimately show ?case
    using Cons.IH [of "(n + 1) mod 8"] Cons.prems b nr n
    by (simp add: receive_skip mod_simps algebra_simps)
qed

section \<open>From one exchange to its record\<close>

definition sent_is :: "bytes list \<Rightarrow> 'e tapped link \<Rightarrow> bool" where
  "sent_is s l \<longleftrightarrow> sent (world l) = s"

interpretation sent_is: trace_local "sent_is s" for s
  by unfold_locales (auto simp: sent_is_def)

lemma write_recorded:
  "io_post (sent_is s) (link_write (tap P) f) (\<lambda>_. sent_is (s @ [f])) (\<lambda>_. sent_is (s @ [f]))"
proof -
  have "io_post (sent_is s) (on_port (ser_write (tap P) f))
      (\<lambda>_. sent_is (s @ [f])) (\<lambda>_. sent_is (s @ [f]))"
    by (auto simp: io_post_def on_port_def on_world_def tap_simps in_env_def sent_is_def
        split: prod.split sum.split)
  moreover have "io_post (sent_is (s @ [f])) (on_port (ser_flush (tap P)))
      (\<lambda>_. sent_is (s @ [f])) (\<lambda>_. sent_is (s @ [f]))"
    by (rule io_post_keeps [OF sent_is.port.P_flush, where R = "\<lambda>_. True"]) (simp_all add: io_raises_def)
  ultimately show ?thesis unfolding link_write_def by (rule io_post_seq)
qed

lemma spent_open: "unacked.spent a f s l \<Longrightarrow> written a f s 3 l" for l :: "'e tapped link"
  by (auto simp: unacked.spent_def open_account_def intro: written_le)

lemma exchange_record:
  assumes "f \<notin> rr_to a" and "\<And>now. \<not> acked (x now)" and "\<And>now. retx_left (x now) = 3"
  shows "io_post (sent_is s)
    (io_seq (link_write (tap P) f) (io_bind (clock (tap P)) (\<lambda>now.
       exchange_loop (tap P) fuel (exchange_args a ns f (tap_opts opts)) n (x now))))
    (\<lambda>_. written a f (s @ [f]) 3) (\<lambda>_. written a f (s @ [f]) 3)"
proof (rule io_post_seq)
  let ?s = "s @ [f]"
  have start: "open_account a f ?s (x now) l" if "sent_is ?s l" for l :: "'a tapped link" and now
    using that assms by (simp add: open_account_def sent_is_def written_def)
  have fin: "unacked.spent a f ?s l \<Longrightarrow> written a f ?s 3 l" for l :: "'a tapped link"
    by (rule spent_open)
  have loop: "io_post (sent_is ?s)
      (exchange_loop (tap P) fuel (exchange_args a ns f (tap_opts opts)) n (x now))
      (\<lambda>_. written a f ?s 3) (\<lambda>_. written a f ?s 3)" for now
    by (rule io_post_conseq [OF unacked.exchange_loop_writes [OF refl, of a f ?s "x now"]])
      (auto intro: start fin)
  show "io_post (sent_is ?s) (io_bind (clock (tap P)) (\<lambda>now.
       exchange_loop (tap P) fuel (exchange_args a ns f (tap_opts opts)) n (x now)))
    (\<lambda>_. written a f ?s 3) (\<lambda>_. written a f ?s 3)"
    by (rule io_post_bind [OF io_post_keeps [OF sent_is.port.P_clock, where R = "\<lambda>_. False"] loop])
      (simp_all add: raises_clock)
  show "io_post (sent_is s) (link_write (tap P) f) (\<lambda>_. sent_is ?s) (\<lambda>_. written a f ?s 3)"
    by (rule io_post_conseq [OF write_recorded]) (auto simp: sent_is_def written_def)
qed

text \<open>A frame with our next number in its N(R) acknowledges the command.\<close>

lemma always_bind: "(\<And>r. delivers (\<lambda>_. True) (k r) Q) \<Longrightarrow> delivers (\<lambda>_. True) (io_bind m k) Q"
  and always_seq: "delivers (\<lambda>_. True) m' Q \<Longrightarrow> delivers (\<lambda>_. True) (io_seq m m') Q"
  unfolding io_seq_def io_bind_def io_post_def by (fastforce split: sum.splits prod.splits)+

lemma ack_recognised:
  assumes "nr_of ctrl = (ns + 1) AND 7"
    and "delivers (\<lambda>_. True) (k True) Q"
  shows "delivers (\<lambda>_. True) (io_bind (if b then io_return True else apply_ack a ctrl ns) k) Q"
  using assms by (auto simp: apply_ack_def io_post_def io_defs upd_peer_def)

lemma handle_frame_acks:
  assumes "kind ctrl \<noteq> Inr U_FRAME" and "nr_of ctrl = (xa_sent_ns c + 1) AND 7"
  shows "delivers (\<lambda>_. True) (handle_frame P c x (xa_addr c, ctrl, pl))
    (\<lambda>r _. \<forall>x'. r = Go x' \<longrightarrow> acked x')"
proof -
  have k: "kind_of ctrl \<noteq> U_FRAME" using assms(1) by (simp add: kind_eq)
  have ret: "delivers (\<lambda>_. True) (io_return r) (\<lambda>r _. \<forall>x'. r = Go x' \<longrightarrow> acked x')"
    if "case r of Go x' \<Rightarrow> acked x' | Done _ \<Rightarrow> True" for r
    using that by (auto intro!: io_post_return)
  show ?thesis
    unfolding handle_frame_def handle_i_frame_def Let_def prod.case kind_eq io_bind_simps
    by (intro ack_recognised io_post_if ret always_seq always_bind assms(2) | simp add: k)+
qed

section \<open>Examples\<close>

lemma rr_frame_seq: "octet a \<Longrightarrow> seq_no nr \<Longrightarrow> rr_frame a nr poll = Inr (wire (a, rr_ctrl nr poll, []))"
  by (simp add: rr_frame_def build_frame_octets)

text \<open>A silent line, tapped, with a fresh link; and one frame of each sort handled on it.\<close>

definition tapped_silence :: "time tapped link" where
  "tapped_silence = new_link 1000000 \<lparr>env = 0, sent = [], got = []\<rparr>"

definition alarm_router :: router where
  "alarm_router p = (if p \<noteq> [] \<and> hd p = 7 then INDICATION else ACCEPT)"

definition example_args :: "time tapped xargs" where
  "example_args = exchange_args 1 0 (wire (1, i_ctrl 0 0, [0x34, 0, 0]))
     (tap_opts (xdefaults\<lparr>opt_router := alarm_router\<rparr>))"

lemmas example_defs = example_args_def tapped_silence_def new_link_def alarm_router_def tap_opts_def
  handle_frame_def handle_i_frame_def apply_ack_def kind_eq kind_of_def nr_of_def ns_of_def PF_def
  get_peer_def upd_peer_def upd_stats_def peer_of_def new_peer_def peer_reset_def on_world_def on_port_def
  send_rr_def rr_frame_seq link_write_def call_back_def clock_def tap_simps in_env_def silent_port_def
  io_bind_def io_seq_def io_return_def io_res_def drop_bit_eq_div and_7

lemma example_ack:
  "handle_frame (tap silent_port) example_args (exchange_start 0 3000000) (1, 0x21, []) tapped_silence =
    (Inr (Go ((exchange_start 0 3000000)\<lparr>acked := True\<rparr>)),
     tapped_silence\<lparr>peers := [1 \<mapsto> \<lparr>vs = 1, vr = 0, connected = False\<rparr>]\<rparr>)"
  by (simp add: example_defs)

lemma example_indication:
  "\<exists>x l. handle_frames (tap silent_port) example_args (repeated 1 0 [(1, 0, [7, 2, 0, 0, 2])])
     (exchange_start 0 3000000) tapped_silence = (Inr (Go x), l)"
proof -
  have c: "i_ctrl 0 0 = 16" by code_simp
  show ?thesis by (simp add: example_defs c octet_def seq_no_def Let_def xdefaults_def)
qed

section \<open>Properties\<close>

text \<open>
  C9: whatever the line does, one exchange puts the command on it at most four times, the first
  time before anything else, and writes nothing but the command and receive-ready frames to the same
  address: no other command, and no frame to another device.
\<close>

theorem command_sent_at_most_four_times:
  assumes "link_ok l" and "octet addr"
    and "exchange (tap P) fuel addr message (tap_opts opts) l = (r, l')"
  shows "\<exists>f bs. build_frame addr (i_ctrl (vs (peer_of l addr)) (vr (peer_of l addr))) message = Inr f
    \<and> sent (world l') = sent (world l) @ f # bs
    \<and> set bs \<subseteq> insert f (rr_to addr) \<and> count_list bs f \<le> 3"
proof -
  let ?p = "peer_of l addr"
  let ?f = "wire (addr, i_ctrl (vs ?p) (vr ?p), message)"
  have ok: "seq_no (vs ?p)" "seq_no (vr ?p)" using assms(1) by (auto simp: link_ok_def peer_ok_def)
  have f: "?f \<notin> rr_to addr" by (rule command_not_rr [OF assms(2) ok])
  have "sent_is (sent (world l)) (l\<lparr>peers := (peers l)(addr \<mapsto> ?p)\<rparr>)" by (simp add: sent_is_def)
  moreover have "io_post (sent_is (sent (world l)))
      (io_seq (link_write (tap P) ?f) (io_bind (clock (tap P)) (\<lambda>now. exchange_loop (tap P) fuel
         (exchange_args addr (vs ?p) ?f (tap_opts opts)) fuel (exchange_start now (opt_timeout (tap_opts opts))))))
      (\<lambda>_. written addr ?f (sent (world l) @ [?f]) 3) (\<lambda>_. written addr ?f (sent (world l) @ [?f]) 3)"
    by (rule exchange_record [OF f]) simp_all
  ultimately have "written addr ?f (sent (world l) @ [?f]) 3 l'"
    using assms(3) unfolding exchange_begin [OF assms(2,1)] io_post_def by (auto split: sum.splits)
  moreover have "build_frame addr (i_ctrl (vs ?p) (vr ?p)) message = Inr ?f"
    by (rule build_frame_octets) (simp_all add: assms(2) ok)
  ultimately show ?thesis unfolding written_def by auto
qed

theorem command_sent_at_most_four_times_witness:
  "\<exists>f bs. sent (world (snd (exchange (tap silent_port) 9 1 [0x34, 0, 0] (tap_opts xdefaults) tapped_silence)))
     = f # bs \<and> set bs \<subseteq> insert f (rr_to 1) \<and> count_list bs f \<le> 3"
proof (cases "exchange (tap silent_port) 9 1 [0x34, 0, 0] (tap_opts xdefaults) tapped_silence")
  case (Pair r l')
  then show ?thesis
    using command_sent_at_most_four_times [OF _ _ Pair]
    by (auto simp: tapped_silence_def link_ok_new octet_def) (auto simp: new_link_def)
qed



text \<open>
  C10: the frames of a read are delivered as the receiver's contract says: exactly the I-frames of
  this device that carry the expected number, in order, each once. When the exchange goes on, the
  indications among them have been handed to the callback and none was our response; when it
  returns, it returns the first response, with the indications before it handed over.
\<close>

theorem frames_delivered_in_sequence:
  assumes "handle_frames (tap P) (exchange_args addr ns f (tap_opts opts)) fs x l = (Inr r, l')"
    and "receive addr (vr (peer_of l addr)) fs = (payloads, next_nr)"
  shows "case r of
      Go x' \<Rightarrow> (\<forall>p \<in> set payloads. opt_router opts p \<noteq> ACCEPT) \<and> vr (peer_of l' addr) = next_nr
        \<and> got (world l') = got (world l) @ filter (\<lambda>p. opt_router opts p = INDICATION) payloads
    | Done p \<Rightarrow> (\<exists>before after. payloads = before @ p # after
        \<and> opt_router opts p = ACCEPT \<and> (\<forall>q \<in> set before. opt_router opts q \<noteq> ACCEPT)
        \<and> got (world l') = got (world l) @ filter (\<lambda>p. opt_router opts p = INDICATION) before)"
proof -
  have "inbox addr (vr (peer_of l addr)) (got (world l)) l" by (simp add: inbox_def)
  from io_postD_Inr [OF handle_frames_delivers [OF refl] this assms(1)]
  have "frames_effect addr (vr (peer_of l addr)) (got (world l)) (opt_router opts) fs r l'" .
  then show ?thesis
    using assms(2) by (cases r) (auto simp: frames_effect_def inbox_def)
qed

theorem frames_delivered_in_sequence_witness:
  "\<exists>x l. handle_frames (tap silent_port) example_args (repeated 1 0 [(1, 0, [7, 2, 0, 0, 2])])
     (exchange_start 0 3000000) tapped_silence = (Inr (Go x), l) \<and> got (world l) = [[7, 2, 0, 0, 2]]"
proof -
  obtain x l where run: "handle_frames (tap silent_port) example_args
      (repeated 1 0 [(1, 0, [7, 2, 0, 0, 2])]) (exchange_start 0 3000000) tapped_silence = (Inr (Go x), l)"
    using example_indication by blast
  have "receive 1 (vr (peer_of tapped_silence 1)) (repeated 1 0 [(1, 0, [7, 2, 0, 0, 2])]) = ([[7, 2, 0, 0, 2]], 1)"
    by (simp add: tapped_silence_def new_link_def peer_of_def new_peer_def)
  from frames_delivered_in_sequence [OF run [unfolded example_args_def] this] run
  show ?thesis by (auto simp: tapped_silence_def new_link_def alarm_router_def)
qed

text \<open>
  C11: a retransmitted frame is not delivered twice. A device that sends its I-frames in order and
  repeats each of them any number of times has each indication handed over exactly once.
\<close>

theorem retransmission_delivered_once:
  assumes "seq_no (vr (peer_of l addr))" and "\<forall>(k, nr, pl) \<in> set bs. seq_no nr"
    and "handle_frames (tap P) (exchange_args addr ns f (tap_opts opts))
           (repeated addr (vr (peer_of l addr)) bs) x l = (Inr (Go x'), l')"
  shows "got (world l') = got (world l)
      @ filter (\<lambda>p. opt_router opts p = INDICATION) (map (\<lambda>(k, nr, pl). pl) bs)
    \<and> vr (peer_of l' addr) = (vr (peer_of l addr) + int (length bs)) mod 8"
proof -
  have "inbox addr (vr (peer_of l addr)) (got (world l)) l" by (simp add: inbox_def)
  from io_postD_Inr [OF handle_frames_delivers [OF refl] this assms(3)]
    receive_repeated [OF assms(1,2), of addr]
  show ?thesis by (simp add: frames_effect_def inbox_def)
qed

theorem retransmission_delivered_once_witness:
  "\<exists>x l. handle_frames (tap silent_port) example_args (repeated 1 0 [(1, 0, [7, 2, 0, 0, 2])])
     (exchange_start 0 3000000) tapped_silence = (Inr (Go x), l)
   \<and> got (world l) = [[7, 2, 0, 0, 2]] \<and> vr (peer_of l 1) = 1"
proof -
  have vr: "vr (peer_of tapped_silence 1) = 0"
    by (simp add: tapped_silence_def new_link_def peer_of_def new_peer_def)
  obtain x l where run: "handle_frames (tap silent_port) example_args
      (repeated 1 (vr (peer_of tapped_silence 1)) [(1, 0, [7, 2, 0, 0, 2])])
      (exchange_start 0 3000000) tapped_silence = (Inr (Go x), l)"
    using example_indication vr by auto
  from retransmission_delivered_once [OF _ _ run [unfolded example_args_def]] run vr
  show ?thesis
    by (auto simp: tapped_silence_def new_link_def alarm_router_def seq_no_def
        simp del: handle_frames.simps repeated.simps)
qed

end
