(* ===== verification/Link_Timing.thy ===== *)
theory Link_Timing
  imports Link_Trace
begin

text \<open>
  The loops of the link layer end. The fuel of the model stands for turns of the source's
  \<open>while True\<close>; under a clock that runs, a number of turns computed since the budgets is enough, so
  \<open>Diverged\<close> is not an outcome.

  The contract of the clock is what \<open>time.monotonic\<close>, \<open>time.sleep\<close> and a blocking \<open>read\<close> document:
  the clock does not go back, sleeping takes the time asked for, and a read takes time (a byte on a
  9600-baud line takes a millisecond, and a read that gives nothing has waited for its timeout).
\<close>

locale running_clock =
  fixes P :: "'w port_ops" and now :: "'w \<Rightarrow> time"
  assumes clock_reads: "fst (monotonic P w) = now w"
    and clock_monotonic: "now w \<le> now (snd (monotonic P w))"
    and clock_read: "now w < now (snd (ser_read P n w))"
    and clock_waiting: "now w \<le> now (snd (ser_in_waiting P w))"
    and clock_write: "now w \<le> now (snd (ser_write P b w))"
    and clock_flush: "now w \<le> now (snd (ser_flush P w))"
    and clock_sleep: "0 \<le> t \<Longrightarrow> now w + t \<le> now (sleep P t w)"
    and clock_sleep_back: "now w \<le> now (sleep P t w)"
begin

definition since :: "time \<Rightarrow> 'w link \<Rightarrow> bool" where
  "since t l \<longleftrightarrow> t \<le> now (world l)"

lemma on_port_since: "(\<And>w. now w \<le> now (snd (m w))) \<Longrightarrow> io_keeps (since t) (on_port m)"
  unfolding io_keeps_def since_def on_port_def on_world_def
  by (auto split: prod.split sum.split) (metis order_trans snd_conv)+

sublocale port: port_local P "since t" for t
proof
  show "io_keeps (since t) (on_port (ser_read P n))" for n
    by (rule on_port_since) (simp add: clock_read less_imp_le)
  show "io_keeps (since t) (clock P)"
    by (auto simp: io_keeps_def since_def clock_def on_world_def split: prod.split)
      (metis clock_monotonic order_trans snd_conv)
  show "io_keeps (since t) (sleep_for P s)" for s
    by (auto simp: io_keeps_def since_def sleep_for_def on_world_def) (metis clock_sleep_back order_trans)
qed (auto simp: since_def clock_waiting clock_flush intro!: on_port_since)

text \<open>A read takes at least one microsecond, and the clock then says so.\<close>

lemma read_takes_time:
  "io_post (since t) (on_port (ser_read P n)) (\<lambda>_. since (t + 1)) (\<lambda>_. since (t + 1))"
proof -
  have "t + 1 \<le> now (snd (ser_read P n w))" if "t \<le> now w" for w
    using clock_read [of w n] that by simp
  then show ?thesis
    by (auto simp: io_post_def since_def on_port_def on_world_def split: prod.split sum.split)
      (metis snd_conv)+
qed

lemma clock_says:
  assumes "\<And>s. t \<le> s \<Longrightarrow> io_post (since s) (f s) Q E"
  shows "io_post (since t) (io_bind (clock P) f) Q E"
  unfolding io_post_def
proof (intro allI impI)
  fix l assume "since t l"
  then have s: "t \<le> now (world l)" by (simp add: since_def)
  obtain w where w: "monotonic P (world l) = (now (world l), w)" "now (world l) \<le> now w"
    using clock_reads [of "world l"] clock_monotonic [of "world l"]
    by (cases "monotonic P (world l)") auto
  have "since (now (world l)) (l\<lparr>world := w\<rparr>)" using w by (simp add: since_def)
  with assms [OF s] w show "case io_bind (clock P) f l of (Inl e, s') \<Rightarrow> E e s' | (Inr a, s') \<Rightarrow> Q a s'"
    unfolding io_post_def by (simp add: io_bind_def clock_def on_world_def Let_def)
qed

definition ends :: "exn \<Rightarrow> 'w link \<Rightarrow> bool" where
  "ends e l \<longleftrightarrow> e \<noteq> Diverged"

text \<open>An operation that keeps the time and raises nothing but errors of the port.\<close>

lemma since_bind:
  "io_keeps (since t) m \<Longrightarrow> io_raises (\<lambda>e. e \<noteq> Diverged) m \<Longrightarrow> (\<And>r. io_post (since t) (f r) Q ends) \<Longrightarrow>
    io_post (since t) (io_bind m f) Q ends"
  by (rule io_post_bind [OF io_post_keeps [where R = "\<lambda>e. e \<noteq> Diverged"]]) (auto simp: ends_def)

lemma since_seq:
  "io_keeps (since t) m \<Longrightarrow> io_raises (\<lambda>e. e \<noteq> Diverged) m \<Longrightarrow> io_post (since t) k Q ends \<Longrightarrow>
    io_post (since t) (io_seq m k) Q ends"
  unfolding io_seq_def by (rule since_bind)

lemma port_not_diverged [raises_intros]: "io_raises (\<lambda>e. e \<noteq> Diverged) (on_port m)"
  by (rule io_raisesI) (auto simp: on_port_def on_world_def split: prod.splits sum.splits)

text \<open>The read pump: when the clock passes \<open>hard_end\<close> it returns.\<close>

lemma read_loop_ends:
  assumes "h - t < int n" and "0 < n"
  shows "io_post (since t) (read_loop P n e h g rx) (\<lambda>_. since (t + 1)) ends"
  using assms
proof (induction n arbitrary: t rx)
  case (Suc n)
  have again: "io_post (since s) (read_loop P n e h g rx') (\<lambda>_. since (t + 1)) ends"
    if "t + 1 \<le> s" "\<not> s \<ge> h" for s rx'
  proof (rule io_post_conseq)
    show "io_post (since s) (read_loop P n e h g rx') (\<lambda>_. since (s + 1)) ends"
      using that Suc.prems by (intro Suc.IH) auto
  qed (use that in \<open>auto simp: since_def\<close>)
  have fin: "io_post (since s) (io_return fs) (\<lambda>_. since (t + 1)) ends" if "t + 1 \<le> s" for s and fs :: "frame list"
    using that by (auto intro!: io_post_return simp: since_def)
  have read: "io_post (since t) (on_port (ser_read P k)) (\<lambda>_. since (t + 1)) ends" for k
    using read_takes_time [of t k] port_not_diverged [of "ser_read P k"]
    unfolding io_post_def io_raises_def ends_def by (auto split: prod.splits sum.splits) blast
  then show ?case
    unfolding read_loop.simps Let_def
    by (intro clock_says io_post_bind [OF read] since_bind io_post_if again fin keeps_intros raises_intros
        | simp)+
qed simp

lemma read_frames_ends:
  assumes "max budget hard_cap_default < int fuel"
  shows "io_post (since t) (read_frames P fuel budget) (\<lambda>_. since (t + 1)) ends"
  unfolding read_frames_def
proof (rule clock_says)
  fix s assume "t \<le> s"
  then show "io_post (since s) (read_loop P fuel (s + budget) (s + max budget hard_cap_default)
      idle_gap_default 0) (\<lambda>_. since (t + 1)) ends"
    using assms
    by (intro io_post_conseq [OF read_loop_ends [of _ s]]) (auto simp: since_def hard_cap_default_def)
qed

text \<open>
  The exchange. A turn takes at least one read; a turn that goes on has either used up one of the
  retransmissions or found the deadline not yet passed. Unless the router reports indications, the
  deadline does not move, so the turns left are bounded.
\<close>

definition on_time :: "'w xargs \<Rightarrow> bool" where
  "on_time c \<longleftrightarrow> (\<forall>p. xa_router c p \<noteq> INDICATION) \<and> 0 \<le> xa_poll_interval c
     \<and> (\<forall>h n a w. xa_on_poll c = Some h \<longrightarrow> now w \<le> now (h n a w))"

lemma since_call_back:
  "(\<And>g w. f = Some g \<Longrightarrow> now w \<le> now (g w)) \<Longrightarrow> io_keeps (since t) (call_back f)"
  by (auto simp: io_keeps_def since_def call_back_def io_return_def on_world_def split: option.split)
    (metis order_trans)

lemma since_upd_peer [keeps_intros]: "io_keeps (since t) (upd_peer a f)"
  by (simp add: io_keeps_def since_def upd_peer_def)

lemma since_write [keeps_intros]: "io_keeps (since t) (link_write P b)"
  unfolding link_write_def by (intro keeps_intros on_port_since clock_write)

lemma since_send_rr [keeps_intros]: "io_keeps (since t) (send_rr P a nr poll)"
  unfolding send_rr_def by (intro keeps_intros)

lemma raises_not_diverged [raises_intros]:
  "io_raises (\<lambda>e. e \<noteq> Diverged) (link_write P b)" "io_raises (\<lambda>e. e \<noteq> Diverged) (send_rr P a nr poll)"
proof -
  show w: "io_raises (\<lambda>e. e \<noteq> Diverged) (link_write P b)" for b
    unfolding link_write_def by (intro raises_intros)
  have "io_raises (\<lambda>e. e \<noteq> Diverged) (io_res (rr_frame a nr poll) :: ('w link, bytes) io)"
    by (rule io_raisesI) (auto simp: io_res_def rr_frame_def build_frame_eq split: if_splits)
  then show "io_raises (\<lambda>e. e \<noteq> Diverged) (send_rr P a nr poll)"
    unfolding send_rr_def by (intro io_raises_bind w)
qed

text \<open>What the frames of a read leave of the turns: the deadline and the retransmissions.\<close>

definition next_in_time :: "time \<Rightarrow> time \<Rightarrow> int \<Rightarrow> xnext \<Rightarrow> 'w link \<Rightarrow> bool" where
  "next_in_time t d k r l \<longleftrightarrow> since t l
     \<and> (\<forall>x. r = Go x \<longrightarrow> deadline x = d \<and> 0 \<le> retx_left x \<and> retx_left x \<le> k)"

lemma handle_frame_in_time:
  assumes "on_time c" and "0 \<le> retx_left x"
  shows "io_post (since t) (handle_frame P c x fr) (next_in_time t (deadline x) (retx_left x)) ends"
proof (cases fr)
  case (fields fa ctrl pl)
  let ?Q = "next_in_time t (deadline x) (retx_left x)"
  have go: "io_post (since t) (io_return (Go x')) ?Q ends"
    if "deadline x' = deadline x" "retx_left x' = retx_left x" for x'
    using that assms(2) by (auto intro!: io_post_return simp: next_in_time_def)
  have resent: "io_post (since t) (io_return (Go (x'\<lparr>retx_left := retx_left x' - 1\<rparr>))) ?Q ends"
    if "\<not> acked x' \<and> retx_left x' \<noteq> 0" "deadline x' = deadline x" "retx_left x' = retx_left x" for x'
    using that assms(2) by (auto intro!: io_post_return simp: next_in_time_def)
  have fin: "io_post (since t) (io_return (Done p)) ?Q ends" for p
    by (auto intro!: io_post_return simp: next_in_time_def)
  have raise: "io_post (since t) (io_raise (LinkReset a w)) ?Q ends" for a w
    by (auto intro!: io_post_raise simp: ends_def)
  have no_ind: "(xa_router c p = INDICATION) = False" for p using assms(1) by (simp add: on_time_def)
  show ?thesis
    unfolding fields handle_frame_def handle_i_frame_def apply_ack_def Let_def prod.case kind_eq
      io_bind_simps missing_or no_ind if_False
    by (intro resent go fin raise io_post_if since_seq since_bind keeps_intros raises_intros | simp)+
qed

lemma handle_frames_in_time:
  assumes "on_time c" and "0 \<le> retx_left x"
  shows "io_post (since t) (handle_frames P c fs x) (next_in_time t (deadline x) (retx_left x)) ends"
  using assms(2)
proof (induction fs arbitrary: x)
  case Nil
  then show ?case by (auto intro!: io_post_return simp: next_in_time_def)
next
  case (Cons fr fs)
  have "io_post (next_in_time t (deadline x) (retx_left x) r)
      (case r of Done pl \<Rightarrow> io_return (Done pl) | Go x' \<Rightarrow> handle_frames P c fs x')
      (next_in_time t (deadline x) (retx_left x)) ends" for r
  proof (cases r)
    case (Go x')
    show ?thesis
    proof (cases "deadline x' = deadline x \<and> 0 \<le> retx_left x' \<and> retx_left x' \<le> retx_left x")
      case True
      then have "io_post (since t) (handle_frames P c fs x') (next_in_time t (deadline x) (retx_left x')) ends"
        using Cons.IH [of x'] by simp
      then show ?thesis
        using Go True by (auto elim!: io_post_conseq simp: next_in_time_def)
    qed (auto simp: Go io_post_def next_in_time_def)
  qed (auto intro!: io_post_return simp: next_in_time_def)
  then show ?case
    by (simp add: io_post_bind [OF handle_frame_in_time [OF assms(1) Cons.prems]])
qed

lemma poll_again_in_time:
  assumes "on_time c" and "0 \<le> retx_left x"
  shows "io_post (since t) (poll_again P c x)
    (\<lambda>x' l. since t l \<and> deadline x' = deadline x \<and> 0 \<le> retx_left x'
       \<and> (retx_left x' < retx_left x \<or> retx_left x' = retx_left x \<and> t \<le> deadline x)) ends"
    (is "io_post _ _ ?Q _")
proof (unfold poll_again_def, rule clock_says)
  fix s assume "t \<le> s"
  have resent: "io_post (since s) (io_return (x\<lparr>retx_left := retx_left x - 1, retx_at := r, missing := m\<rparr>)) ?Q ends"
    if "retx_left x \<noteq> 0" for r m
    using that assms(2) \<open>t \<le> s\<close> by (auto intro!: io_post_return simp: since_def)
  have polled: "io_post (since s) (io_return (x\<lparr>polls := n\<rparr>)) ?Q ends" if "\<not> deadline x < s" for n
    using that assms(2) \<open>t \<le> s\<close> by (auto intro!: io_post_return simp: since_def)
  have raise: "io_post (since s) (io_raise (AisgTimeout a n k m)) ?Q ends" for a n k m
    by (auto intro!: io_post_raise simp: ends_def)
  have poll: "io_keeps (since s) (call_back (map_option (\<lambda>h. h n k) (xa_on_poll c)))" for n k
    using assms(1) by (intro since_call_back) (auto simp: on_time_def)
  show "io_post (since s)
    (if \<not> acked x \<and> missing x \<and> s > retx_at x \<and> retx_left x \<noteq> 0
     then io_seq (upd_stats (\<lambda>st. st\<lparr>st_retx := st_retx st + 1\<rparr>)) (io_seq (link_write P (xa_frame c))
       (io_return (x\<lparr>retx_left := retx_left x - 1, retx_at := s + 1000000, missing := False\<rparr>)))
     else if s > deadline x then io_raise (AisgTimeout (xa_addr c) (xa_sent_ns c) (acked x) (polls x))
     else let x = x\<lparr>polls := polls x + 1\<rparr> in
       io_seq (upd_stats (\<lambda>st. st\<lparr>st_polls := st_polls st + 1\<rparr>))
       (io_seq (call_back (map_option (\<lambda>h. h (polls x) (acked x)) (xa_on_poll c)))
       (io_seq (sleep_for P (xa_poll_interval c))
       (io_bind (get_peer (xa_addr c)) (\<lambda>p.
        io_seq (send_rr P (xa_addr c) (vr p) True) (io_return x)))))) ?Q ends"
    unfolding Let_def
    by (intro resent polled raise poll io_post_if since_seq since_bind keeps_intros raises_intros | simp)+
qed

text \<open>The turns left: one for each microsecond up to the deadline and one for each retransmission.\<close>

lemma exchange_loop_ends:
  assumes "on_time c" and "max (xa_poll_interval c) hard_cap_default < int fuel"
    and "0 \<le> retx_left x" and "max 0 (deadline x + 1 - t) + retx_left x < int n"
  shows "io_post (since t) (exchange_loop P fuel c n x) (\<lambda>_ _. True) ends"
  using assms(3,4)
proof (induction n arbitrary: t x)
  case (Suc n)
  have turn: "io_post (next_in_time (t + 1) (deadline x) (retx_left x) r)
      (case r of Done pl \<Rightarrow> io_return pl | Go x' \<Rightarrow> io_bind (poll_again P c x') (exchange_loop P fuel c n))
      (\<lambda>_ _. True) ends" for r
  proof (cases r)
    case (Go x')
    show ?thesis
    proof (cases "deadline x' = deadline x \<and> 0 \<le> retx_left x' \<and> retx_left x' \<le> retx_left x")
      case True
      let ?R = "\<lambda>y l. since (t + 1) l \<and> deadline y = deadline x' \<and> 0 \<le> retx_left y
        \<and> (retx_left y < retx_left x' \<or> retx_left y = retx_left x' \<and> t + 1 \<le> deadline x')"
      have "io_post (?R y) (exchange_loop P fuel c n y) (\<lambda>_ _. True) ends" for y
      proof (cases "deadline y = deadline x' \<and> 0 \<le> retx_left y
          \<and> (retx_left y < retx_left x' \<or> retx_left y = retx_left x' \<and> t + 1 \<le> deadline x')")
        case ok: True
        have "max 0 (deadline y + 1 - (t + 1)) + retx_left y < int n"
          using ok True Suc.prems(2) by auto
        with ok have "io_post (since (t + 1)) (exchange_loop P fuel c n y) (\<lambda>_ _. True) ends"
          by (intro Suc.IH) auto
        with ok show ?thesis by (elim io_post_conseq) auto
      qed (auto simp: io_post_def)
      then have "io_post (since (t + 1)) (io_bind (poll_again P c x') (exchange_loop P fuel c n)) (\<lambda>_ _. True) ends"
        using True by (intro io_post_bind [OF poll_again_in_time [OF assms(1)]]) auto
      with Go show ?thesis by (auto elim!: io_post_conseq simp: next_in_time_def)
    qed (auto simp: Go io_post_def next_in_time_def)
  qed (auto intro!: io_post_return)
  show ?case
    using io_post_bind [OF handle_frames_in_time [OF assms(1) Suc.prems(1)] turn]
    by (auto intro!: io_post_bind [OF read_frames_ends [OF assms(2)]])
qed simp

lemma exchange_ends:
  assumes "\<forall>p. opt_router opts p \<noteq> INDICATION" and "0 \<le> opt_poll_interval opts"
    and "\<forall>h n a w. opt_on_poll opts = Some h \<longrightarrow> now w \<le> now (h n a w)"
    and "max (opt_poll_interval opts) hard_cap_default < int fuel" and "max 0 (opt_timeout opts + 1) + 3 < int fuel"
  shows "io_post (since t) (exchange P fuel addr message opts) (\<lambda>_ _. True) ends"
proof -
  have ot: "on_time (exchange_args addr ns f opts)" for ns f
    using assms(1-3) by (simp add: on_time_def)
  have res: "io_raises (\<lambda>e. e \<noteq> Diverged) (io_res (build_frame a c m) :: ('w link, bytes) io)" for a c m
    by (rule io_raisesI) (auto simp: io_res_def build_frame_eq split: if_splits)
  have loop: "io_post (since s) (exchange_loop P fuel (exchange_args addr ns f opts) fuel
      (exchange_start s (opt_timeout opts))) (\<lambda>_ _. True) ends" for s ns f
    using assms(4,5) by (intro exchange_loop_ends ot) auto
  show ?thesis
    unfolding exchange_def
    by (intro since_bind since_seq clock_says loop res keeps_intros raises_intros)
qed

end

section \<open>A silent line\<close>

text \<open>Nothing ever arrives, and the port does not fail.\<close>

definition quiet :: "'w port_ops \<Rightarrow> bool" where
  "quiet P \<longleftrightarrow> (\<forall>n w. fst (ser_read P n w) = Inr [])
     \<and> (\<forall>e w. fst (ser_in_waiting P w) \<noteq> Inl e \<and> fst (ser_flush P w) \<noteq> Inl e)
     \<and> (\<forall>e b w. fst (ser_write P b w) \<noteq> Inl e)"

lemma quiet_tap: "quiet P \<Longrightarrow> quiet (tap P)"
  by (simp add: quiet_def tap_simps in_env_def case_prod_beta)

lemma quiet_raises:
  assumes "quiet P"
  shows "io_raises E (on_port (ser_read P n))" "io_raises E (on_port (ser_in_waiting P))"
    "io_raises E (link_write P b)"
proof -
  have r: "io_raises E (on_port m)" if "\<And>e w. fst (m w) \<noteq> Inl e" for m :: "('a, 'b) port_io"
    using that by (auto simp: io_raises_def on_port_def on_world_def split: prod.splits sum.splits)
      (metis fst_conv)
  show "io_raises E (on_port (ser_read P n))" "io_raises E (on_port (ser_in_waiting P))"
    "io_raises E (link_write P b)"
    using assms unfolding link_write_def by (auto simp: quiet_def intro!: r raises_intros)
qed

lemma quiet_read: "quiet P \<Longrightarrow> on_port (ser_read P n) l = (Inr c, l') \<Longrightarrow> c = []"
  by (auto simp: quiet_def on_port_def on_world_def split: prod.splits sum.splits)
    (metis fst_conv sum.inject(2))

text \<open>The read pump finds no frame.\<close>

lemma quiet_outcome:
  assumes "quiet P"
  shows "case read_frames P n b l of (Inl e, l') \<Rightarrow> e = Diverged | (Inr fs, l') \<Rightarrow> fs = []"
proof -
  have loop: "case read_loop P n e h g rx l of (Inl e, l') \<Rightarrow> e = Diverged | (Inr fs, l') \<Rightarrow> fs = []"
    for e h g rx l
  proof (induction n arbitrary: rx l)
    case (Suc n)
    have w: "\<exists>k l'. on_port (ser_in_waiting P) l = (Inr k, l')" for l
      using quiet_raises(2) [OF assms, of "\<lambda>_. False"] unfolding io_raises_def
      by (cases "on_port (ser_in_waiting P) l") (metis surj_pair sum.exhaust_sel)
    have r: "\<exists>l'. on_port (ser_read P k) l = (Inr [], l')" for k l
      using quiet_raises(1) [OF assms, of "\<lambda>_. False"] quiet_read [OF assms] unfolding io_raises_def
      by (cases "on_port (ser_read P k) l") (metis sum.exhaust_sel)
    have c: "\<exists>t l'. clock P l = (Inr t, l')" for l
      by (simp add: clock_def on_world_def Let_def split: prod.split)
    obtain k l1 where l1: "on_port (ser_in_waiting P) l = (Inr k, l1)" using w by blast
    obtain l2 where l2: "on_port (ser_read P (if k \<noteq> 0 then k else 1)) l1 = (Inr [], l2)" using r by blast
    obtain t l3 where l3: "clock P l2 = (Inr t, l3)" using c by blast
    show ?case
      using Suc.IH l1 l2 l3
      by (simp add: io_bind_def io_return_def df_partial_def Let_def)
  qed (simp add: io_raise_def)
  obtain t l' where "clock P l = (Inr t, l')"
    by (cases "monotonic P (world l)") (simp add: clock_def on_world_def Let_def)
  then show ?thesis
    using loop by (simp add: read_frames_def io_bind_def)
qed

lemma io_keeps_conj: "io_keeps A m \<Longrightarrow> io_keeps B m \<Longrightarrow> io_keeps (\<lambda>s. A s \<and> B s) m"
  by (simp add: io_keeps_def)

definition unheard :: "exn \<Rightarrow> bool" where
  "unheard e = (case e of AisgTimeout a ns k n \<Rightarrow> \<not> k | ValueError \<Rightarrow> True | _ \<Rightarrow> False)"

lemma send_rr_unheard: "quiet P \<Longrightarrow> io_raises unheard (send_rr P a nr poll)"
  unfolding send_rr_def
  by (intro io_raises_bind quiet_raises)
    (auto simp: io_raises_def io_res_def rr_frame_def build_frame_eq unheard_def split: if_splits)

text \<open>
  One turn of the loop on a silent line, for a predicate \<open>J\<close> that polling keeps: nothing is handled,
  and the exchange polls or gives up.
\<close>

context running_clock
begin

lemma clock_says_with:
  assumes "io_keeps J (clock P)" and "\<And>s. t \<le> s \<Longrightarrow> io_post (\<lambda>l. since s l \<and> J l) (f s) Q E"
  shows "io_post (\<lambda>l. since t l \<and> J l) (io_bind (clock P) f) Q E"
  unfolding io_post_def
proof (intro allI impI)
  fix l assume l: "since t l \<and> J l"
  have "io_post (\<lambda>l'. l' = l) (io_bind (clock P) (\<lambda>s. io_return s)) (\<lambda>s l'. t \<le> s \<and> since s l' \<and> J l') E"
    using l assms(1) clock_reads [of "world l"] clock_monotonic [of "world l"]
    by (auto simp: io_post_def io_keeps_def since_def clock_def on_world_def io_bind_def io_return_def
        Let_def split: prod.splits)
  then obtain s l' where c: "clock P l = (Inr s, l')" "t \<le> s" "since s l'" "J l'"
    by (auto simp: io_post_def io_bind_def io_return_def clock_def on_world_def Let_def split: prod.splits)
  then show "case io_bind (clock P) f l of (Inl e, s') \<Rightarrow> E e s' | (Inr a, s') \<Rightarrow> Q a s'"
    using assms(2) [of s] by (simp add: io_post_def io_bind_def)
qed

lemma silent_turn:
  assumes q: "quiet P" and x: "\<not> acked x" "\<not> missing x" and pi: "0 \<le> xa_poll_interval c"
    and J: "port_local P J" "\<And>nr. io_keeps J (send_rr P (xa_addr c) nr True)"
      "\<And>n. io_keeps J (call_back (map_option (\<lambda>h. h n False) (xa_on_poll c)))"
    and fwd: "\<forall>h n a w. xa_on_poll c = Some h \<longrightarrow> now w \<le> now (h n a w)"
  shows "io_post (\<lambda>l. since t l \<and> J l) (poll_again P c x)
    (\<lambda>y l. since t l \<and> J l \<and> \<not> acked y \<and> \<not> missing y \<and> deadline y = deadline x \<and> t \<le> deadline x)
    (\<lambda>e l. unheard e \<and> J l)" (is "io_post ?I _ ?Q ?E")
proof (unfold poll_again_def, rule clock_says_with)
  show "io_keeps J (clock P)" by (rule port_local.P_clock [OF J(1)])
  fix s assume s: "t \<le> s"
  let ?S = "\<lambda>l. since s l \<and> J l"
  have seq: "io_post ?S (io_seq m k) ?Q ?E"
    if "io_keeps (since s) m" "io_keeps J m" "io_raises unheard m" "io_post ?S k ?Q ?E"
    for m :: "('w link, 'b) io" and k
    by (rule io_post_seq [OF io_post_keeps [OF io_keeps_conj [OF that(1,2)] that(3)] that(4)]) auto
  have peer: "io_post ?S (io_bind (get_peer (xa_addr c)) k) ?Q ?E" if "\<And>p. io_post ?S (k p) ?Q ?E" for k
    by (rule io_post_bind [OF io_post_keeps [OF io_keeps_conj [OF port.keeps_state(1)
        port_local.keeps_state(1) [OF J(1)]] raises_get_peer [of unheard]] that]) auto
  have fin: "io_post ?S (io_return (x\<lparr>polls := n\<rparr>)) ?Q ?E" if "\<not> deadline x < s" for n
    using that x s by (auto intro!: io_post_return simp: since_def)
  have give_up: "io_post ?S (io_raise (AisgTimeout a n False k)) ?Q ?E" for a n k
    by (auto intro!: io_post_raise simp: unheard_def)
  have poll: "io_keeps (since s) (call_back (map_option (\<lambda>h. h n False) (xa_on_poll c)))" for n
    using fwd by (intro since_call_back) auto
  show "io_post ?S
    (if \<not> acked x \<and> missing x \<and> s > retx_at x \<and> retx_left x \<noteq> 0
     then io_seq (upd_stats (\<lambda>st. st\<lparr>st_retx := st_retx st + 1\<rparr>)) (io_seq (link_write P (xa_frame c))
       (io_return (x\<lparr>retx_left := retx_left x - 1, retx_at := s + 1000000, missing := False\<rparr>)))
     else if s > deadline x then io_raise (AisgTimeout (xa_addr c) (xa_sent_ns c) (acked x) (polls x))
     else let x = x\<lparr>polls := polls x + 1\<rparr> in
       io_seq (upd_stats (\<lambda>st. st\<lparr>st_polls := st_polls st + 1\<rparr>))
       (io_seq (call_back (map_option (\<lambda>h. h (polls x) (acked x)) (xa_on_poll c)))
       (io_seq (sleep_for P (xa_poll_interval c))
       (io_bind (get_peer (xa_addr c)) (\<lambda>p.
        io_seq (send_rr P (xa_addr c) (vr p) True) (io_return x)))))) ?Q ?E"
    using x unfolding Let_def
    by simp (intro conjI impI give_up fin seq peer poll J(2,3) keeps_intros raises_intros
        send_rr_unheard [OF q] port_local.keeps_state [OF J(1)] port_local.P_sleep [OF J(1)] | simp)+
qed

lemma silent_loop:
  assumes q: "quiet P" and pi: "0 \<le> xa_poll_interval c"
    and J: "port_local P J" "\<And>nr. io_keeps J (send_rr P (xa_addr c) nr True)"
      "\<And>n. io_keeps J (call_back (map_option (\<lambda>h. h n False) (xa_on_poll c)))"
    and fwd: "\<forall>h n a w. xa_on_poll c = Some h \<longrightarrow> now w \<le> now (h n a w)"
    and fuel: "max (xa_poll_interval c) hard_cap_default < int fuel"
    and "\<not> acked x" and "\<not> missing x" and "max 0 (deadline x + 1 - t) < int n"
  shows "io_post (\<lambda>l. since t l \<and> J l) (exchange_loop P fuel c n x) (\<lambda>_ _. False)
    (\<lambda>e l. unheard e \<and> J l)"
  using assms(8-10)
proof (induction n arbitrary: t x)
  case (Suc n)
  have read: "io_post (\<lambda>l. since t l \<and> J l) (read_frames P fuel (xa_poll_interval c))
      (\<lambda>fs l. fs = [] \<and> since (t + 1) l \<and> J l) (\<lambda>e l. unheard e \<and> J l)"
    unfolding io_post_def
  proof (intro allI impI)
    fix l assume l: "since t l \<and> J l"
    have J': "J (snd (read_frames P fuel (xa_poll_interval c) l))"
      using l port_local.keeps_read_frames [OF J(1)] by (simp add: io_keepsD)
    have e: "case read_frames P fuel (xa_poll_interval c) l of
        (Inl e, l') \<Rightarrow> ends e l' | (Inr fs, l') \<Rightarrow> since (t + 1) l'"
      using l read_frames_ends [OF fuel, of t] by (simp add: io_post_def)
    have r: "case read_frames P fuel (xa_poll_interval c) l of
        (Inl e, l') \<Rightarrow> e = Diverged | (Inr fs, l') \<Rightarrow> fs = []"
      using quiet_outcome [OF q, of fuel "xa_poll_interval c" l] .
    show "case read_frames P fuel (xa_poll_interval c) l of
        (Inl e, l') \<Rightarrow> unheard e \<and> J l' | (Inr fs, l') \<Rightarrow> fs = [] \<and> since (t + 1) l' \<and> J l'"
      using J' e r by (auto simp: ends_def split: prod.splits sum.splits)
  qed
  have turn: "io_post (\<lambda>l. since (t + 1) l \<and> J l)
      (io_bind (poll_again P c x) (exchange_loop P fuel c n)) (\<lambda>_ _. False) (\<lambda>e l. unheard e \<and> J l)"
  proof (rule io_post_bind [OF silent_turn [OF q Suc.prems(1,2) pi J fwd]])
    fix y :: xstate
    let ?R = "\<lambda>l. since (t + 1) l \<and> J l \<and> \<not> acked y \<and> \<not> missing y \<and> deadline y = deadline x
      \<and> t + 1 \<le> deadline x"
    show "io_post ?R (exchange_loop P fuel c n y) (\<lambda>_ _. False) (\<lambda>e l. unheard e \<and> J l)"
    proof (cases "\<not> acked y \<and> \<not> missing y \<and> deadline y = deadline x \<and> t + 1 \<le> deadline x")
      case True
      with Suc.prems(3) have "io_post (\<lambda>l. since (t + 1) l \<and> J l) (exchange_loop P fuel c n y)
          (\<lambda>_ _. False) (\<lambda>e l. unheard e \<and> J l)"
        by (intro Suc.IH) auto
      then show ?thesis by (rule io_post_conseq) auto
    qed (auto simp: io_post_def)
  qed
  show ?case
    unfolding exchange_loop.simps
  proof (rule io_post_bind [OF read])
    fix fs
    show "io_post (\<lambda>l. fs = [] \<and> since (t + 1) l \<and> J l)
      (io_bind (handle_frames P c fs x) (\<lambda>r. case r of Done pl \<Rightarrow> io_return pl
         | Go x' \<Rightarrow> io_bind (poll_again P c x') (exchange_loop P fuel c n)))
      (\<lambda>_ _. False) (\<lambda>e l. unheard e \<and> J l)"
      using turn by (cases "fs = []") (auto elim: io_post_conseq simp: io_post_def)
  qed
qed simp

end

text \<open>The silent port of the examples keeps the contract, and so does every tapped port.\<close>

interpretation silence: running_clock silent_port "\<lambda>w. w"
  by unfold_locales (simp_all add: silent_port_def)

lemma quiet_silent_port: "quiet silent_port"
  by (simp add: quiet_def silent_port_def)

lemma running_clock_tap: "running_clock P now \<Longrightarrow> running_clock (tap P) (\<lambda>w. now (env w))"
  unfolding running_clock_def by (simp add: tap_simps in_env_def case_prod_beta)

text \<open>The silent transfer from the first write on, on a tapped line.\<close>

lemma silent_transfer:
  assumes "running_clock P now" and "quiet P" and "f \<notin> rr_to addr"
    and "0 \<le> opt_poll_interval opts"
    and "\<forall>h n a w. opt_on_poll opts = Some h \<longrightarrow> now w \<le> now (h n a w)"
    and "max (opt_poll_interval opts) 3000000 < int fuel" and "max 0 (opt_timeout opts + 1) < int fuel"
  shows "io_post (sent_is s) (io_seq (link_write (tap P) f) (io_bind (clock (tap P)) (\<lambda>t.
      exchange_loop (tap P) fuel (exchange_args addr ns f (tap_opts opts)) fuel
        (exchange_start t (opt_timeout (tap_opts opts))))))
    (\<lambda>_ _. False) (\<lambda>e l. unheard e \<and> closed_account addr f (s @ [f]) (exchange_start 0 0\<lparr>acked := True\<rparr>) l)"
proof -
  let ?c = "exchange_args addr ns f (tap_opts opts)"
  let ?J = "closed_account addr f (s @ [f]) (exchange_start 0 0\<lparr>acked := True\<rparr>) :: 'a tapped link \<Rightarrow> bool"
  let ?now = "\<lambda>w. now (env w)"
  note rc = running_clock_tap [OF assms(1)]
  have fwd: "\<forall>h n k w. xa_on_poll ?c = Some h \<longrightarrow> ?now w \<le> ?now (h n k w)"
    using assms(5) by (auto simp: tap_opts_def)
  have loop: "io_post (\<lambda>l. running_clock.since ?now t l \<and> ?J l)
      (exchange_loop (tap P) fuel ?c fuel (exchange_start t (opt_timeout (tap_opts opts))))
      (\<lambda>_ _. False) (\<lambda>e l. unheard e \<and> ?J l)" for t
    using assms(4,6,7)
    by (intro running_clock.silent_loop [OF rc quiet_tap [OF assms(2)]] fwd
        settled.port.port_local_axioms settled.keeps_send_rr settled.keeps_on_poll)
      (auto simp: hard_cap_default_def settled.keeps_send_rr settled.keeps_on_poll)
  have start: "io_post (sent_is s) (link_write (tap P) f) (\<lambda>_. ?J) (\<lambda>_ _. False)"
    by (rule io_post_conseq [OF io_post_cannot_raise [OF write_recorded [of s P f]]])
      (use assms(3) in \<open>simp_all add: quiet_raises(3) [OF quiet_tap [OF assms(2)]] sent_is_def
        closed_account_def written_def\<close>)
  have clk: "io_post ?J (io_bind (clock (tap P)) (\<lambda>t. exchange_loop (tap P) fuel ?c fuel
      (exchange_start t (opt_timeout (tap_opts opts))))) (\<lambda>_ _. False) (\<lambda>e l. unheard e \<and> ?J l)"
    unfolding io_post_def
  proof (intro allI impI)
    fix l1 :: "'a tapped link" assume J: "?J l1"
    obtain t l2 where c: "clock (tap P) l1 = (Inr t, l2)"
      by (cases "monotonic (tap P) (world l1)") (simp add: clock_def on_world_def Let_def)
    have "?J l2" using io_keepsD [OF settled.port.P_clock J] c by (metis snd_conv)
    moreover have "running_clock.since ?now t l2"
      using c running_clock.clock_reads [OF rc, of "world l1"] running_clock.clock_monotonic [OF rc, of "world l1"]
      by (auto simp: running_clock.since_def [OF rc] clock_def on_world_def Let_def split: prod.splits)
    ultimately show "case io_bind (clock (tap P)) (\<lambda>t. exchange_loop (tap P) fuel ?c fuel
        (exchange_start t (opt_timeout (tap_opts opts)))) l1 of
        (Inl e, l') \<Rightarrow> unheard e \<and> ?J l' | (Inr a, l') \<Rightarrow> False"
      using loop [of t] c by (simp add: io_post_def io_bind_def)
  qed
  show ?thesis
    by (rule io_post_seq [OF io_post_conseq [OF start] clk]) auto
qed

section \<open>Properties\<close>

text \<open>
  C12: an exchange ends. Under a running clock, whatever the device sends and however the port fails,
  the loop of \<open>exchange\<close> returns or raises after at most one turn for each microsecond of the budget
  and three more, each of at most three seconds of reading, as long as no frame is routed as an
  indication (the default router never does).
\<close>

theorem exchange_terminates:
  assumes "running_clock P now"
    and "\<forall>p. opt_router opts p \<noteq> INDICATION" and "0 \<le> opt_poll_interval opts"
    and "\<forall>h n a w. opt_on_poll opts = Some h \<longrightarrow> now w \<le> now (h n a w)"
    and "max (opt_poll_interval opts) 3000000 < int fuel" and "max 0 (opt_timeout opts + 1) + 3 < int fuel"
  shows "fst (exchange P fuel addr message opts l) \<noteq> Inl Diverged"
proof (cases "exchange P fuel addr message opts l")
  case (Pair r l')
  have "running_clock.since now (now (world l)) l"
    by (simp add: running_clock.since_def [OF assms(1)])
  with running_clock.exchange_ends [OF assms(1-4), of fuel "now (world l)" addr message] assms(5,6) Pair
  show ?thesis
    by (cases r) (auto simp: io_post_def running_clock.ends_def [OF assms(1)] hard_cap_default_def)
qed

theorem exchange_terminates_witness:
  "fst (exchange silent_port 4000000 1 [0x34, 0, 0] xdefaults (new_link 1000000 0)) \<noteq> Inl Diverged"
  by (rule exchange_terminates [OF silence.running_clock_axioms])
    (simp_all add: xdefaults_def accept_all_def)

text \<open>
  C13: silence is no reason to send a command again. On a line on which nothing arrives and the port
  does not fail, the exchange puts the command on the line once, polls, and raises the timeout that
  says the command was not acknowledged.
\<close>

theorem silence_times_out:
  assumes "running_clock P now" and "quiet P" and "link_ok l" and "octet addr"
    and "0 \<le> opt_poll_interval opts"
    and "\<forall>h n a w. opt_on_poll opts = Some h \<longrightarrow> now w \<le> now (h n a w)"
    and "max (opt_poll_interval opts) 3000000 < int fuel" and "max 0 (opt_timeout opts + 1) < int fuel"
    and "exchange (tap P) fuel addr message (tap_opts opts) l = (r, l')"
  shows "\<exists>polled f bs. r = Inl (AisgTimeout addr (vs (peer_of l addr)) False polled)
    \<and> build_frame addr (i_ctrl (vs (peer_of l addr)) (vr (peer_of l addr))) message = Inr f
    \<and> sent (world l') = sent (world l) @ f # bs \<and> set bs \<subseteq> rr_to addr"
proof -
  let ?p = "peer_of l addr"
  let ?f = "wire (addr, i_ctrl (vs ?p) (vr ?p), message)" and ?s = "sent (world l)"
  let ?s' = "?s @ [?f]"
  let ?J = "closed_account addr ?f ?s' (exchange_start 0 0\<lparr>acked := True\<rparr>) :: 'a tapped link \<Rightarrow> bool"
  have ok: "seq_no (vs ?p)" "seq_no (vr ?p)" using assms(3) by (auto simp: link_ok_def peer_ok_def)
  have f: "?f \<notin> rr_to addr" by (rule command_not_rr [OF assms(4) ok])
  have now: "sent_is ?s (l\<lparr>peers := (peers l)(addr \<mapsto> ?p)\<rparr>)" by (simp add: sent_is_def)
  from silent_transfer [OF assms(1,2) f assms(5-8), of ?s "vs ?p", unfolded io_post_def, rule_format, OF now]
  have "case exchange (tap P) fuel addr message (tap_opts opts) l of
      (Inl e, l') \<Rightarrow> unheard e \<and> ?J l' | (Inr a, l') \<Rightarrow> False"
    unfolding exchange_begin [OF assms(4,3)] .
  then have r: "case r of Inl e \<Rightarrow> unheard e \<and> ?J l' | Inr _ \<Rightarrow> False"
    unfolding assms(9) by simp
  then obtain e where e: "r = Inl e" "unheard e" "?J l'" by (cases r) auto
  have "transfer_error addr (vs ?p) (peer_of l) e l'"
    using io_postD_Inl [OF exchange_post [OF assms(4)]] assms(3,9) e(1) by blast
  with e(2) obtain polled where "e = AisgTimeout addr (vs ?p) False polled"
    by (auto simp: unheard_def transfer_error_def split: exn.splits)
  moreover have "build_frame addr (i_ctrl (vs ?p) (vr ?p)) message = Inr ?f"
    by (rule build_frame_octets) (simp_all add: assms(4) ok)
  moreover obtain bs where "sent (world l') = ?s' @ bs" "set bs \<subseteq> insert ?f (rr_to addr)" "?f \<notin> set bs"
    using e(3) by (auto simp: closed_account_def written_def count_list_0_iff)
  ultimately show ?thesis using e(1) by auto
qed

theorem silence_times_out_witness:
  "\<exists>polled f bs.
     fst (exchange (tap silent_port) 4000000 1 [0x34, 0, 0] (tap_opts xdefaults) tapped_silence)
       = Inl (AisgTimeout 1 0 False polled)
     \<and> sent (world (snd (exchange (tap silent_port) 4000000 1 [0x34, 0, 0] (tap_opts xdefaults) tapped_silence)))
       = f # bs \<and> set bs \<subseteq> rr_to 1"
proof -
  let ?run = "exchange (tap silent_port) 4000000 1 [0x34, 0, 0] (tap_opts xdefaults) tapped_silence"
  have l: "link_ok tapped_silence" "octet 1" "vs (peer_of tapped_silence 1) = 0" "sent (world tapped_silence) = []"
    by (simp_all add: tapped_silence_def link_ok_new octet_def) (simp_all add: new_link_def peer_of_def new_peer_def)
  show ?thesis
    using silence_times_out [OF silence.running_clock_axioms quiet_silent_port l(1,2) _ _ _ _
        prod.collapse [symmetric], of xdefaults 4000000 "[0x34, 0, 0]"]
    by (auto simp: xdefaults_def l)
qed

end
