(* ===== verification/Link_Safe.thy ===== *)
theory Link_Safe
  imports Link_Exchange
begin

text \<open>
  What every operation of \<open>AisgLink\<close> keeps and raises, for the components above it: from a link whose
  sequence numbers are in range, each of them leaves such a link, whatever the port does, and what it
  raises is one of the sorts below. \<open>link_error\<close> names them; a bad FCS on the one-shot path is the
  one that is neither an \<open>AisgError\<close> nor a failure of the port.
\<close>

definition link_error :: "exn \<Rightarrow> bool" where
  "link_error e \<longleftrightarrow> is_aisg_error e \<or> is_frame_error e \<or> line_error e \<or> e = ValueError \<or> e = IndexError"

lemma link_error_simps [simp]:
  "link_error (AisgError m)" "link_error (FrameError m)" "link_error (OSError m)" "link_error Diverged"
  "link_error ValueError" "link_error IndexError" "link_error (LinkReset a w)" "link_error (AisgTimeout a n k p)"
  by (simp_all add: link_error_def is_frame_error_def)

lemma line_link_error: "line_error e \<Longrightarrow> link_error e"
  by (simp add: link_error_def)

lemma safe_upd_peer [safe_intros]:
  "io_safe link_ok E (upd_peer a (\<lambda>p. (peer_reset p)\<lparr>connected := b\<rparr>))"
  by (rule io_safeI [OF link_ok_upd_peer raises_upd_peer]) (simp add: peer_ok_def peer_reset_def)

lemma list_parse_frames_error: "list_parse_frames raw = Inl e \<Longrightarrow> \<exists>m. e = FrameError m"
  using parse_chunks_error [of "py_split FLAG raw" e]
  by (auto simp: list_parse_frames_def parse_frames_def split: prod.splits option.splits)

lemma safe_command [safe_intros]: "io_safe link_ok link_error (link_command P n a c p t)"
proof -
  have "io_safe link_ok link_error (io_res (build_frame a c p) :: ('w link, bytes) io)"
    by (rule io_safe_res) (auto simp: build_frame_eq split: if_splits)
  moreover have "io_safe link_ok link_error (xfer P n f t)" for f
    by (rule io_safe_mono [OF io_safeI [OF ok.keeps_xfer raises_xfer] line_link_error])
  moreover have "io_safe link_ok link_error (io_res (list_parse_frames raw) :: ('w link, frame list) io)" for raw
    by (rule io_safe_res) (auto dest: list_parse_frames_error)
  ultimately show ?thesis unfolding link_command_def by (intro safe_intros)
qed

lemma xid_encode_error: "xid_encode ps = Inl e \<Longrightarrow> e = ValueError"
  by (auto simp: xid_encode_eq Let_def split: if_splits)

lemma scan_frames_error: "scan_frames fs = Inl e \<Longrightarrow> link_error e"
  by (induction fs rule: scan_frames.induct)
    (auto simp: device_of_def xid_decode_def split: if_splits sum.splits list.splits option.splits
      elim!: res_bind.elims)

lemma safe_connect [safe_intros]: "io_safe link_ok link_error (connect_link P n a)"
  unfolding connect_link_def by (intro safe_intros io_safe_raise) simp

lemma safe_disconnect [safe_intros]: "io_safe link_ok link_error (disconnect_link P n a t)"
  unfolding disconnect_link_def by (intro safe_intros)

lemma safe_assign [safe_intros]: "io_safe link_ok link_error (assign_address P n d a)"
proof -
  have "io_safe link_ok link_error (io_res (py_bytes [a]) :: ('w link, bytes) io)"
    by (rule io_safe_res) (auto simp: py_bytes_def split: if_splits)
  moreover have "io_safe link_ok link_error (io_res (xid_encode ps) :: ('w link, bytes) io)" for ps
    by (rule io_safe_res) (auto dest: xid_encode_error)
  ultimately show ?thesis
    unfolding assign_address_def by (intro safe_intros io_safe_raise) (auto simp: assign_error_def)
qed

lemma safe_scan_once [safe_intros]: "io_safe link_ok link_error (scan_once P n u m)"
proof -
  have "io_safe link_ok link_error (io_res (xid_encode ps) :: ('w link, bytes) io)" for ps
    by (rule io_safe_res) (auto dest: xid_encode_error)
  moreover have "io_safe link_ok link_error (io_res (scan_frames fs) :: ('w link, device list) io)" for fs
    by (rule io_safe_res) (rule scan_frames_error)
  ultimately show ?thesis unfolding scan_once_def by (intro safe_intros)
qed

lemma safe_probe:
  assumes once: "\<And>u m. io_safe link_ok link_error (once u m)"
  shows "io_safe link_ok link_error (probe n once k u m r)"
proof (induction n arbitrary: k u m r)
  case 0
  have "probe 0 once k u m r = io_catch (io_bind (once u m) (\<lambda>devs. io_return (record_devices devs r)))
      (\<lambda>e. if is_frame_error e then Some (io_raise (AisgError ''scan collision could not be resolved'')) else None)"
    by (rule ext) (simp add: io_defs split: prod.split sum.split)
  then show ?case
    by (auto intro!: io_safe_catch [where E' = link_error] safe_intros io_safe_raise once split: if_splits)
next
  case (Suc n)
  have "probe (Suc n) once k u m r = io_catch (io_bind (once u m) (\<lambda>devs. io_return (record_devices devs r)))
      (\<lambda>e. if is_frame_error e then Some (io_bind
             (probe n once (k + 1) (split_uid u m k False) (split_mask m k) r)
             (probe n once (k + 1) (split_uid u m k True) (split_mask m k))) else None)"
    by (rule ext) (simp add: io_defs split: prod.split sum.split)
  then show ?case
    by (auto intro!: io_safe_catch [where E' = link_error] safe_intros once Suc.IH split: if_splits)
qed

lemma safe_scan [safe_intros]: "io_safe link_ok link_error (scan P n)"
  unfolding scan_def scan_with_def by (intro safe_intros safe_probe)

lemma safe_probe_address [safe_intros]: "io_safe link_ok link_error (probe_address P n a b)"
proof -
  have "probe_address P n a b = io_catch (io_seq (connect_link P n a) (io_return True))
      (\<lambda>e. if is_aisg_error e then Some (io_return False) else None)" if "\<not> b"
    using that by (intro ext) (simp add: probe_address_def io_defs split: prod.split sum.split)
  moreover have "io_safe link_ok link_error (io_catch (io_seq (connect_link P n a) (io_return True))
      (\<lambda>e. if is_aisg_error e then Some (io_return False) else None))"
    by (rule io_safe_catch [where E' = link_error]) (auto intro!: safe_intros split: if_splits)
  ultimately show ?thesis
  proof (cases b)
    case True
    have d: "io_safe link_ok link_error (io_seq (io_catch (disconnect_link P n a None)
        (\<lambda>e. if is_aisg_error e then Some (io_return ()) else None)) (io_return True))"
      by (intro safe_intros io_safe_catch [where E' = link_error]) (auto intro!: safe_intros split: if_splits)
    show ?thesis
      unfolding io_safe_def io_post_def
    proof (intro allI impI)
      fix l :: "'a link" assume l: "link_ok l"
      show "case probe_address P n a b l of (Inl e, s') \<Rightarrow> link_error e \<and> link_ok s' | (Inr a, s') \<Rightarrow> link_ok s'"
      proof (cases "connect_link P n a l")
        case (Pair r l')
        note l' = io_safe_keeps [OF safe_connect l Pair]
        from l' d [unfolded io_safe_def io_post_def, rule_format, OF l'] Pair True show ?thesis
          using io_safe_raises [OF safe_connect l, of P n a]
          by (cases r) (auto simp: probe_address_def)
      qed
    qed
  qed simp
qed

lemma safe_scan_assigned [safe_intros]: "io_safe link_ok link_error (scan_assigned c P n first)"
  by (induction c arbitrary: first) (auto intro!: safe_intros)

text \<open>A transfer.\<close>

definition transfer_exn :: "exn \<Rightarrow> bool" where
  "transfer_exn e \<longleftrightarrow> (\<exists>a n k p. e = AisgTimeout a n k p) \<or> (\<exists>a w. e = LinkReset a w) \<or> line_error e \<or> e = ValueError"

lemma in_transfer_ok: "in_transfer a ns q k l \<Longrightarrow> link_ok l"
  unfolding in_transfer_def link_ok_def by metis

lemma transfer_error_ok: "transfer_error a ns q e l \<Longrightarrow> transfer_exn e \<and> link_ok l"
proof -
  assume e: "transfer_error a ns q e l"
  have "(\<forall>b. peer_ok (q b)) \<Longrightarrow> (\<forall>b. b \<noteq> a \<longrightarrow> peer_of l b = q b) \<Longrightarrow> peer_of l a = new_peer \<Longrightarrow> link_ok l"
    unfolding link_ok_def by (metis peer_ok_new)
  with e show ?thesis
    unfolding transfer_error_def transfer_exn_def
    by (cases e) (auto intro: in_transfer_ok)
qed

lemma safe_exchange [safe_intros]: "io_safe link_ok transfer_exn (exchange P n a m opts)"
proof (cases "octet a")
  case True
  have "case exchange P n a m opts l of (Inl e, s') \<Rightarrow> transfer_exn e \<and> link_ok s' | (Inr a, s') \<Rightarrow> link_ok s'"
    if l: "link_ok l" for l
  proof -
    have pre: "link_ok l \<and> peer_of l = peer_of l" using l by simp
    note post = exchange_post [OF True, of "peer_of l" P n m opts]
    show ?thesis
      using io_postD_Inr [OF post pre] io_postD_Inl [OF post pre]
      by (cases "exchange P n a m opts l"; cases "fst (exchange P n a m opts l)")
        (auto dest: in_transfer_ok transfer_error_ok)
  qed
  then show ?thesis by (simp add: io_safe_def io_post_def)
next
  case False
  show ?thesis
    unfolding exchange_def build_frame_eq
    by (rule io_safe_bind [OF io_safeI [OF ok.port.keeps_state(1) raises_get_peer]])
      (simp add: False io_safe_raise transfer_exn_def)
qed

end
