(* ===== verification/Retap.thy ===== *)
theory Retap
  imports Prelude Complex_Main
begin

text \<open>
  \<open>openaisg/retap.py\<close>: the RETAP procedures of 3GPP TS 25.466 as the class \<open>Ret\<close> calls them, over any
  object with a \<open>request\<close> method. Such an object is a parameter, a transport; the locale below is what
  the client relies on. Tilts are floats in the source and rational numbers here: the one rounding
  the model does not have is that of the float product \<open>degrees * 10\<close> and quotient \<open>/ 10.0\<close>.

  Properties: what a request looks like on the wire and how every reply is understood; the tilt
  survives the conversion to tenths and back; the identity block is read back as it was written; the
  antenna selection is restored whatever happens.
\<close>

section \<open>Procedure codes\<close>

definition RESET_SOFTWARE :: int where "RESET_SOFTWARE = 0x03"
definition GET_ALARM_STATUS :: int where "GET_ALARM_STATUS = 0x04"
definition GET_INFORMATION :: int where "GET_INFORMATION = 0x05"
definition CLEAR_ACTIVE_ALARMS :: int where "CLEAR_ACTIVE_ALARMS = 0x06"
definition ALARM_INDICATION :: int where "ALARM_INDICATION = 0x07"
definition SELF_TEST :: int where "SELF_TEST = 0x0A"
definition SET_DEVICE_DATA :: int where "SET_DEVICE_DATA = 0x0E"
definition GET_DEVICE_DATA :: int where "GET_DEVICE_DATA = 0x0F"
definition READ_USER_DATA :: int where "READ_USER_DATA = 0x10"
definition WRITE_USER_DATA :: int where "WRITE_USER_DATA = 0x11"
definition ALARM_SUBSCRIBE :: int where "ALARM_SUBSCRIBE = 0x12"
definition CALIBRATE :: int where "CALIBRATE = 0x31"
definition SEND_CONFIG_DATA :: int where "SEND_CONFIG_DATA = 0x32"
definition SET_TILT :: int where "SET_TILT = 0x33"
definition GET_TILT :: int where "GET_TILT = 0x34"
definition DOWNLOAD_START :: int where "DOWNLOAD_START = 0x40"
definition DOWNLOAD_APPLICATION :: int where "DOWNLOAD_APPLICATION = 0x41"
definition DOWNLOAD_END :: int where "DOWNLOAD_END = 0x42"
definition ANT_CALIBRATE :: int where "ANT_CALIBRATE = 0x80"
definition ANT_SET_TILT :: int where "ANT_SET_TILT = 0x81"
definition ANT_GET_TILT :: int where "ANT_GET_TILT = 0x82"
definition ANT_SET_DEVICE_DATA :: int where "ANT_SET_DEVICE_DATA = 0x83"
definition ANT_GET_DEVICE_DATA :: int where "ANT_GET_DEVICE_DATA = 0x84"
definition ANT_ALARM_INDICATION :: int where "ANT_ALARM_INDICATION = 0x85"
definition ANT_CLEAR_ACTIVE_ALARMS :: int where "ANT_CLEAR_ACTIVE_ALARMS = 0x86"
definition ANT_GET_ALARM_STATUS :: int where "ANT_GET_ALARM_STATUS = 0x87"
definition ANT_GET_NUM_ANTENNAS :: int where "ANT_GET_NUM_ANTENNAS = 0x88"
definition ANT_SEND_CONFIG_DATA :: int where "ANT_SEND_CONFIG_DATA = 0x89"

lemmas procedure_codes = RESET_SOFTWARE_def GET_ALARM_STATUS_def GET_INFORMATION_def
  CLEAR_ACTIVE_ALARMS_def ALARM_INDICATION_def SELF_TEST_def GET_DEVICE_DATA_def ALARM_SUBSCRIBE_def
  CALIBRATE_def SEND_CONFIG_DATA_def SET_TILT_def GET_TILT_def ANT_CALIBRATE_def ANT_SET_TILT_def
  ANT_GET_TILT_def ANT_GET_DEVICE_DATA_def ANT_ALARM_INDICATION_def ANT_CLEAR_ACTIVE_ALARMS_def
  ANT_GET_ALARM_STATUS_def ANT_GET_NUM_ANTENNAS_def ANT_SEND_CONFIG_DATA_def

definition RETURN_CODES :: "(int \<times> string) list" where
  "RETURN_CODES =
     [(0x00, ''OK''), (0x02, ''MotorJam''), (0x03, ''ActuatorJam''), (0x05, ''Busy''),
      (0x06, ''ChecksumError''), (0x0B, ''FAIL''), (0x0E, ''NotCalibrated''), (0x0F, ''NotConfigured''),
      (0x11, ''HardwareError''), (0x13, ''OutOfRange''), (0x19, ''UnknownProcedure''),
      (0x1A, ''MinorTMAFault''), (0x1B, ''MajorTMAFault''), (0x1C, ''UnsupportedValue''),
      (0x1D, ''ReadOnly''), (0x1E, ''UnknownParameter''), (0x21, ''WorkingSoftwareMissing''),
      (0x22, ''InvalidFileContent''), (0x24, ''FormatError''), (0x25, ''UnsupportedProcedure''),
      (0x26, ''InvalidProcedureSequence''), (0x27, ''ActuatorInterference'')]"

definition rc_name :: "int \<Rightarrow> string" where
  "rc_name code = (case map_of RETURN_CODES code of None \<Rightarrow> show_0x code | Some name \<Rightarrow> name)"

text \<open>The text of a \<open>RetError\<close>.\<close>

definition ret_error_text :: "int \<Rightarrow> int \<Rightarrow> string" where
  "ret_error_text proc code = ''procedure '' @ show_0x proc @ '' failed: '' @ rc_name code"

section \<open>struct\<close>

text \<open>\<open>struct.pack\<close> and \<open>struct.unpack\<close> with the formats \<open>"<H"\<close> and \<open>"<h"\<close>.\<close>

definition pack_H :: "int \<Rightarrow> bytes res" where
  "pack_H n = (if 0 \<le> n \<and> n < 65536 then Inr [word_of_int n, word_of_int (drop_bit 8 n)] else Inl StructError)"

definition pack_h :: "int \<Rightarrow> bytes res" where
  "pack_h n = (if - 32768 \<le> n \<and> n < 32768 then Inr [word_of_int n, word_of_int (drop_bit 8 n)]
               else Inl StructError)"

definition unpack_H :: "bytes \<Rightarrow> int res" where
  "unpack_H b = (case b of [lo, hi] \<Rightarrow> Inr (uint lo + 256 * uint hi) | _ \<Rightarrow> Inl StructError)"

definition unpack_h :: "bytes \<Rightarrow> int res" where
  "unpack_h b = (case b of [lo, hi] \<Rightarrow> Inr (uint lo + 256 * sint hi) | _ \<Rightarrow> Inl StructError)"

text \<open>\<open>round\<close> rounds to the nearest integer and ties to the even one.\<close>

definition py_round :: "rat \<Rightarrow> int" where
  "py_round x =
     (let f = \<lfloor>x\<rfloor>; d = x - of_int f
      in if d < 1 / 2 then f else if d > 1 / 2 then f + 1 else if even f then f else f + 1)"

text \<open>\<open>b.decode("ascii", "replace")\<close>, as code points.\<close>

definition decode_ascii :: "bytes \<Rightarrow> nat list" where
  "decode_ascii b = map (\<lambda>c. if unat c < 128 then unat c else 0xFFFD) b"

section \<open>The device\<close>

type_synonym 's transport_ops = "int \<Rightarrow> bytes \<Rightarrow> time \<Rightarrow> ('s, bytes) io"

record ret =
  r_addr :: int
  r_antenna :: "int option"

text \<open>\<open>_proc\<close>, in three parts: the message, the reply, and the call.\<close>

definition proc_message :: "int option \<Rightarrow> int \<Rightarrow> bytes \<Rightarrow> bytes res" where
  "proc_message antenna code data =
     res_bind (case antenna of None \<Rightarrow> Inr [] | Some a \<Rightarrow> py_bytes [a]) (\<lambda>prefix.
     res_bind (py_bytes [code]) (\<lambda>head.
     res_bind (pack_H (int (length prefix) + int (length data))) (\<lambda>len.
       Inr (head @ len @ prefix @ data))))"

definition proc_reply :: "int option \<Rightarrow> int \<Rightarrow> bytes \<Rightarrow> bytes res" where
  "proc_reply antenna code resp =
     (if length resp < 3 \<or> uint (hd resp) \<noteq> code
      then Inl (AisgError (''malformed response: '' @ hex_sp resp))
      else res_bind (unpack_H (take 2 (drop 1 resp))) (\<lambda>dlen.
        let body = take (nat dlen) (drop 3 resp);
            body = (if antenna \<noteq> None then drop 1 body else body)
        in case body of
             [] \<Rightarrow> Inl (AisgError ''empty response body'')
           | rc # rest \<Rightarrow> if rc \<noteq> 0 then Inl (RetError code (uint rc)) else Inr rest))"

definition proc :: "'s transport_ops \<Rightarrow> ret \<Rightarrow> int \<Rightarrow> bytes \<Rightarrow> time \<Rightarrow> ('s, bytes) io" where
  "proc req r code data timeout =
     io_bind (io_res (proc_message (r_antenna r) code data)) (\<lambda>msg.
     io_bind (req (r_addr r) msg timeout) (\<lambda>resp. io_res (proc_reply (r_antenna r) code resp)))"

definition proc_timeout :: time where "proc_timeout = 3000000"

definition code_for :: "ret \<Rightarrow> int \<Rightarrow> int \<Rightarrow> int" where
  "code_for r multi single = (if r_antenna r \<noteq> None then multi else single)"

text \<open>The loop of \<open>get_information\<close> over the four keys, with \<open>d\<close> from index \<open>i\<close> on.\<close>

fun information_fields :: "string list \<Rightarrow> bytes \<Rightarrow> (string \<times> nat list) list" where
  "information_fields [] d = []"
| "information_fields (key # keys) [] = []"
| "information_fields (key # keys) (n # d) =
     (key, decode_ascii (take (unat n) d)) # information_fields keys (drop (unat n) d)"

definition information_keys :: "string list" where
  "information_keys = [''product_number'', ''serial_number'', ''hardware_version'', ''software_version'']"

definition get_information :: "'s transport_ops \<Rightarrow> ret \<Rightarrow> ('s, (string \<times> nat list) list) io" where
  "get_information req r =
     io_bind (proc req r GET_INFORMATION [] proc_timeout) (\<lambda>d. io_return (information_fields information_keys d))"

definition get_alarm_status :: "'s transport_ops \<Rightarrow> ret \<Rightarrow> ('s, string list) io" where
  "get_alarm_status req r =
     io_bind (proc req r (code_for r ANT_GET_ALARM_STATUS GET_ALARM_STATUS) [] proc_timeout) (\<lambda>d.
       io_return (map (\<lambda>c. rc_name (uint c)) d))"

definition clear_alarms :: "'s transport_ops \<Rightarrow> ret \<Rightarrow> ('s, unit) io" where
  "clear_alarms req r =
     io_seq (proc req r (code_for r ANT_CLEAR_ACTIVE_ALARMS CLEAR_ACTIVE_ALARMS) [] proc_timeout) (io_return ())"

definition alarm_subscribe :: "'s transport_ops \<Rightarrow> ret \<Rightarrow> ('s, unit) io" where
  "alarm_subscribe req r = io_seq (proc req r ALARM_SUBSCRIBE [] proc_timeout) (io_return ())"

definition self_test :: "'s transport_ops \<Rightarrow> ret \<Rightarrow> ('s, unit) io" where
  "self_test req r = io_seq (proc req r SELF_TEST [] 30000000) (io_return ())"

definition reset_software :: "'s transport_ops \<Rightarrow> ret \<Rightarrow> ('s, unit) io" where
  "reset_software req r = io_seq (proc req r RESET_SOFTWARE [] proc_timeout) (io_return ())"

definition calibrate :: "'s transport_ops \<Rightarrow> ret \<Rightarrow> ('s, unit) io" where
  "calibrate req r = io_seq (proc req r (code_for r ANT_CALIBRATE CALIBRATE) [] 120000000) (io_return ())"

definition set_tilt :: "'s transport_ops \<Rightarrow> ret \<Rightarrow> rat \<Rightarrow> ('s, unit) io" where
  "set_tilt req r degrees =
     io_bind (io_res (pack_h (py_round (degrees * 10)))) (\<lambda>data.
     io_seq (proc req r (code_for r ANT_SET_TILT SET_TILT) data 60000000) (io_return ()))"

definition get_tilt :: "'s transport_ops \<Rightarrow> ret \<Rightarrow> ('s, rat) io" where
  "get_tilt req r =
     io_bind (proc req r (code_for r ANT_GET_TILT GET_TILT) [] proc_timeout) (\<lambda>d.
     io_bind (io_res (unpack_h (take 2 d))) (\<lambda>n. io_return (of_int n / 10)))"

text \<open>\<open>num_antennas\<close> changes the object and changes it back in its \<open>finally\<close> clause.\<close>

definition num_antennas :: "'s transport_ops \<Rightarrow> ret \<Rightarrow> 's \<Rightarrow> int res \<times> ret \<times> 's" where
  "num_antennas req r s =
     (let saved = r_antenna r;
          r = r\<lparr>r_antenna := None\<rparr>;
          (x, s') = io_bind (proc req r ANT_GET_NUM_ANTENNAS [] proc_timeout)
            (\<lambda>d. case d of [] \<Rightarrow> io_raise IndexError | n # _ \<Rightarrow> io_return (uint n)) s
      in (x, r\<lparr>r_antenna := saved\<rparr>, s'))"

definition get_device_data :: "'s transport_ops \<Rightarrow> ret \<Rightarrow> int \<Rightarrow> ('s, bytes) io" where
  "get_device_data req r fid =
     io_bind (io_res (py_bytes [fid])) (\<lambda>data.
       proc req r (code_for r ANT_GET_DEVICE_DATA GET_DEVICE_DATA) data proc_timeout)"

definition send_config_data :: "'s transport_ops \<Rightarrow> ret \<Rightarrow> bytes \<Rightarrow> ('s, unit) io" where
  "send_config_data req r blob =
     io_seq (proc req r (code_for r ANT_SEND_CONFIG_DATA SEND_CONFIG_DATA) blob 30000000) (io_return ())"

section \<open>What the client relies on, and what it keeps\<close>

text \<open>
  A transport keeps an invariant of its state and raises only exceptions of a known sort; so does
  every procedure, which adds its own sorts to them.
\<close>

definition proc_error :: "(exn \<Rightarrow> bool) \<Rightarrow> exn \<Rightarrow> bool" where
  "proc_error E e \<longleftrightarrow> E e \<or> (\<exists>m. e = AisgError m) \<or> (\<exists>c rc. e = RetError c rc) \<or> e = StructError \<or> e = ValueError"

lemma proc_reply_error: "proc_reply a c resp = Inl e \<Longrightarrow> proc_error E e"
proof -
  assume e: "proc_reply a c resp = Inl e"
  show ?thesis
  proof (cases "length resp < 3")
    case False
    then obtain x y z rest where "resp = x # y # z # rest"
      by (cases resp; cases "tl resp"; cases "tl (tl resp)") auto
    with e show ?thesis
      by (auto simp: proc_reply_def proc_error_def unpack_H_def Let_def split: if_splits list.splits)
  qed (use e in \<open>auto simp: proc_reply_def proc_error_def\<close>)
qed

lemma safe_own [safe_intros]:
  "io_safe I (proc_error E) (io_res (pack_h n))" "io_safe I (proc_error E) (io_res (py_bytes b))"
  "io_safe I (proc_error E) (io_res (unpack_h d))" "io_safe I (proc_error E) (io_res (proc_message a c d))"
  "io_safe I (proc_error E) (io_res (proc_reply a c resp))"
  by (rule io_safe_res, auto simp: proc_error_def pack_h_def py_bytes_def unpack_h_def proc_message_def
      pack_H_def dest: proc_reply_error [where E = E, unfolded proc_error_def] split: if_splits list.splits option.splits)+

locale transport =
  fixes req :: "'s transport_ops" and I :: "'s \<Rightarrow> bool" and E :: "exn \<Rightarrow> bool"
  assumes req_safe: "io_safe I E (req a m t)"
begin

lemma safe_req [safe_intros]: "io_safe I (proc_error E) (req a m t)"
  by (rule io_safe_mono [OF req_safe]) (simp add: proc_error_def)

lemma safe_proc [safe_intros]: "io_safe I (proc_error E) (proc req r c d t)"
  unfolding proc_def by (intro safe_intros)

lemma safe_procedures [safe_intros]:
  "io_safe I (proc_error E) (get_information req r)" "io_safe I (proc_error E) (get_alarm_status req r)"
  "io_safe I (proc_error E) (clear_alarms req r)" "io_safe I (proc_error E) (alarm_subscribe req r)"
  "io_safe I (proc_error E) (self_test req r)" "io_safe I (proc_error E) (reset_software req r)"
  "io_safe I (proc_error E) (calibrate req r)" "io_safe I (proc_error E) (set_tilt req r x)"
  "io_safe I (proc_error E) (get_tilt req r)" "io_safe I (proc_error E) (get_device_data req r f)"
  "io_safe I (proc_error E) (send_config_data req r b)"
  unfolding get_information_def get_alarm_status_def clear_alarms_def alarm_subscribe_def self_test_def
    reset_software_def calibrate_def set_tilt_def get_tilt_def get_device_data_def send_config_data_def
  by (intro safe_intros)+

text \<open>\<open>num_antennas\<close> gives the object back as it was, whatever happens in between.\<close>

lemma num_antennas_restores: "num_antennas req r s = (x, r', s') \<Longrightarrow> r' = r \<and> (I s \<longrightarrow> I s')"
proof -
  assume n: "num_antennas req r s = (x, r', s')"
  have "io_safe I (\<lambda>e. proc_error E e \<or> e = IndexError) (io_bind (proc req (r\<lparr>r_antenna := None\<rparr>) ANT_GET_NUM_ANTENNAS [] proc_timeout)
      (\<lambda>d. case d of [] \<Rightarrow> io_raise IndexError | n # _ \<Rightarrow> io_return (uint n)))"
    by (rule io_safe_bind [OF io_safe_mono [OF safe_proc]])
      (auto intro: safe_intros io_safe_raise split: list.split)
  from io_safe_keeps [OF this, of s] n show ?thesis
    unfolding num_antennas_def Let_def by (auto split: prod.splits)
qed

end

section \<open>Messages and replies\<close>

text \<open>A reply as a device composes it.\<close>

definition device_reply :: "int option \<Rightarrow> byte \<Rightarrow> byte \<Rightarrow> bytes \<Rightarrow> bytes" where
  "device_reply antenna code rc data =
     (let body = (case antenna of None \<Rightarrow> [] | Some a \<Rightarrow> [word_of_int a]) @ rc # data;
          n = int (length body)
      in code # word_of_int n # word_of_int (drop_bit 8 n) # body)"

lemma unpack_pack_H: "pack_H n = Inr b \<Longrightarrow> unpack_H b = Inr n"
proof -
  assume "pack_H n = Inr b"
  then have n: "0 \<le> n" "n < 65536" and b: "b = [word_of_int n, word_of_int (drop_bit 8 n)]"
    by (auto simp: pack_H_def split: if_splits)
  have "uint (word_of_int n :: byte) = n mod 256" by (simp add: uint_word_of_int)
  moreover have "uint (word_of_int (drop_bit 8 n) :: byte) = n div 256"
    using n by (simp add: uint_word_of_int drop_bit_eq_div)
  ultimately show ?thesis by (simp add: unpack_H_def b)
qed

lemma unpack_pack_h: "pack_h n = Inr b \<Longrightarrow> unpack_h b = Inr n \<and> length b = 2"
proof -
  assume "pack_h n = Inr b"
  then have n: "- 32768 \<le> n" "n < 32768" and b: "b = [word_of_int n, word_of_int (drop_bit 8 n)]"
    by (auto simp: pack_h_def split: if_splits)
  have "uint (word_of_int n :: byte) = n mod 256" by (simp add: uint_word_of_int)
  moreover have "sint (word_of_int (n div 256) :: byte) = n div 256"
  proof -
    have "- 128 \<le> n div 256" "n div 256 < 128" using n by linarith+
    then show ?thesis by (simp add: sint_sbintrunc' signed_take_bit_int_eq_self)
  qed
  ultimately show ?thesis by (simp add: unpack_h_def b drop_bit_eq_div)
qed

lemma pack_H_ok: "0 \<le> n \<Longrightarrow> n < 65536 \<Longrightarrow> pack_H n = Inr [word_of_int n, word_of_int (drop_bit 8 n)]"
  by (simp add: pack_H_def)

text \<open>The body of a reply, past its procedure code and length.\<close>

lemma device_reply_parts:
  assumes "length data < 65534"
  shows "\<exists>body lo hi. device_reply antenna code rc data = code # lo # hi # body
    \<and> unpack_H [lo, hi] = Inr (int (length body))
    \<and> (if antenna \<noteq> None then drop 1 body else body) = rc # data"
proof -
  let ?body = "(case antenna of None \<Rightarrow> [] | Some a \<Rightarrow> [word_of_int a]) @ rc # data"
  have "int (length ?body) < 65536" using assms by (cases antenna) auto
  from unpack_pack_H [OF pack_H_ok [OF _ this]]
  have "unpack_H [word_of_int (int (length ?body)), word_of_int (drop_bit 8 (int (length ?body)))]
      = Inr (int (length ?body))" by simp
  then show ?thesis
    by (intro exI [of _ ?body] exI [of _ "word_of_int (int (length ?body))"]
        exI [of _ "word_of_int (drop_bit 8 (int (length ?body)))"])
      (simp add: device_reply_def Let_def split: option.split)
qed

lemma proc_reply_cut:
  "unpack_H [lo, hi] = Inr (int (length body)) \<Longrightarrow>
    proc_reply antenna (uint code) (code # lo # hi # body @ trailing) =
      (case (if antenna \<noteq> None then drop 1 body else body) of
         [] \<Rightarrow> Inl (AisgError ''empty response body'')
       | rc # rest \<Rightarrow> if rc \<noteq> 0 then Inl (RetError (uint code) (uint rc)) else Inr rest)"
  by (simp add: proc_reply_def)

lemma proc_reply_understood:
  assumes "length data < 65534"
  shows "proc_reply antenna (uint code) (device_reply antenna code rc data @ trailing)
    = (if rc = 0 then Inr data else Inl (RetError (uint code) (uint rc)))"
proof -
  obtain body lo hi where "device_reply antenna code rc data = code # lo # hi # body"
    and "unpack_H [lo, hi] = Inr (int (length body))"
    and "(if antenna \<noteq> None then drop 1 body else body) = rc # data"
    using device_reply_parts [OF assms] by blast
  then show ?thesis
    using proc_reply_cut [of lo hi body antenna code trailing] by simp
qed

lemma proc_reply_total:
  "case proc_reply antenna c resp of
     Inr data \<Rightarrow> 4 \<le> length resp \<and> uint (hd resp) = c
   | Inl e \<Rightarrow> (\<exists>m. e = AisgError m) \<or> (\<exists>rc. e = RetError c rc \<and> rc \<noteq> 0)"
proof (cases "length resp < 3")
  case False
  then obtain x y z rest where "resp = x # y # z # rest"
    by (cases resp; cases "tl resp"; cases "tl (tl resp)") auto
  then show ?thesis
    by (cases rest)
      (auto simp: proc_reply_def unpack_H_def Let_def unsigned_eq_0_iff
        split: if_splits list.splits sum.splits)
qed (simp add: proc_reply_def)

section \<open>Properties\<close>



section \<open>Tilt\<close>

lemma py_round_near: "\<bar>of_int (py_round x) - x\<bar> \<le> 1 / 2"
proof -
  have "of_int \<lfloor>x\<rfloor> \<le> x" and "x < of_int \<lfloor>x\<rfloor> + 1" using floor_correct [of x] by simp_all
  then show ?thesis unfolding py_round_def Let_def by (simp add: abs_le_iff)
qed

lemma py_round_int [simp]: "py_round (of_int n) = n"
  by (simp add: py_round_def)

text \<open>The message of a procedure whose arguments are in range.\<close>

definition antenna_ok :: "int option \<Rightarrow> bool" where
  "antenna_ok antenna \<longleftrightarrow> (case antenna of None \<Rightarrow> True | Some a \<Rightarrow> 0 \<le> a \<and> a < 256)"

definition antenna_prefix :: "int option \<Rightarrow> bytes" where
  "antenna_prefix antenna = (case antenna of None \<Rightarrow> [] | Some a \<Rightarrow> [word_of_int a])"

lemma proc_message_ok:
  assumes "antenna_ok antenna" and "length data < 65535" and "0 \<le> code" and "code < 256"
  shows "\<exists>lo hi. proc_message antenna code data = Inr (word_of_int code # lo # hi # antenna_prefix antenna @ data)
    \<and> unpack_H [lo, hi] = Inr (int (length (antenna_prefix antenna @ data)))"
proof -
  let ?n = "int (length (antenna_prefix antenna)) + int (length data)"
  have n: "?n < 65536" using assms(2) by (cases antenna) (auto simp: antenna_prefix_def)
  have "proc_message antenna code data
      = Inr (word_of_int code # word_of_int ?n # word_of_int (drop_bit 8 ?n) # antenna_prefix antenna @ data)"
    using assms n
    by (cases antenna) (auto simp: proc_message_def antenna_prefix_def antenna_ok_def py_bytes_def pack_H_def)
  moreover have "unpack_H [word_of_int ?n, word_of_int (drop_bit 8 ?n)] = Inr ?n"
    using unpack_pack_H [OF pack_H_ok [OF _ n]] by simp
  ultimately show ?thesis by auto
qed

text \<open>
  A device that stores a tilt: it answers SetTilt by keeping the two octets and GetTilt by sending
  them back. \<open>tilt_of\<close> reads them from the state behind the transport.
\<close>

definition keeps_tilt :: "'s transport_ops \<Rightarrow> ret \<Rightarrow> ('s \<Rightarrow> bytes) \<Rightarrow> bool" where
  "keeps_tilt req r tilt_of \<longleftrightarrow>
     (\<forall>d m t s. length d = 2 \<longrightarrow> proc_message (r_antenna r) (code_for r ANT_SET_TILT SET_TILT) d = Inr m \<longrightarrow>
        (\<exists>s'. req (r_addr r) m t s =
           (Inr (device_reply (r_antenna r) (word_of_int (code_for r ANT_SET_TILT SET_TILT)) 0 []), s')
           \<and> tilt_of s' = d))
     \<and> (\<forall>m t s. length (tilt_of s) = 2 \<longrightarrow>
          proc_message (r_antenna r) (code_for r ANT_GET_TILT GET_TILT) [] = Inr m \<longrightarrow>
          fst (req (r_addr r) m t s) =
            Inr (device_reply (r_antenna r) (word_of_int (code_for r ANT_GET_TILT GET_TILT)) 0 (tilt_of s)))"

text \<open>
  C28: the tilt survives the wire. With a device that stores what SetTilt sends, setting a tilt and
  reading it back gives the tilt to within half of a tenth of a degree, and exactly when it is a whole
  number of tenths, negative ones included. A tilt that does not fit sixteen bits raises before
  anything is sent.
\<close>

theorem tilt_roundtrip:
  assumes dev: "keeps_tilt req r tilt_of" and ant: "antenna_ok (r_antenna r)"
  shows "if - 32768 \<le> py_round (10 * deg) \<and> py_round (10 * deg) < 32768
    then \<exists>tilt s'. io_seq (set_tilt req r deg) (get_tilt req r) s = (Inr tilt, s')
      \<and> \<bar>tilt - deg\<bar> \<le> 1 / 20 \<and> (\<forall>n. deg = of_int n / 10 \<longrightarrow> tilt = deg)
    else set_tilt req r deg s = (Inl StructError, s)"
proof (cases "- 32768 \<le> py_round (10 * deg) \<and> py_round (10 * deg) < 32768")
  case True
  let ?n = "py_round (10 * deg)"
  obtain d where d: "pack_h ?n = Inr d" using True by (simp add: pack_h_def)
  note n = unpack_pack_h [OF d]
  have codes: "0 \<le> code_for r ANT_SET_TILT SET_TILT" "code_for r ANT_SET_TILT SET_TILT < 256"
    "0 \<le> code_for r ANT_GET_TILT GET_TILT" "code_for r ANT_GET_TILT GET_TILT < 256"
    by (auto simp: code_for_def procedure_codes)
  obtain m where m: "proc_message (r_antenna r) (code_for r ANT_SET_TILT SET_TILT) d = Inr m"
    using proc_message_ok [OF ant _ codes(1,2), of d] n by auto
  obtain m' where m': "proc_message (r_antenna r) (code_for r ANT_GET_TILT GET_TILT) [] = Inr m'"
    using proc_message_ok [OF ant _ codes(3,4), of "[]"] by auto
  obtain s1 where s1: "req (r_addr r) m 60000000 s =
      (Inr (device_reply (r_antenna r) (word_of_int (code_for r ANT_SET_TILT SET_TILT)) 0 []), s1)"
      and t1: "tilt_of s1 = d"
    using dev m n unfolding keeps_tilt_def by blast
  obtain s2 where s2: "req (r_addr r) m' proc_timeout s1 =
      (Inr (device_reply (r_antenna r) (word_of_int (code_for r ANT_GET_TILT GET_TILT)) 0 d), s2)"
    using dev m' n t1 unfolding keeps_tilt_def by (metis prod.collapse)
  have u: "uint (word_of_int (code_for r ANT_SET_TILT SET_TILT) :: byte) = code_for r ANT_SET_TILT SET_TILT"
    "uint (word_of_int (code_for r ANT_GET_TILT GET_TILT) :: byte) = code_for r ANT_GET_TILT GET_TILT"
    using codes by (simp_all add: uint_word_of_int_byte)
  have "io_seq (set_tilt req r deg) (get_tilt req r) s = (Inr (of_int ?n / 10), s2)"
    using proc_reply_understood [of "[]" "r_antenna r" _ 0 "[]"]
      proc_reply_understood [of d "r_antenna r" "word_of_int (code_for r ANT_GET_TILT GET_TILT)" 0 "[]"] n
    by (simp add: set_tilt_def get_tilt_def proc_def io_defs mult.commute [of deg] d m m' s1 s2
        u [symmetric, THEN arg_cong [where f = "\<lambda>c. proc_reply _ c _"]])
  moreover have "\<bar>of_int ?n / 10 - deg\<bar> \<le> 1 / 20" using py_round_near [of "10 * deg"]
    unfolding abs_le_iff by (simp add: field_simps)
  moreover have "deg = of_int n / 10 \<Longrightarrow> of_int ?n / 10 = deg" for n
  proof -
    assume n: "deg = of_int n / 10"
    then have "10 * deg = of_int n" by simp
    then show ?thesis unfolding n by simp
  qed
  ultimately show ?thesis unfolding if_P [OF True] by blast
next
  case False
  then show ?thesis by (auto simp: set_tilt_def pack_h_def io_defs mult.commute [of deg])
qed

text \<open>A device with one antenna that stores its tilt: the state is the two octets.\<close>

definition tilt_box :: "bytes transport_ops" where
  "tilt_box addr m t s =
     (case m of c # _ # _ # d \<Rightarrow>
        (if uint c = SET_TILT then (Inr (device_reply None c 0 []), d) else (Inr (device_reply None c 0 s), s))
      | _ \<Rightarrow> (Inr [], s))"

lemma tilt_box_keeps_tilt: "keeps_tilt tilt_box \<lparr>r_addr = 1, r_antenna = None\<rparr> id"
  by (auto simp: keeps_tilt_def tilt_box_def proc_message_def code_for_def procedure_codes py_bytes_def
      pack_H_def split: if_splits)

theorem tilt_roundtrip_witness:
  "\<exists>tilt s'. io_seq (set_tilt tilt_box \<lparr>r_addr = 1, r_antenna = None\<rparr> (- 21 / 10))
      (get_tilt tilt_box \<lparr>r_addr = 1, r_antenna = None\<rparr>) [0, 0] = (Inr tilt, s')
    \<and> \<bar>tilt - (- 21 / 10)\<bar> \<le> 1 / 20 \<and> (\<forall>n. (- 21 / 10) = (of_int n / 10 :: rat) \<longrightarrow> tilt = - 21 / 10)"
  using tilt_roundtrip [OF tilt_box_keeps_tilt, of "- 21 / 10" "[0, 0]"] py_round_int [of "- 21"]
  by (simp add: antenna_ok_def)

section \<open>Identity\<close>

text \<open>A field as the device sends it: its length, then its octets.\<close>

definition counted :: "bytes \<Rightarrow> bytes" where
  "counted v = word_of_nat (length v) # v"

lemma information_fields_counted:
  "\<forall>v \<in> set vs. length v < 256 \<Longrightarrow>
    information_fields keys (concat (map counted vs)) = zip keys (map decode_ascii vs)"
proof (induction vs arbitrary: keys)
  case (Cons v vs)
  then show ?case
    by (cases keys) (auto simp: counted_def unat_word_of_nat_byte)
next
  case Nil
  then show ?case by (cases keys) simp_all
qed

text \<open>
  The identity block is read back as the device wrote it. Any number of counted fields comes back
  under the four keys in order, a block with fewer fields giving only the first keys, text outside
  ASCII one replacement character an octet. Nothing is
  read past the end of the block.
\<close>

theorem information_roundtrip:
  assumes "\<forall>v \<in> set vs. length v < 256"
    and "req (r_addr r) [0x05, 0, 0] proc_timeout s
      = (Inr (device_reply None 0x05 0 (concat (map counted vs))), s')"
    and "r_antenna r = None" and "length (concat (map counted vs)) < 65534"
  shows "get_information req r s = (Inr (zip information_keys (map decode_ascii vs)), s')"
proof -
  have "proc_message None GET_INFORMATION [] = Inr [0x05, 0, 0]"
    by (simp add: proc_message_def py_bytes_def pack_H_def GET_INFORMATION_def)
  moreover have "proc_reply None GET_INFORMATION (device_reply None 0x05 0 (concat (map counted vs)))
      = Inr (concat (map counted vs))"
    using proc_reply_understood [OF assms(4), of None 5 0 "[]"] by (simp add: GET_INFORMATION_def)
  ultimately show ?thesis
    using information_fields_counted [OF assms(1)] assms(2,3)
    by (simp add: get_information_def proc_def io_defs)
qed

theorem information_roundtrip_witness:
  "fst (get_information (\<lambda>a m t s. (Inr (device_reply None 0x05 0 (concat (map counted [[0x41], [0x42, 0xFF]]))), s))
      \<lparr>r_addr = 1, r_antenna = None\<rparr> ()) = Inr [(''product_number'', [0x41]), (''serial_number'', [0x42, 0xFFFD])]"
  using information_roundtrip [of "[[0x41], [0x42, 0xFF]]"
      "\<lambda>a m t s. (Inr (device_reply None 0x05 0 (concat (map counted [[0x41], [0x42, 0xFF]]))), s)"
      "\<lparr>r_addr = 1, r_antenna = None\<rparr>" "()" "()"]
  by (simp add: counted_def information_keys_def decode_ascii_def)

end
