(* ===== verification/Session_Alarms.thy ===== *)
theory Session_Alarms
  imports Link_Safe Retap "HOL-Library.Char_ord" "HOL-Library.List_Lexorder"
begin

text \<open>
  \<open>openaisg/session.py\<close>, lines 80 to 156: the classification of an inbound layer-7 payload
  (\<open>RetapRouter\<close>), the transport that gives \<open>Ret\<close> the transfer of \<open>AisgLink\<close> (\<open>SerialTransport\<close>),
  and the set of active alarms with its edges (\<open>AlarmTracker\<close>).

  Properties: every payload is classified, and only the reply to the request in flight is accepted;
  the edges that the tracker emits are exactly the changes of the alarm set, in sorted order, and a
  repeated report is silent.
\<close>

section \<open>Routing\<close>

definition INDICATION_CODES :: "int list" where
  "INDICATION_CODES = [ALARM_INDICATION, ANT_ALARM_INDICATION]"

definition retap_router :: "int option \<Rightarrow> router" where
  "retap_router expected payload =
     (case payload of
        [] \<Rightarrow> UNEXPECTED
      | code # _ \<Rightarrow>
          if uint code \<in> set INDICATION_CODES then INDICATION
          else if expected = None \<or> expected = Some (uint code) then ACCEPT
          else UNEXPECTED)"

definition transport_opts ::
  "bytes \<Rightarrow> time \<Rightarrow> (bytes \<Rightarrow> 'w \<Rightarrow> 'w) option \<Rightarrow> (int \<Rightarrow> bool \<Rightarrow> 'w \<Rightarrow> 'w) option \<Rightarrow> 'w xopts" where
  "transport_opts message timeout on_indication on_poll =
     xdefaults\<lparr>opt_timeout := timeout,
       opt_router := retap_router (case message of [] \<Rightarrow> None | code # _ \<Rightarrow> Some (uint code)),
       opt_on_poll := on_poll, opt_on_indication := on_indication\<rparr>"

definition transport_request ::
  "'w port_ops \<Rightarrow> nat \<Rightarrow> (bytes \<Rightarrow> 'w \<Rightarrow> 'w) option \<Rightarrow> (int \<Rightarrow> bool \<Rightarrow> 'w \<Rightarrow> 'w) option \<Rightarrow>
     'w link transport_ops" where
  "transport_request P fuel on_indication on_poll addr message timeout =
     exchange P fuel addr message (transport_opts message timeout on_indication on_poll)"

text \<open>The procedures over the link: what they keep is that of the link, what they raise is known.\<close>

interpretation over_link: transport "transport_request P fuel on_indication on_poll" link_ok transfer_exn
  for P :: "'w port_ops" and fuel on_indication on_poll
  by unfold_locales (simp add: transport_request_def safe_exchange)

section \<open>Alarms\<close>

datatype alarm_event = Raised string | Cleared string

definition real_alarms :: "string set \<Rightarrow> string set" where
  "real_alarms names = {n \<in> names. n \<noteq> [] \<and> n \<noteq> ''OK''}"

definition alarm_snapshot :: "string set \<Rightarrow> bool \<Rightarrow> string set \<Rightarrow> alarm_event list \<times> string set" where
  "alarm_snapshot names emit active =
     (let new = real_alarms names in
      if \<not> emit then ([], new)
      else (map Raised (sorted_list_of_set (new - active))
              @ map Cleared (sorted_list_of_set (active - new)), new))"

definition alarm_indicate :: "bytes \<Rightarrow> string set \<Rightarrow> alarm_event list \<times> string set" where
  "alarm_indicate payload active =
     alarm_snapshot (active \<union> real_alarms (set (map (\<lambda>c. rc_name (uint c)) (drop 3 payload)))) True active"

text \<open>What a client does with the events it receives.\<close>

fun alarm_apply :: "alarm_event \<Rightarrow> string set \<Rightarrow> string set" where
  "alarm_apply (Raised n) s = insert n s"
| "alarm_apply (Cleared n) s = s - {n}"

definition alarm_replay :: "alarm_event list \<Rightarrow> string set \<Rightarrow> string set" where
  "alarm_replay evs s = foldl (\<lambda>s e. alarm_apply e s) s evs"

lemma alarm_replay_append: "alarm_replay (xs @ ys) s = alarm_replay ys (alarm_replay xs s)"
  by (simp add: alarm_replay_def)

lemma alarm_replay_Raised: "alarm_replay (map Raised ns) s = s \<union> set ns"
  by (induction ns arbitrary: s) (auto simp: alarm_replay_def)

lemma alarm_replay_Cleared: "alarm_replay (map Cleared ns) s = s - set ns"
  by (induction ns arbitrary: s) (auto simp: alarm_replay_def)

text \<open>A tracker holds finitely many alarms, and never \<open>OK\<close> or an empty name.\<close>

definition alarms_ok :: "string set \<Rightarrow> bool" where
  "alarms_ok active \<longleftrightarrow> finite active \<and> real_alarms active = active"

lemma alarms_ok_empty [simp]: "alarms_ok {}"
  by (simp add: alarms_ok_def real_alarms_def)

lemma alarms_ok_real: "finite names \<Longrightarrow> alarms_ok (real_alarms names)"
  by (auto simp: alarms_ok_def real_alarms_def)

lemma alarms_ok_snapshot [simp]: "finite names \<Longrightarrow> alarms_ok (snd (alarm_snapshot names emit active))"
  by (simp add: alarm_snapshot_def Let_def alarms_ok_real)

lemma alarms_ok_indicate [simp]: "alarms_ok active \<Longrightarrow> alarms_ok (snd (alarm_indicate pl active))"
  unfolding alarm_indicate_def by (rule alarms_ok_snapshot) (auto simp: alarms_ok_def real_alarms_def)

lemma indicate_set:
  "alarms_ok active \<Longrightarrow> snd (alarm_indicate pl active)
    = active \<union> real_alarms (set (map (\<lambda>c. rc_name (uint c)) (drop 3 pl)))"
  by (auto simp: alarm_indicate_def alarm_snapshot_def Let_def alarms_ok_def real_alarms_def)

lemma snapshot_events:
  assumes "finite names" and "alarms_ok active" and "alarm_snapshot names True active = (evs, new)"
  shows "new = real_alarms names" "alarm_replay evs active = new" "distinct evs"
    "set evs = Raised ` (new - active) \<union> Cleared ` (active - new)"
proof -
  have new: "new = real_alarms names" and evs: "evs = map Raised (sorted_list_of_set (new - active))
      @ map Cleared (sorted_list_of_set (active - new))"
    using assms(3) by (auto simp: alarm_snapshot_def Let_def)
  have fin: "finite (new - active)" "finite (active - new)"
    using assms(1,2) new by (auto simp: alarms_ok_def real_alarms_def)
  show "new = real_alarms names" by (rule new)
  show "alarm_replay evs active = new"
    unfolding evs alarm_replay_append alarm_replay_Raised alarm_replay_Cleared using fin by auto
  show "distinct evs" unfolding evs using fin by (auto simp: distinct_map inj_on_def)
  show "set evs = Raised ` (new - active) \<union> Cleared ` (active - new)" unfolding evs using fin by simp
qed

section \<open>Properties\<close>

text \<open>
  Classification is total and exclusive. A payload is accepted exactly when it is not empty, is no
  alarm indication and, if the request named a procedure, is a reply to that procedure; an alarm
  indication is never taken for a reply, whatever was asked; so the payload that a transfer returns
  through this router can always be read by the procedure that asked for it.
\<close>

theorem router_classifies:
  "(retap_router expected payload = ACCEPT \<longleftrightarrow>
      (\<exists>code rest. payload = code # rest \<and> code \<noteq> 0x07 \<and> code \<noteq> 0x85
        \<and> (expected = None \<or> expected = Some (uint code))))
   \<and> (retap_router expected payload = INDICATION \<longleftrightarrow>
      (\<exists>rest. payload = 0x07 # rest \<or> payload = 0x85 # rest))"
proof -
  have i: "uint (c :: byte) \<in> set INDICATION_CODES \<longleftrightarrow> c = 0x07 \<or> c = 0x85" for c
    using word_uint_eq_iff [of c 7] word_uint_eq_iff [of c "0x85"]
    by (simp add: INDICATION_CODES_def procedure_codes)
  show ?thesis
    unfolding retap_router_def i by (cases payload) auto
qed

text \<open>
  C34: the alarm tracker emits edges, not levels. The events of a snapshot are exactly the differences
  between the old set and the reported one, each once; a client that replays them on the old set has
  the new set; the set never holds \<open>OK\<close> or an empty name; and the same report a second time emits
  nothing.
\<close>

theorem alarm_edges:
  assumes "finite names" and "alarms_ok active" and "alarm_snapshot names True active = (evs, new)"
  shows "new = {n \<in> names. n \<noteq> [] \<and> n \<noteq> ''OK''} \<and> alarms_ok new \<and> alarm_replay evs active = new
    \<and> distinct evs \<and> set evs = Raised ` (new - active) \<union> Cleared ` (active - new)
    \<and> alarm_snapshot names True new = ([], new)"
proof -
  have "alarms_ok new" using alarms_ok_snapshot [OF assms(1), of True active] assms(3) by simp
  then show ?thesis
    using snapshot_events [OF assms] by (auto simp: real_alarms_def alarm_snapshot_def Let_def)
qed

theorem alarm_edges_witness:
  "alarm_snapshot {''Busy'', ''OK''} True {''MotorJam''} = ([Raised ''Busy'', Cleared ''MotorJam''], {''Busy''})
   \<and> alarm_replay [Raised ''Busy'', Cleared ''MotorJam''] {''MotorJam''} = {''Busy''}"
proof -
  have r: "real_alarms {''Busy'', ''OK''} = {''Busy''}" "real_alarms {''MotorJam''} = {''MotorJam''}"
    by (auto simp: real_alarms_def)
  then have s: "alarm_snapshot {''Busy'', ''OK''} True {''MotorJam''}
      = ([Raised ''Busy'', Cleared ''MotorJam''], {''Busy''})"
    by (simp add: alarm_snapshot_def Let_def)
  with alarm_edges [OF _ _ s] r show ?thesis by (simp add: alarms_ok_def)
qed

text \<open>
  An indication only ever raises. The codes from the fourth octet on are added to the set, nothing
  is cleared by it, only new names are announced, and the same indication again is silent.
\<close>

theorem indication_raises:
  assumes "alarms_ok active" and "alarm_indicate pl active = (evs, new)"
  shows "new = active \<union> {n. n \<noteq> [] \<and> n \<noteq> ''OK'' \<and> (\<exists>c \<in> set (drop 3 pl). n = rc_name (uint c))}
    \<and> set evs = Raised ` (new - active) \<and> alarm_indicate pl new = ([], new)"
proof -
  let ?r = "real_alarms (set (map (\<lambda>c. rc_name (uint c)) (drop 3 pl)))"
  have new: "new = active \<union> ?r" using indicate_set [OF assms(1), of pl] assms(2) by simp
  have fin: "finite (active \<union> ?r)" using assms(1) by (simp add: alarms_ok_def real_alarms_def)
  have ok: "alarms_ok new" using alarms_ok_indicate [OF assms(1), of pl] assms(2) by simp
  have evs: "set evs = Raised ` (new - active) \<union> Cleared ` (active - new)"
    using snapshot_events(4) [OF fin assms(1)] assms(2) by (simp add: alarm_indicate_def)
  have "new \<union> ?r = new" unfolding new by auto
  then have "alarm_indicate pl new = ([], new)"
    using ok by (simp add: alarm_indicate_def alarm_snapshot_def Let_def alarms_ok_def)
  moreover have "?r = {n. n \<noteq> [] \<and> n \<noteq> ''OK'' \<and> (\<exists>c \<in> set (drop 3 pl). n = rc_name (uint c))}"
    by (auto simp: real_alarms_def)
  moreover have "active - new = {}" unfolding new by auto
  ultimately show ?thesis using new evs by (metis image_empty Un_empty_right)
qed

theorem indication_raises_witness:
  "alarm_indicate [0x07, 2, 0, 0, 2] {} = ([Raised ''MotorJam''], {''MotorJam''})
   \<and> alarm_indicate [0x07, 2, 0, 0, 2] {''MotorJam''} = ([], {''MotorJam''})"
proof -
  have "real_alarms {''MotorJam'', ''OK''} = {''MotorJam''}" "real_alarms {''MotorJam''} = {''MotorJam''}"
    by (auto simp: real_alarms_def)
  then have i: "alarm_indicate [0x07, 2, 0, 0, 2] {} = ([Raised ''MotorJam''], {''MotorJam''})"
    by (simp add: alarm_indicate_def alarm_snapshot_def Let_def rc_name_def RETURN_CODES_def insert_commute)
  with indication_raises [OF alarms_ok_empty i] show ?thesis by blast
qed

text \<open>
  The antenna octet of a multi-antenna indication is decoded as one more return code: antenna 2
  reporting nothing raises \<open>MotorJam\<close>.
\<close>

lemma antenna_octet_raises: "fst (alarm_indicate [0x85, 2, 0, 2, 0] {}) = [Raised ''MotorJam'']"
proof -
  have "real_alarms {''MotorJam'', ''OK''} = {''MotorJam''}" "real_alarms {''MotorJam''} = {''MotorJam''}"
    by (auto simp: real_alarms_def)
  then show ?thesis
    by (simp add: alarm_indicate_def alarm_snapshot_def Let_def rc_name_def RETURN_CODES_def)
qed

end
