(* ===== verification/Session_Commands.thy ===== *)
theory Session_Commands
  imports Session_Alarms
begin

text \<open>
  \<open>openaisg/session.py\<close>, lines 31 to 77 and 159 to 219: the states of the link, \<open>SessionError\<close>, the text
  of an exception, the table of commands and their bodies, their priorities, and the queue of commands
  with their futures (\<open>queue.PriorityQueue\<close>, \<open>concurrent.futures.Future\<close>).

  Properties: the queue hands commands out by priority and, within one, in the order they were
  submitted; a tilt command returns the tilt that the device reports after the move; a future is
  resolved at most once.
\<close>

section \<open>States, errors and their texts\<close>

datatype link_state =
    CLOSED | OPENING | PORT_BUSY | PORT_LOST | DISCOVERING | NO_DEVICES | CONNECTING | CONNECTED
  | DRAINING | RELEASING | BACKOFF | LEASED | SHUTDOWN

fun state_value :: "link_state \<Rightarrow> string" where
  "state_value CLOSED = ''closed''"
| "state_value OPENING = ''opening''"
| "state_value PORT_BUSY = ''port_busy''"
| "state_value PORT_LOST = ''port_lost''"
| "state_value DISCOVERING = ''discovering''"
| "state_value NO_DEVICES = ''no_devices''"
| "state_value CONNECTING = ''connecting''"
| "state_value CONNECTED = ''connected''"
| "state_value DRAINING = ''draining''"
| "state_value RELEASING = ''releasing''"
| "state_value BACKOFF = ''backoff''"
| "state_value LEASED = ''leased''"
| "state_value SHUTDOWN = ''shutdown''"

datatype monitor_mode = MONITOR_OFF | DUTY_CYCLED | CONTINUOUS

definition FAIL_FAST :: "link_state list" where
  "FAIL_FAST = [PORT_BUSY, PORT_LOST, NO_DEVICES, BACKOFF, LEASED, SHUTDOWN]"

definition session_error :: "link_state \<Rightarrow> string \<Rightarrow> exn" where
  "session_error st detail = SessionError (state_value st) detail"

definition session_error_text :: "string \<Rightarrow> string \<Rightarrow> string" where
  "session_error_text st detail =
     ''link unavailable ('' @ st @ '')'' @ (if detail \<noteq> [] then '': '' @ detail else [])"

text \<open>\<open>str(e)\<close>; the standard library's own texts, which no code looks at, are left empty.\<close>

fun exn_text :: "exn \<Rightarrow> string" where
  "exn_text (AisgError m) = m"
| "exn_text (PortBusy m) = m"
| "exn_text (PortLost m) = m"
| "exn_text (AisgTimeout a ns k n) =
     ''no layer-7 response from '' @ show_0x a @ '' (N(S)='' @ dec_int ns @ '', ''
       @ (if k then ''acked'' else ''unacked'') @ '', '' @ dec_int n @ '' polls)''"
| "exn_text (LinkReset a why) = ''link to '' @ show_0x a @ '' reset: '' @ why"
| "exn_text (RetError p code) = ret_error_text p code"
| "exn_text (SessionError st detail) = session_error_text st detail"
| "exn_text (FrameError m) = m"
| "exn_text (OSError m) = m"
| "exn_text _ = []"

definition is_link_reset :: "exn \<Rightarrow> bool" where
  "is_link_reset e = (case e of LinkReset _ _ \<Rightarrow> True | _ \<Rightarrow> False)"

definition is_os_error :: "exn \<Rightarrow> bool" where
  "is_os_error e = (case e of OSError _ \<Rightarrow> True | _ \<Rightarrow> False)"

section \<open>Commands\<close>

text \<open>The values a caller can pass in \<open>args\<close>.\<close>

datatype pyval = PyNone | PyInt int | PyFloat rat

type_synonym cmd_args = "(string \<times> pyval) list"

datatype cmd_result =
    RNone
  | RIdentity "(string \<times> nat list) list"
  | RTilt rat
  | RAlarms "string list"
  | RDeviceData "(string \<times> string) list"

text \<open>\<open>_sweep_device_data\<close>: the loop over \<open>count\<close> fields from \<open>fid\<close> on.\<close>

primrec sweep_loop :: "'s transport_ops \<Rightarrow> ret \<Rightarrow> nat \<Rightarrow> int \<Rightarrow> ('s, (string \<times> string) list) io" where
  "sweep_loop req r 0 fid = io_return []"
| "sweep_loop req r (Suc count) fid =
     io_bind (io_catch
         (io_bind (get_device_data req r fid) (\<lambda>d. io_return [(show_0x fid, hex_sp d)]))
         (\<lambda>e. if is_aisg_error e then Some (io_return []) else None)) (\<lambda>here.
     io_bind (sweep_loop req r count (fid + 1)) (\<lambda>others. io_return (here @ others)))"

definition sweep_device_data :: "'s transport_ops \<Rightarrow> ret \<Rightarrow> int \<Rightarrow> ('s, (string \<times> string) list) io" where
  "sweep_device_data req r last_field = sweep_loop req r (nat last_field) 1"

definition sweep_default :: int where "sweep_default = 0x0B"

definition set_tilt_command :: "'s transport_ops \<Rightarrow> ret \<Rightarrow> rat \<Rightarrow> ('s, cmd_result) io" where
  "set_tilt_command req r degrees =
     io_seq (set_tilt req r degrees) (io_bind (get_tilt req r) (\<lambda>t. io_return (RTilt t)))"

definition READ_COMMANDS :: "string list" where
  "READ_COMMANDS = [''get_information'', ''get_tilt'', ''get_alarm_status'', ''get_device_data'']"

definition WRITE_COMMANDS :: "string list" where
  "WRITE_COMMANDS = [''set_tilt'', ''clear_alarms'', ''calibrate'', ''self_test'', ''reset'']"

definition ALL_COMMANDS :: "string list" where
  "ALL_COMMANDS = READ_COMMANDS @ WRITE_COMMANDS"

text \<open>
  \<open>fn(ret, **cmd.args) if cmd.args else fn(ret)\<close>: a body that takes no argument, or not these, raises
  \<open>TypeError\<close>; \<open>range\<close> does so on a float, and \<open>None * 10\<close> as well.
\<close>

definition no_args :: "cmd_args \<Rightarrow> ('s, 'a) io \<Rightarrow> ('s, 'a) io" where
  "no_args args m = (if args = [] then m else io_raise TypeError)"

definition only_arg :: "string \<Rightarrow> cmd_args \<Rightarrow> pyval option" where
  "only_arg key args = (case args of [(k, v)] \<Rightarrow> if k = key then Some v else None | _ \<Rightarrow> None)"

definition call_command :: "'s transport_ops \<Rightarrow> ret \<Rightarrow> string \<Rightarrow> cmd_args \<Rightarrow> ('s, cmd_result) io" where
  "call_command req r name args =
     (if name = ''get_information''
      then no_args args (io_bind (get_information req r) (\<lambda>i. io_return (RIdentity i)))
      else if name = ''get_tilt''
      then no_args args (io_bind (get_tilt req r) (\<lambda>t. io_return (RTilt t)))
      else if name = ''get_alarm_status''
      then no_args args (io_bind (get_alarm_status req r) (\<lambda>a. io_return (RAlarms a)))
      else if name = ''get_device_data''
      then if args = []
        then io_bind (sweep_device_data req r sweep_default) (\<lambda>d. io_return (RDeviceData d))
        else (case only_arg ''last'' args of
              Some (PyInt n) \<Rightarrow> io_bind (sweep_device_data req r n) (\<lambda>d. io_return (RDeviceData d))
            | _ \<Rightarrow> io_raise TypeError)
      else if name = ''set_tilt''
      then (case only_arg ''degrees'' args of
              Some (PyInt n) \<Rightarrow> set_tilt_command req r (of_int n)
            | Some (PyFloat x) \<Rightarrow> set_tilt_command req r x
            | _ \<Rightarrow> io_raise TypeError)
      else if name = ''clear_alarms'' then no_args args (io_seq (clear_alarms req r) (io_return RNone))
      else if name = ''calibrate'' then no_args args (io_seq (calibrate req r) (io_return RNone))
      else if name = ''self_test'' then no_args args (io_seq (self_test req r) (io_return RNone))
      else if name = ''reset'' then no_args args (io_seq (reset_software req r) (io_return RNone))
      else io_raise KeyError)"

text \<open>\<open>float(cmd.args.get("degrees"))\<close>\<close>

definition target_degrees :: "cmd_args \<Rightarrow> rat res" where
  "target_degrees args =
     (case map_of args ''degrees'' of
        Some (PyInt n) \<Rightarrow> Inr (of_int n)
      | Some (PyFloat x) \<Rightarrow> Inr x
      | _ \<Rightarrow> Inl TypeError)"

definition COMMAND_TIMEOUTS :: "(string \<times> time) list" where
  "COMMAND_TIMEOUTS = [(''calibrate'', 150000000), (''self_test'', 45000000), (''set_tilt'', 90000000),
     (''get_device_data'', 30000000)]"

definition DEFAULT_COMMAND_TIMEOUT :: time where "DEFAULT_COMMAND_TIMEOUT = 15000000"

definition command_timeout :: "string \<Rightarrow> time" where
  "command_timeout name =
     (case map_of COMMAND_TIMEOUTS name of None \<Rightarrow> DEFAULT_COMMAND_TIMEOUT | Some t \<Rightarrow> t)"

definition PRIORITY_CONTROL :: int where "PRIORITY_CONTROL = 0"
definition PRIORITY_USER :: int where "PRIORITY_USER = 5"
definition PRIORITY_MONITOR :: int where "PRIORITY_MONITOR = 9"

text \<open>What a body keeps and raises, over any transport.\<close>

definition command_error :: "(exn \<Rightarrow> bool) \<Rightarrow> exn \<Rightarrow> bool" where
  "command_error E e \<longleftrightarrow> proc_error E e \<or> e = TypeError \<or> e = KeyError"

context transport
begin

lemma safe_proc_command: "io_safe I (proc_error E) m \<Longrightarrow> io_safe I (command_error E) m"
  by (erule io_safe_mono) (simp add: command_error_def)

lemma safe_sweep_loop: "io_safe I (proc_error E) (sweep_loop req r n fid)"
  by (induction n arbitrary: fid)
    (auto intro!: safe_intros io_safe_catch [where E' = "proc_error E"] split: if_splits)

lemma safe_sweep [safe_intros]: "io_safe I (proc_error E) (sweep_device_data req r n)"
  unfolding sweep_device_data_def by (rule safe_sweep_loop)

lemma safe_set_tilt_command [safe_intros]: "io_safe I (proc_error E) (set_tilt_command req r x)"
  unfolding set_tilt_command_def by (intro safe_intros)

lemma safe_no_args: "io_safe I (proc_error E) m \<Longrightarrow> io_safe I (command_error E) (no_args args m)"
  by (auto simp: no_args_def command_error_def intro: safe_proc_command io_safe_raise)

lemma safe_call_command [safe_intros]: "io_safe I (command_error E) (call_command req r name args)"
proof -
  have t: "io_safe I (command_error E) (io_raise TypeError)" "io_safe I (command_error E) (io_raise KeyError)"
    by (simp_all add: io_safe_raise command_error_def)
  show ?thesis
    unfolding call_command_def
    by (intro io_safe_if safe_no_args t) (auto intro!: safe_intros safe_proc_command t split: option.split pyval.split)
qed

end

section \<open>The queue\<close>

text \<open>
  \<open>Command\<close> is compared by priority, then by sequence number; its other fields take no part. The
  future is named by the sequence number, which is unique.
\<close>

datatype cmd_key = Key (key_priority: int) (key_seq: nat)

definition key_before :: "cmd_key \<Rightarrow> cmd_key \<Rightarrow> bool" where
  "key_before j k \<longleftrightarrow>
     key_priority j < key_priority k \<or> key_priority j = key_priority k \<and> key_seq j < key_seq k"

lemma key_eq_iff: "j = k \<longleftrightarrow> key_priority j = key_priority k \<and> key_seq j = key_seq k"
  by (auto simp: cmd_key.expand)

instantiation cmd_key :: linorder
begin

definition less_cmd_key :: "cmd_key \<Rightarrow> cmd_key \<Rightarrow> bool" where
  "less_cmd_key = key_before"

definition less_eq_cmd_key :: "cmd_key \<Rightarrow> cmd_key \<Rightarrow> bool" where
  "less_eq_cmd_key j k \<longleftrightarrow> key_before j k \<or> j = k"

instance
  by standard (auto simp: less_eq_cmd_key_def less_cmd_key_def key_before_def key_eq_iff)

end

record command =
  cmd_key :: cmd_key
  cmd_name :: string
  cmd_args :: cmd_args
  submitted_at :: time
  link_deadline :: time

definition cmd_id :: "command \<Rightarrow> nat" where
  "cmd_id c = key_seq (cmd_key c)"

text \<open>\<open>put\<close> and \<open>get\<close>: the queue holds its commands in the order it will hand them out.\<close>

definition q_put :: "command \<Rightarrow> command list \<Rightarrow> command list" where
  "q_put c q = insort_key cmd_key c q"

definition q_get :: "command list \<Rightarrow> (command \<times> command list) option" where
  "q_get q = (case q of [] \<Rightarrow> None | c # q' \<Rightarrow> Some (c, q'))"

section \<open>Futures\<close>

datatype future = PENDING | RUNNING | CANCELLED | CANCELLED_AND_NOTIFIED | RESULT cmd_result | EXCEPTION exn

definition set_running_or_notify_cancel :: "future \<Rightarrow> (bool \<times> future) res" where
  "set_running_or_notify_cancel f =
     (case f of
        CANCELLED \<Rightarrow> Inr (False, CANCELLED_AND_NOTIFIED)
      | PENDING \<Rightarrow> Inr (True, RUNNING)
      | _ \<Rightarrow> Inl RuntimeError)"

definition set_outcome :: "cmd_result res \<Rightarrow> future \<Rightarrow> future res" where
  "set_outcome r f =
     (case f of
        PENDING \<Rightarrow> Inr (case r of Inl e \<Rightarrow> EXCEPTION e | Inr x \<Rightarrow> RESULT x)
      | RUNNING \<Rightarrow> Inr (case r of Inl e \<Rightarrow> EXCEPTION e | Inr x \<Rightarrow> RESULT x)
      | _ \<Rightarrow> Inl InvalidStateError)"

definition cancel_future :: "future \<Rightarrow> future" where
  "cancel_future f = (case f of PENDING \<Rightarrow> CANCELLED | _ \<Rightarrow> f)"

definition resolved :: "future \<Rightarrow> bool" where
  "resolved f = (case f of RESULT _ \<Rightarrow> True | EXCEPTION _ \<Rightarrow> True | CANCELLED_AND_NOTIFIED \<Rightarrow> True | _ \<Rightarrow> False)"

end
