(* ===== verification/Session_State.thy ===== *)
theory Session_State
  imports Session_Commands
begin

text \<open>
  \<open>openaisg/session.py\<close>, the state of \<open>SerialWorker\<close> and the operations on it that do not touch the
  port: the public methods that the event-loop thread calls (\<open>submit\<close>, \<open>lease\<close>, \<open>unlease\<close>, \<open>snapshot\<close>,
  \<open>stop\<close>), \<open>_set_state\<close>, \<open>_absorb\<close>, \<open>_drain_indications\<close>, \<open>_should_open\<close> and the like.

  The callbacks that the worker passes to \<open>exchange\<close> append to \<open>_indications\<close> and emit events, so
  these two lists live in the world of the link, with the environment of the port; \<open>lift_ops\<close> makes the
  port work on that world. The worker reaches its link through \<open>on_link\<close>, which is the only place where
  the world is handed over; \<open>self.link is None\<close> makes it the \<open>AttributeError\<close> that Python raises.
\<close>

section \<open>State\<close>

datatype alarm_mode = SUBSCRIBED | POLLED | UNKNOWN_MODE

type_synonym identity = "(string \<times> nat list) list"
type_synonym device_data = "(string \<times> string) list"

text \<open>The dictionary of \<open>snapshot\<close>; the times are rounded as there, to tenths and hundredths.\<close>

record snap =
  sn_state :: link_state
  sn_port :: string
  sn_monitor :: monitor_mode
  sn_alarm_mode :: alarm_mode
  sn_address :: "int option"
  sn_tilt :: "rat option"
  sn_target_tilt :: "rat option"
  sn_alarms :: "string list"
  sn_identity :: identity
  sn_queue_depth :: nat
  sn_leased_for :: int
  sn_port_pinned :: bool
  sn_last_error :: string
  sn_heartbeat_age :: int
  sn_stats :: "link_stats option"
  sn_fcs_errors :: int

datatype event =
    EvLink link_state string
  | EvAlarm alarm_event
  | EvProgress string int bool int
  | EvStatus snap

record 'v shared =
  sh_env :: 'v
  sh_indications :: "bytes list"
  sh_events :: "event list"

definition in_sh :: "('v \<Rightarrow> 'a \<times> 'v) \<Rightarrow> 'v shared \<Rightarrow> 'a \<times> 'v shared" where
  "in_sh m sh = (let (r, v) = m (sh_env sh) in (r, sh\<lparr>sh_env := v\<rparr>))"

definition lift_ops :: "'v port_ops \<Rightarrow> 'v shared port_ops" where
  "lift_ops P = \<lparr>ser_open = \<lambda>port. in_sh (ser_open P port), ser_set_dtr = \<lambda>b. in_sh (ser_set_dtr P b),
     ser_write = \<lambda>b. in_sh (ser_write P b), ser_flush = in_sh (ser_flush P),
     ser_read = \<lambda>n. in_sh (ser_read P n), ser_in_waiting = in_sh (ser_in_waiting P),
     ser_reset_input_buffer = in_sh (ser_reset_input_buffer P), ser_close = in_sh (ser_close P),
     monotonic = in_sh (monotonic P), sleep = \<lambda>t sh. sh\<lparr>sh_env := sleep P t (sh_env sh)\<rparr>\<rparr>"

text \<open>The arguments of the constructor, which nothing changes.\<close>

record config =
  cf_port :: string
  cf_dtr :: bool
  cf_monitor :: monitor_mode
  cf_monitor_period :: time
  cf_keepalive :: time
  cf_idle_release :: time
  cf_first_address :: int
  cf_probe_count :: int

text \<open>The defaults.\<close>

definition test_config :: config where
  "test_config = \<lparr>cf_port = ''/dev/ttyUSB0'', cf_dtr = True, cf_monitor = DUTY_CYCLED, cf_monitor_period = 60000000,
     cf_keepalive = 1000000, cf_idle_release = 60000000, cf_first_address = 1, cf_probe_count = 4\<rparr>"

record 'v worker =
  w_state :: link_state
  w_link :: "'v shared link option"
  w_shared :: "'v shared"
  w_device :: "device option"
  w_address :: "int option"
  w_identity :: identity
  w_device_data :: device_data
  w_tilt :: "rat option"
  w_target_tilt :: "rat option"
  w_alarms :: "string set"
  w_alarm_mode :: alarm_mode
  w_subscribe_unsupported :: bool
  w_last_error :: string
  w_last_command_at :: time
  w_last_monitor_at :: time
  w_last_keepalive_at :: time
  w_backoff :: time
  w_backoff_until :: time
  w_lease_until :: time
  w_heartbeat :: time
  w_want_link :: bool
  w_queue :: "command list"
  w_next_seq :: nat
  w_futures :: "nat \<rightharpoonup> future"
  w_stopping :: bool

definition new_worker :: "'v port_ops \<Rightarrow> 'v \<Rightarrow> 'v worker" where
  "new_worker P v =
     (let (now, v) = monotonic P v in
      \<lparr>w_state = CLOSED, w_link = None, w_shared = \<lparr>sh_env = v, sh_indications = [], sh_events = []\<rparr>,
       w_device = None, w_address = None, w_identity = [], w_device_data = [], w_tilt = None,
       w_target_tilt = None, w_alarms = {}, w_alarm_mode = UNKNOWN_MODE, w_subscribe_unsupported = False,
       w_last_error = [], w_last_command_at = 0, w_last_monitor_at = 0, w_last_keepalive_at = 0,
       w_backoff = 1000000, w_backoff_until = 0, w_lease_until = 0, w_heartbeat = now,
       w_want_link = False, w_queue = [], w_next_seq = 0, w_futures = Map.empty, w_stopping = False\<rparr>)"

type_synonym ('v, 'a) wio = "('v worker, 'a) io"

section \<open>Primitives\<close>

definition on_link :: "('v shared link, 'a) io \<Rightarrow> ('v, 'a) wio" where
  "on_link m w =
     (case w_link w of
        None \<Rightarrow> (Inl AttributeError, w)
      | Some l \<Rightarrow> (case m (l\<lparr>world := w_shared w\<rparr>) of
          (r, l') \<Rightarrow> (r, w\<lparr>w_link := Some l', w_shared := world l'\<rparr>)))"

definition w_now :: "'v port_ops \<Rightarrow> ('v, time) wio" where
  "w_now P w = (case monotonic (lift_ops P) (w_shared w) of (t, sh) \<Rightarrow> (Inr t, w\<lparr>w_shared := sh\<rparr>))"

definition emit :: "event \<Rightarrow> ('v, unit) wio" where
  "emit ev w = (Inr (), w\<lparr>w_shared := (w_shared w)\<lparr>sh_events := sh_events (w_shared w) @ [ev]\<rparr>\<rparr>)"

primrec emit_all :: "event list \<Rightarrow> ('v, unit) wio" where
  "emit_all [] = io_return ()"
| "emit_all (e # es) = io_seq (emit e) (emit_all es)"

text \<open>\<open>_set_state\<close>\<close>

definition set_state :: "link_state \<Rightarrow> string \<Rightarrow> ('v, unit) wio" where
  "set_state st err w =
     (if st = w_state w \<and> err = w_last_error w then (Inr (), w)
      else emit (EvLink st err)
        (w\<lparr>w_state := st, w_last_error := (if err \<noteq> [] then err else w_last_error w)\<rparr>))"

definition set_last_error :: "string \<Rightarrow> ('v, unit) wio" where
  "set_last_error m = io_modify (\<lambda>w. w\<lparr>w_last_error := m\<rparr>)"

section \<open>The public methods\<close>

definition submit ::
  "'v port_ops \<Rightarrow> string \<Rightarrow> cmd_args \<Rightarrow> int \<Rightarrow> time \<Rightarrow> ('v, nat) wio" where
  "submit P name args priority link_wait =
     (if name \<notin> set ALL_COMMANDS then io_raise ValueError
      else io_bind (w_now P) (\<lambda>created.
           io_bind (w_now P) (\<lambda>now.
           io_bind (io_get w_next_seq) (\<lambda>n.
             let cmd = \<lparr>cmd_key = Key priority n, cmd_name = name, cmd_args = args,
                        submitted_at = created, link_deadline = now + link_wait\<rparr>
             in io_seq (io_modify (\<lambda>w. w\<lparr>w_next_seq := n + 1, w_queue := q_put cmd (w_queue w),
                                          w_futures := (w_futures w)(n \<mapsto> PENDING)\<rparr>))
                  (io_return n)))))"

definition link_wait_default :: time where "link_wait_default = 20000000"

definition lease :: "'v port_ops \<Rightarrow> time \<Rightarrow> ('v, time) wio" where
  "lease P seconds =
     io_bind (w_now P) (\<lambda>now.
     io_seq (io_modify (\<lambda>w. w\<lparr>w_lease_until := now + seconds\<rparr>)) (io_return (now + seconds)))"

definition unlease :: "('v, unit) wio" where
  "unlease = io_modify (\<lambda>w. w\<lparr>w_lease_until := 0\<rparr>)"

text \<open>\<open>round(t, n)\<close> of a time, as a number of units of \<open>unit_time\<close> microseconds.\<close>

definition round_time :: "time \<Rightarrow> time \<Rightarrow> int" where
  "round_time unit_time t = py_round (of_int t / of_int unit_time)"

definition snapshot :: "'v port_ops \<Rightarrow> config \<Rightarrow> ('v, snap) wio" where
  "snapshot P cf =
     io_bind (w_now P) (\<lambda>now.
     io_bind (w_now P) (\<lambda>later.
     io_get (\<lambda>w. let leased = max 0 (w_lease_until w - now) in
       \<lparr>sn_state = w_state w, sn_port = cf_port cf, sn_monitor = cf_monitor cf,
        sn_alarm_mode = w_alarm_mode w, sn_address = w_address w, sn_tilt = w_tilt w,
        sn_target_tilt = w_target_tilt w, sn_alarms = sorted_list_of_set (w_alarms w),
        sn_identity = w_identity w, sn_queue_depth = length (w_queue w),
        sn_leased_for = round_time 100000 leased,
        sn_port_pinned = (cf_monitor cf = CONTINUOUS), sn_last_error = w_last_error w,
        sn_heartbeat_age = round_time 10000 (later - w_heartbeat w),
        sn_stats = map_option stats (w_link w),
        sn_fcs_errors = (case w_link w of None \<Rightarrow> 0 | Some l \<Rightarrow> fcs_errors (lk_deframer l))\<rparr>)))"

definition stop :: "('v, unit) wio" where
  "stop = io_modify (\<lambda>w. w\<lparr>w_stopping := True\<rparr>)"

text \<open>\<open>future.cancel()\<close>, which a client may call on what \<open>submit\<close> returned.\<close>

definition cancel :: "nat \<Rightarrow> ('v, unit) wio" where
  "cancel n = io_modify (\<lambda>w. w\<lparr>w_futures := (w_futures w)(n := map_option cancel_future (w_futures w n))\<rparr>)"

section \<open>Futures of commands\<close>

definition future_of :: "'v worker \<Rightarrow> command \<Rightarrow> future" where
  "future_of w c = (case w_futures w (cmd_id c) of None \<Rightarrow> PENDING | Some f \<Rightarrow> f)"

definition put_future :: "command \<Rightarrow> future \<Rightarrow> ('v, unit) wio" where
  "put_future c f = io_modify (\<lambda>w. w\<lparr>w_futures := (w_futures w)(cmd_id c \<mapsto> f)\<rparr>)"

text \<open>\<open>cmd.future.set_running_or_notify_cancel()\<close> and \<open>set_exception\<close>/\<open>set_result\<close>\<close>

definition claim :: "command \<Rightarrow> ('v, bool) wio" where
  "claim c =
     io_bind (io_get (\<lambda>w. future_of w c)) (\<lambda>f.
     io_bind (io_res (set_running_or_notify_cancel f)) (\<lambda>(ok, f').
     io_seq (put_future c f') (io_return ok)))"

definition resolve :: "command \<Rightarrow> cmd_result res \<Rightarrow> ('v, unit) wio" where
  "resolve c r =
     io_bind (io_get (\<lambda>w. future_of w c)) (\<lambda>f.
     io_bind (io_res (set_outcome r f)) (put_future c))"

text \<open>\<open>_abandon\<close>\<close>

definition abandon :: "command \<Rightarrow> exn \<Rightarrow> ('v, unit) wio" where
  "abandon c e = io_bind (claim c) (\<lambda>ok. if ok then resolve c (Inl e) else io_return ())"

section \<open>Cached state\<close>

text \<open>\<open>for ev in self.alarms.snapshot(names): self._emit(ev)\<close>\<close>

definition track_alarms :: "alarm_event list \<times> string set \<Rightarrow> ('v, unit) wio" where
  "track_alarms r = (case r of (evs, new) \<Rightarrow>
     io_seq (io_modify (\<lambda>w. w\<lparr>w_alarms := new\<rparr>)) (emit_all (map EvAlarm evs)))"

definition alarms_snapshot :: "string list \<Rightarrow> bool \<Rightarrow> ('v, unit) wio" where
  "alarms_snapshot names e = io_bind (io_get w_alarms) (\<lambda>a. track_alarms (alarm_snapshot (set names) e a))"

definition alarms_indicate :: "bytes \<Rightarrow> ('v, unit) wio" where
  "alarms_indicate pl = io_bind (io_get w_alarms) (\<lambda>a. track_alarms (alarm_indicate pl a))"

text \<open>\<open>_absorb\<close>\<close>

definition absorb :: "'v port_ops \<Rightarrow> config \<Rightarrow> cmd_result \<Rightarrow> ('v, unit) wio" where
  "absorb P cf r =
     io_seq (case r of
               RNone \<Rightarrow> io_return ()
             | RTilt t \<Rightarrow> io_modify (\<lambda>w. w\<lparr>w_tilt := Some t\<rparr>)
             | RIdentity i \<Rightarrow> io_modify (\<lambda>w. w\<lparr>w_identity := i\<rparr>)
             | RDeviceData d \<Rightarrow> io_modify (\<lambda>w. w\<lparr>w_device_data := d\<rparr>)
             | RAlarms a \<Rightarrow> alarms_snapshot a True)
       (io_bind (snapshot P cf) (\<lambda>sn. emit (EvStatus sn)))"

text \<open>\<open>_queue_indication\<close>, as the callback of a transfer, and \<open>_drain_indications\<close>.\<close>

definition queue_indication :: "bytes \<Rightarrow> 'v shared \<Rightarrow> 'v shared" where
  "queue_indication payload sh = sh\<lparr>sh_indications := sh_indications sh @ [payload]\<rparr>"

primrec drain_list :: "bytes list \<Rightarrow> ('v, unit) wio" where
  "drain_list [] = io_return ()"
| "drain_list (p # ps) =
     io_seq (io_modify (\<lambda>w. w\<lparr>w_shared := (w_shared w)\<lparr>sh_indications := ps\<rparr>\<rparr>))
       (io_seq (alarms_indicate p) (drain_list ps))"

definition drain_indications :: "('v, unit) wio" where
  "drain_indications = io_bind (io_get (\<lambda>w. sh_indications (w_shared w))) drain_list"

section \<open>Decisions of the loop\<close>

definition refresh_lease :: "'v port_ops \<Rightarrow> ('v, unit) wio" where
  "refresh_lease P =
     io_bind (io_get w_state) (\<lambda>st.
       if st \<noteq> LEASED then io_return ()
       else io_bind (io_get w_lease_until) (\<lambda>until. io_bind (w_now P) (\<lambda>now.
         if until \<le> now then set_state CLOSED [] else io_return ())))"

definition tick_budget :: "config \<Rightarrow> 'v worker \<Rightarrow> time" where
  "tick_budget cf w = (if w_state w = CONNECTED then min 250000 (cf_keepalive cf) else 250000)"

definition should_open :: "config \<Rightarrow> time \<Rightarrow> 'v worker \<Rightarrow> bool" where
  "should_open cf now w =
     (w_want_link w \<or> w_queue w \<noteq> []
      \<or> cf_monitor cf = CONTINUOUS
      \<or> (cf_monitor cf = DUTY_CYCLED \<and> now - w_last_monitor_at w \<ge> cf_monitor_period cf))"

definition arm_backoff :: "'v port_ops \<Rightarrow> ('v, unit) wio" where
  "arm_backoff P =
     io_seq (io_modify (\<lambda>w. w\<lparr>w_backoff := min (w_backoff w * 2) 60000000\<rparr>))
     (io_bind (w_now P) (\<lambda>now.
      io_seq (io_modify (\<lambda>w. w\<lparr>w_backoff_until := now + w_backoff w\<rparr>))
      (io_bind (io_get w_state) (\<lambda>st.
         if st \<notin> {PORT_BUSY, PORT_LOST, NO_DEVICES} then set_state BACKOFF [] else io_return ()))))"

end
