(* ===== verification/Session_Worker.thy ===== *)
theory Session_Worker
  imports Session_State
begin

text \<open>
  \<open>openaisg/session.py\<close>, lines 326 to 765: what the worker thread does with its port. Opening and
  connecting, the entry actions, alarm polls, keepalive, draining, releasing, executing a command, one
  step of the state machine, and \<open>run\<close>.

  A body that uses \<open>self.address\<close> raises \<open>TypeError\<close> when it is \<open>None\<close>, as \<open>bytes([None])\<close> does; the
  invariant of the next theory shows that it never is there. The order in which \<open>_clear_stale_links\<close>
  goes through its set of two addresses, which Python leaves open, is that of the tuple.
\<close>

section \<open>Releasing the port\<close>

definition aisg_handler :: "(exn \<Rightarrow> ('s, 'a) io) \<Rightarrow> exn \<Rightarrow> ('s, 'a) io option" where
  "aisg_handler h e = (if is_aisg_error e then Some (h e) else None)"

definition os_or_aisg_handler :: "(exn \<Rightarrow> ('s, 'a) io) \<Rightarrow> exn \<Rightarrow> ('s, 'a) io option" where
  "os_or_aisg_handler h e = (if is_os_error e \<or> is_aisg_error e then Some (h e) else None)"

text \<open>\<open>_release\<close>\<close>

definition release_link :: "'v port_ops \<Rightarrow> nat \<Rightarrow> ('v, unit) wio" where
  "release_link P fuel =
     io_seq (set_state RELEASING [])
     (io_seq (io_catch
        (io_bind (io_get w_address) (\<lambda>a. case a of
           None \<Rightarrow> io_return ()
         | Some addr \<Rightarrow> on_link (disconnect_link (lift_ops P) fuel addr None)))
        (os_or_aisg_handler (\<lambda>_. io_return ())))
     (io_seq (io_catch (on_link (close_link (lift_ops P)))
        (\<lambda>e. if is_os_error e then Some (io_return ()) else None))
      (io_modify (\<lambda>w. w\<lparr>w_link := None\<rparr>))))"

definition release :: "'v port_ops \<Rightarrow> nat \<Rightarrow> ('v, unit) wio" where
  "release P fuel =
     io_bind (io_get w_link) (\<lambda>l. if l = None then io_return () else release_link P fuel)"

definition settle :: "'v port_ops \<Rightarrow> link_state \<Rightarrow> string \<Rightarrow> ('v, unit) wio" where
  "settle P st err = io_seq (set_state st err) (arm_backoff P)"

text \<open>\<open>_fail_link\<close>, and the same with another state.\<close>

definition give_up :: "'v port_ops \<Rightarrow> nat \<Rightarrow> link_state \<Rightarrow> string \<Rightarrow> ('v, unit) wio" where
  "give_up P fuel st err = io_seq (release P fuel) (settle P st err)"

definition fail_link :: "'v port_ops \<Rightarrow> nat \<Rightarrow> string \<Rightarrow> ('v, unit) wio" where
  "fail_link P fuel why = give_up P fuel BACKOFF why"

section \<open>The device\<close>

definition worker_request ::
  "'v port_ops \<Rightarrow> nat \<Rightarrow> (int \<Rightarrow> bool \<Rightarrow> 'v shared \<Rightarrow> 'v shared) option \<Rightarrow> 'v worker transport_ops" where
  "worker_request P fuel on_poll addr message timeout =
     on_link (transport_request (lift_ops P) fuel (Some queue_indication) on_poll addr message timeout)"

definition with_address :: "(int \<Rightarrow> ('v, 'a) wio) \<Rightarrow> ('v, 'a) wio" where
  "with_address f =
     io_bind (io_get w_address) (\<lambda>a. case a of None \<Rightarrow> io_raise TypeError | Some addr \<Rightarrow> f addr)"

definition with_ret :: "(ret \<Rightarrow> ('v, 'a) wio) \<Rightarrow> ('v, 'a) wio" where
  "with_ret f = with_address (\<lambda>addr. f \<lparr>r_addr = addr, r_antenna = None\<rparr>)"

text \<open>\<open>_clear_stale_links\<close>\<close>

primrec clear_addresses :: "'v port_ops \<Rightarrow> nat \<Rightarrow> int list \<Rightarrow> ('v, unit) wio" where
  "clear_addresses P fuel [] = io_return ()"
| "clear_addresses P fuel (addr # addrs) =
     io_seq (io_catch (on_link (disconnect_link (lift_ops P) fuel addr (Some 300000)))
              (aisg_handler (\<lambda>_. io_return ())))
       (clear_addresses P fuel addrs)"

definition clear_stale_links :: "'v port_ops \<Rightarrow> nat \<Rightarrow> config \<Rightarrow> ('v, unit) wio" where
  "clear_stale_links P fuel cf =
     io_bind (io_get w_address) (\<lambda>a.
     io_seq (clear_addresses P fuel
         (remdups ((case a of None \<Rightarrow> [] | Some addr \<Rightarrow> [addr]) @ [cf_first_address cf])))
       (io_modify (\<lambda>w. w\<lparr>w_address := None\<rparr>)))"

text \<open>\<open>_discover\<close>\<close>

primrec assign_all :: "'w port_ops \<Rightarrow> nat \<Rightarrow> device list \<Rightarrow> int \<Rightarrow> ('w link, device list) io" where
  "assign_all P fuel [] addr = io_return []"
| "assign_all P fuel (d # ds) addr =
     io_bind (assign_address P fuel d addr) (\<lambda>d'.
     io_bind (assign_all P fuel ds (addr + 1)) (\<lambda>ds'. io_return (d' # ds')))"

primrec disconnect_all :: "'w port_ops \<Rightarrow> nat \<Rightarrow> device list \<Rightarrow> ('w link, unit) io" where
  "disconnect_all P fuel [] = io_return ()"
| "disconnect_all P fuel (d # ds) =
     io_seq (io_catch (case address d of
                None \<Rightarrow> io_raise TypeError
              | Some addr \<Rightarrow> disconnect_link P fuel addr None) (aisg_handler (\<lambda>_. io_return ())))
       (disconnect_all P fuel ds)"

definition discover :: "'v port_ops \<Rightarrow> nat \<Rightarrow> config \<Rightarrow> ('v, int option) wio" where
  "discover P fuel cf =
     io_bind (on_link (scan (lift_ops P) fuel)) (\<lambda>devices.
       if devices \<noteq> []
       then io_bind (on_link (assign_all (lift_ops P) fuel devices (cf_first_address cf))) (\<lambda>devs.
            io_seq (io_modify (\<lambda>w. w\<lparr>w_device := Some (hd devs)\<rparr>))
              (io_return (address (hd devs))))
       else io_bind (on_link (scan_assigned (nat (cf_probe_count cf)) (lift_ops P) fuel (cf_first_address cf)))
         (\<lambda>found. case found of
            [] \<Rightarrow> io_return None
          | d # others \<Rightarrow> io_seq (on_link (disconnect_all (lift_ops P) fuel others)) (io_return (address d))))"

text \<open>\<open>_subscribe\<close>: \<open>k in s\<close> on strings.\<close>

definition contains :: "string \<Rightarrow> string \<Rightarrow> bool" where
  "contains k s = list_ex (\<lambda>n. take (length k) (drop n s) = k) [0..<length s + 1]"

definition subscribe :: "'v worker transport_ops \<Rightarrow> ret \<Rightarrow> ('v, alarm_mode) wio" where
  "subscribe req r =
     io_bind (io_get w_subscribe_unsupported) (\<lambda>unsupported.
       if unsupported then io_return POLLED
       else io_catch (io_seq (alarm_subscribe req r) (io_return SUBSCRIBED))
         (aisg_handler (\<lambda>e.
            io_seq (if contains ''UnknownProcedure'' (exn_text e) \<or> contains ''UnsupportedProcedure'' (exn_text e)
                    then io_modify (\<lambda>w. w\<lparr>w_subscribe_unsupported := True\<rparr>) else io_return ())
              (io_return POLLED))))"

text \<open>\<open>_on_connected\<close>\<close>

definition entry_actions :: "'v port_ops \<Rightarrow> nat \<Rightarrow> ret \<Rightarrow> ('v, unit) wio" where
  "entry_actions P fuel r =
     (let req = worker_request P fuel None in
      io_seq (io_bind (io_get w_identity) (\<lambda>i. if i \<noteq> [] then io_return ()
         else io_bind (get_information req r) (\<lambda>i. io_modify (\<lambda>w. w\<lparr>w_identity := i\<rparr>))))
      (io_seq (io_bind (io_get w_device_data) (\<lambda>d. if d \<noteq> [] then io_return ()
         else io_bind (sweep_device_data req r sweep_default) (\<lambda>d. io_modify (\<lambda>w. w\<lparr>w_device_data := d\<rparr>))))
      (io_seq (io_bind (subscribe req r) (\<lambda>m. io_modify (\<lambda>w. w\<lparr>w_alarm_mode := m\<rparr>)))
      (io_seq (io_bind (get_alarm_status req r) (\<lambda>a. alarms_snapshot a False))
       (io_bind (get_tilt req r) (\<lambda>t. io_modify (\<lambda>w. w\<lparr>w_tilt := Some t\<rparr>)))))))"

definition on_connected :: "'v port_ops \<Rightarrow> nat \<Rightarrow> ('v, bool) wio" where
  "on_connected P fuel =
     io_catch (io_seq (with_ret (entry_actions P fuel)) (io_return True))
       (\<lambda>e. if is_link_reset e then Some (io_seq (set_last_error (exn_text e)) (io_return False))
            else if is_aisg_error e then Some (io_return True) else None)"

section \<open>Opening\<close>

definition open_port :: "'v port_ops \<Rightarrow> config \<Rightarrow> ('v, unit) wio" where
  "open_port P cf w =
     (case open_link (lift_ops P) (cf_port cf) (Some (cf_dtr cf)) 1000000 (w_shared w) of
        (Inl e, sh) \<Rightarrow> (Inl e, w\<lparr>w_shared := sh\<rparr>)
      | (Inr l, sh) \<Rightarrow> (Inr (), w\<lparr>w_link := Some l, w_shared := sh\<rparr>))"

definition open_handler :: "'v port_ops \<Rightarrow> exn \<Rightarrow> ('v, unit) wio option" where
  "open_handler P e =
     (case e of
        PortBusy _ \<Rightarrow> Some (settle P PORT_BUSY (exn_text e))
      | PortLost _ \<Rightarrow> Some (settle P PORT_LOST (exn_text e))
      | _ \<Rightarrow> if is_aisg_error e then Some (settle P BACKOFF (exn_text e)) else None)"

definition enter_session :: "'v port_ops \<Rightarrow> nat \<Rightarrow> int \<Rightarrow> ('v, unit) wio" where
  "enter_session P fuel addr =
     io_seq (io_modify (\<lambda>w. w\<lparr>w_address := Some addr, w_want_link := False\<rparr>))
     (io_bind (on_connected P fuel) (\<lambda>ok.
        if ok then io_seq (io_modify (\<lambda>w. w\<lparr>w_backoff := 1000000\<rparr>)) (set_state CONNECTED [])
        else io_bind (io_get w_last_error) (\<lambda>m.
          fail_link P fuel (if m \<noteq> [] then m else ''entry actions failed''))))"

definition connect_to :: "'v port_ops \<Rightarrow> nat \<Rightarrow> int \<Rightarrow> ('v, unit) wio" where
  "connect_to P fuel addr =
     io_seq (set_state CONNECTING [])
     (io_try (on_link (connect_link (lift_ops P) fuel addr))
        (aisg_handler (\<lambda>e. give_up P fuel BACKOFF (exn_text e))) (\<lambda>_. enter_session P fuel addr))"

definition no_devices_text :: string where
  "no_devices_text = ''no AISG devices answered (power feed? RS-485 wiring?)''"

definition bring_up :: "'v port_ops \<Rightarrow> nat \<Rightarrow> config \<Rightarrow> ('v, unit) wio" where
  "bring_up P fuel cf =
     io_seq (clear_stale_links P fuel cf)
     (io_seq (set_state DISCOVERING [])
     (io_try (discover P fuel cf)
        (aisg_handler (\<lambda>e. give_up P fuel BACKOFF (exn_text e)))
        (\<lambda>found. case found of
           None \<Rightarrow> give_up P fuel NO_DEVICES no_devices_text
         | Some addr \<Rightarrow> connect_to P fuel addr)))"

definition open_and_connect :: "'v port_ops \<Rightarrow> nat \<Rightarrow> config \<Rightarrow> ('v, unit) wio" where
  "open_and_connect P fuel cf =
     io_seq (set_state OPENING [])
       (io_try (open_port P cf) (open_handler P) (\<lambda>_. bring_up P fuel cf))"

section \<open>Connected\<close>

definition poll_alarms :: "'v port_ops \<Rightarrow> nat \<Rightarrow> ('v, unit) wio" where
  "poll_alarms P fuel =
     io_finally
       (io_catch
         (with_ret (\<lambda>r.
            io_bind (get_alarm_status (worker_request P fuel None) r) (\<lambda>a.
            io_seq (alarms_snapshot a True)
            (io_bind (get_tilt (worker_request P fuel None) r) (\<lambda>t. io_modify (\<lambda>w. w\<lparr>w_tilt := Some t\<rparr>))))))
         (\<lambda>e. if is_link_reset e then Some (fail_link P fuel (exn_text e))
              else if is_aisg_error e then Some (io_return ()) else None))
       drain_indications"

text \<open>\<open>_keepalive_poll\<close>: one frame, \<open>False\<close> for the \<open>return\<close>.\<close>

definition keepalive_frame :: "'v port_ops \<Rightarrow> nat \<Rightarrow> int \<Rightarrow> frame \<Rightarrow> ('v, bool) wio" where
  "keepalive_frame P fuel addr fr =
     (case fr of (faddr, ctrl, pl) \<Rightarrow>
        if faddr \<noteq> addr then io_return True
        else io_bind (io_res (kind ctrl)) (\<lambda>k.
          if k = U_FRAME \<and> (ctrl AND NOT PF = CTRL_DM \<or> ctrl AND NOT PF = CTRL_FRMR)
          then io_seq (fail_link P fuel ''DM/FRMR on keepalive'') (io_return False)
          else if k = I_FRAME
          then io_bind (on_link (get_peer addr)) (\<lambda>p.
            if ns_of ctrl \<noteq> vr p then io_return True
            else io_seq (on_link (upd_peer addr (\<lambda>p. p\<lparr>vr := (ns_of ctrl + 1) AND 7\<rparr>)))
              (io_seq (on_link (send_rr (lift_ops P) addr ((ns_of ctrl + 1) AND 7) False))
              (io_seq (if pl \<noteq> [] \<and> uint (hd pl) \<in> set INDICATION_CODES then alarms_indicate pl else io_return ())
                (io_return True))))
          else io_return True))"

primrec keepalive_frames :: "'v port_ops \<Rightarrow> nat \<Rightarrow> int \<Rightarrow> frame list \<Rightarrow> ('v, unit) wio" where
  "keepalive_frames P fuel addr [] = io_return ()"
| "keepalive_frames P fuel addr (f # fs) =
     io_bind (keepalive_frame P fuel addr f) (\<lambda>go. if go then keepalive_frames P fuel addr fs else io_return ())"

definition keepalive_poll :: "'v port_ops \<Rightarrow> nat \<Rightarrow> ('v, unit) wio" where
  "keepalive_poll P fuel =
     io_catch
       (with_address (\<lambda>addr.
          io_bind (on_link (get_peer addr)) (\<lambda>p.
          io_seq (on_link (send_rr (lift_ops P) addr (vr p) True))
          (io_bind (on_link (read_frames (lift_ops P) fuel 200000)) (keepalive_frames P fuel addr)))))
       (os_or_aisg_handler (\<lambda>e. fail_link P fuel (exn_text e)))"

definition connected_housekeeping :: "'v port_ops \<Rightarrow> nat \<Rightarrow> config \<Rightarrow> time \<Rightarrow> ('v, unit) wio" where
  "connected_housekeeping P fuel cf now =
     io_bind (io_get (\<lambda>w. now - w_last_monitor_at w \<ge> cf_monitor_period cf
         \<and> (cf_monitor cf = DUTY_CYCLED \<or> cf_monitor cf = CONTINUOUS \<and> w_alarm_mode w = POLLED))) (\<lambda>due.
     io_bind (if \<not> due then io_return False
        else io_seq (io_modify (\<lambda>w. w\<lparr>w_last_monitor_at := now\<rparr>))
          (io_seq (poll_alarms P fuel)
          (io_bind (io_get w_queue) (\<lambda>q.
             if cf_monitor cf = DUTY_CYCLED \<and> q = []
             then io_seq (release P fuel) (io_seq (set_state CLOSED []) (io_return True))
             else io_return False)))) (\<lambda>returned.
     if returned then io_return ()
     else if cf_monitor cf = CONTINUOUS
     then io_bind (io_get w_last_keepalive_at) (\<lambda>last_at.
       if now - last_at \<ge> cf_keepalive cf
       then io_seq (io_modify (\<lambda>w. w\<lparr>w_last_keepalive_at := now\<rparr>)) (keepalive_poll P fuel)
       else io_return ())
     else io_bind (io_get (\<lambda>w. now - max (w_last_command_at w) (w_last_monitor_at w))) (\<lambda>idle_for.
       if cf_monitor cf = MONITOR_OFF \<and> idle_for \<ge> cf_idle_release cf
       then io_seq (release P fuel) (set_state CLOSED [])
       else io_return ())))"

section \<open>Draining\<close>

definition drain_frame :: "'v port_ops \<Rightarrow> int \<Rightarrow> frame \<Rightarrow> ('v, unit) wio" where
  "drain_frame P addr fr =
     (case fr of (faddr, ctrl, pl) \<Rightarrow>
        if faddr \<noteq> addr then io_return ()
        else io_bind (io_res (kind ctrl)) (\<lambda>k.
          if k \<noteq> I_FRAME then io_return ()
          else io_seq (on_link (upd_peer addr (\<lambda>p. p\<lparr>vr := (ns_of ctrl + 1) AND 7\<rparr>)))
                 (on_link (send_rr (lift_ops P) addr ((ns_of ctrl + 1) AND 7) True))))"

primrec drain_frames :: "'v port_ops \<Rightarrow> int \<Rightarrow> frame list \<Rightarrow> ('v, unit) wio" where
  "drain_frames P addr [] = io_return ()"
| "drain_frames P addr (f # fs) = io_seq (drain_frame P addr f) (drain_frames P addr fs)"

primrec drain_loop :: "'v port_ops \<Rightarrow> nat \<Rightarrow> time \<Rightarrow> nat \<Rightarrow> ('v, unit) wio" where
  "drain_loop P fuel end_at 0 = io_raise Diverged"
| "drain_loop P fuel end_at (Suc n) =
     io_bind (w_now P) (\<lambda>now.
       if \<not> now < end_at then io_return ()
       else io_bind (on_link (read_frames (lift_ops P) fuel 200000)) (\<lambda>frames.
         if frames = [] then io_return ()
         else with_address (\<lambda>addr.
           io_seq (on_link (get_peer addr))
             (io_seq (drain_frames P addr frames) (drain_loop P fuel end_at n)))))"

definition drain :: "'v port_ops \<Rightarrow> nat \<Rightarrow> ('v, unit) wio" where
  "drain P fuel =
     io_bind (w_now P) (\<lambda>now.
     io_try (drain_loop P fuel (now + 1500000) fuel)
       (os_or_aisg_handler (\<lambda>e. fail_link P fuel (exn_text e))) (\<lambda>_. set_state CONNECTED []))"

section \<open>Commands\<close>

definition report_progress ::
  "'v port_ops \<Rightarrow> string \<Rightarrow> time \<Rightarrow> int \<Rightarrow> bool \<Rightarrow> 'v shared \<Rightarrow> 'v shared" where
  "report_progress P name started n was_acked sh =
     (if n mod 20 = 0
      then (case monotonic (lift_ops P) sh of (t, sh') \<Rightarrow>
        sh'\<lparr>sh_events := sh_events sh' @ [EvProgress name n was_acked (round_time 100000 (t - started))]\<rparr>)
      else sh)"

definition execute_error :: "'v port_ops \<Rightarrow> nat \<Rightarrow> command \<Rightarrow> exn \<Rightarrow> ('v, unit) wio option" where
  "execute_error P fuel c e =
     (if is_link_reset e
      then Some (io_seq (set_last_error (exn_text e))
             (io_seq (fail_link P fuel (exn_text e)) (resolve c (Inl e))))
      else if is_aisg_error e
      then Some (io_seq (set_last_error (exn_text e))
             (io_seq (case e of
                AisgTimeout _ _ was_acked _ \<Rightarrow>
                  if was_acked then set_state DRAINING ''late response expected'' else io_return ()
              | _ \<Rightarrow> io_return ())
              (resolve c (Inl e))))
      else None)"

definition execute :: "'v port_ops \<Rightarrow> nat \<Rightarrow> config \<Rightarrow> command \<Rightarrow> ('v, unit) wio" where
  "execute P fuel cf c =
     io_bind (w_now P) (\<lambda>started.
     io_seq (if cmd_name c = ''set_tilt''
             then io_bind (io_res (target_degrees (cmd_args c)))
                    (\<lambda>t. io_modify (\<lambda>w. w\<lparr>w_target_tilt := Some t\<rparr>))
             else io_return ())
     (io_finally
       (io_try
         (with_ret (\<lambda>r. call_command (worker_request P fuel (Some (report_progress P (cmd_name c) started)))
            r (cmd_name c) (cmd_args c)))
         (execute_error P fuel c)
         (\<lambda>result. io_seq (absorb P cf result) (resolve c (Inr result))))
       (io_seq (io_bind (w_now P) (\<lambda>now. io_modify (\<lambda>w. w\<lparr>w_last_command_at := now\<rparr>)))
         drain_indications)))"

text \<open>\<open>_try_execute\<close>, with the state and the last error that it reads after refreshing the lease.\<close>

definition attempt :: "'v port_ops \<Rightarrow> nat \<Rightarrow> config \<Rightarrow> command \<Rightarrow> link_state \<Rightarrow> string \<Rightarrow> ('v, bool) wio" where
  "attempt P fuel cf c st last_error =
     (if st = CONNECTED
      then io_bind (claim c) (\<lambda>ok.
             if \<not> ok then io_return True
             else io_seq (execute P fuel cf c) (io_return True))
      else if st \<in> set FAIL_FAST
      then io_seq (abandon c (session_error st last_error)) (io_return True)
      else io_bind (w_now P) (\<lambda>now.
        if now > link_deadline c
        then io_seq (abandon c (session_error st ''timed out waiting for link'')) (io_return True)
        else io_seq (io_modify (\<lambda>w. w\<lparr>w_want_link := True\<rparr>)) (io_return False)))"

definition try_execute :: "'v port_ops \<Rightarrow> nat \<Rightarrow> config \<Rightarrow> command \<Rightarrow> ('v, bool) wio" where
  "try_execute P fuel cf c =
     io_seq (refresh_lease P)
       (io_bind (io_get (\<lambda>w. w)) (\<lambda>w. attempt P fuel cf c (w_state w) (w_last_error w)))"

section \<open>The state machine\<close>

definition step :: "'v port_ops \<Rightarrow> nat \<Rightarrow> config \<Rightarrow> ('v, unit) wio" where
  "step P fuel cf =
     io_bind (w_now P) (\<lambda>now.
     io_bind (io_get (\<lambda>w. w)) (\<lambda>w.
       if w_lease_until w > now
       then io_seq (if w_state w \<noteq> LEASED \<and> w_state w \<noteq> CLOSED then release P fuel else io_return ())
              (set_state LEASED [])
       else io_seq (if w_state w = LEASED then set_state CLOSED [] else io_return ())
         (io_bind (io_get w_state) (\<lambda>st.
            if st \<in> {CLOSED, PORT_BUSY, PORT_LOST, NO_DEVICES}
            then io_bind (io_get (should_open cf now)) (\<lambda>b. if b then open_and_connect P fuel cf else io_return ())
            else if st = BACKOFF
            then (if now \<ge> w_backoff_until w then set_state CLOSED [] else io_return ())
            else if st = DRAINING then drain P fuel
            else if st = CONNECTED then connected_housekeeping P fuel cf now
            else io_return ()))))"

primrec teardown_queue :: "command list \<Rightarrow> ('v, unit) wio" where
  "teardown_queue [] = io_return ()"
| "teardown_queue (c # cs) =
     io_seq (io_modify (\<lambda>w. w\<lparr>w_queue := cs\<rparr>))
       (io_seq (abandon c (session_error SHUTDOWN [])) (teardown_queue cs))"

definition teardown :: "'v port_ops \<Rightarrow> nat \<Rightarrow> ('v, unit) wio" where
  "teardown P fuel = io_seq (io_bind (io_get w_queue) teardown_queue) (release P fuel)"

text \<open>
  \<open>run\<close>. The loop is cut where the thread waits: at its top, and where it blocks on the queue. \<open>DEAD\<close>
  is a thread that an exception has ended; \<open>HUNG\<close> one that is in a loop of the model that ran out of
  fuel.
\<close>

datatype phase = TOP | WAIT | SERVE | STOPPED | DEAD | HUNG

record 'v runner =
  rn_worker :: "'v worker"
  rn_head :: "command option"
  rn_phase :: phase

definition new_runner :: "'v port_ops \<Rightarrow> 'v \<Rightarrow> 'v runner" where
  "new_runner P v = \<lparr>rn_worker = new_worker P v, rn_head = None, rn_phase = TOP\<rparr>"

definition pause :: "'v port_ops \<Rightarrow> time \<Rightarrow> ('v, unit) wio" where
  "pause P t = io_modify (\<lambda>w. w\<lparr>w_shared := sleep (lift_ops P) t (w_shared w)\<rparr>)"

text \<open>The \<open>except Exception\<close> clause of \<open>run\<close>; what it raises itself ends the thread.\<close>

definition recover :: "'v port_ops \<Rightarrow> nat \<Rightarrow> exn \<Rightarrow> 'v runner \<Rightarrow> 'v runner" where
  "recover P fuel e r =
     (if e = Diverged then r\<lparr>rn_phase := HUNG\<rparr>
      else case io_seq (fail_link P fuel ''internal error'') (pause P 500000) (rn_worker r) of
             (Inr _, w) \<Rightarrow> r\<lparr>rn_worker := w, rn_phase := TOP\<rparr>
           | (Inl e', w) \<Rightarrow> r\<lparr>rn_worker := w, rn_phase := (if e' = Diverged then HUNG else DEAD)\<rparr>)"

definition turn_top :: "'v port_ops \<Rightarrow> nat \<Rightarrow> config \<Rightarrow> 'v runner \<Rightarrow> 'v runner" where
  "turn_top P fuel cf r =
     (if w_stopping (rn_worker r)
      then (case io_seq (teardown P fuel) (set_state SHUTDOWN []) (rn_worker r) of
              (Inr _, w) \<Rightarrow> r\<lparr>rn_worker := w, rn_phase := STOPPED\<rparr>
            | (Inl e, w) \<Rightarrow> r\<lparr>rn_worker := w, rn_phase := (if e = Diverged then HUNG else DEAD)\<rparr>)
      else (case io_seq (io_bind (w_now P) (\<lambda>now. io_modify (\<lambda>w. w\<lparr>w_heartbeat := now\<rparr>)))
                   (refresh_lease P) (rn_worker r) of
              (Inr _, w) \<Rightarrow> r\<lparr>rn_worker := w, rn_phase := (if rn_head r = None then WAIT else SERVE)\<rparr>
            | (Inl e, w) \<Rightarrow> recover P fuel e (r\<lparr>rn_worker := w\<rparr>)))"

text \<open>\<open>_take\<close>: an empty queue is waited on for one tick.\<close>

definition turn_wait :: "'v port_ops \<Rightarrow> config \<Rightarrow> 'v runner \<Rightarrow> 'v runner" where
  "turn_wait P cf r =
     (case q_get (w_queue (rn_worker r)) of
        Some (c, q) \<Rightarrow> r\<lparr>rn_worker := (rn_worker r)\<lparr>w_queue := q\<rparr>, rn_head := Some c, rn_phase := SERVE\<rparr>
      | None \<Rightarrow> r\<lparr>rn_worker := snd (pause P (tick_budget cf (rn_worker r)) (rn_worker r)), rn_phase := SERVE\<rparr>)"

definition serve :: "'v port_ops \<Rightarrow> nat \<Rightarrow> config \<Rightarrow> command option \<Rightarrow> ('v, bool) wio" where
  "serve P fuel cf head =
     (case head of
        None \<Rightarrow> io_seq (step P fuel cf) (io_return False)
      | Some c \<Rightarrow> io_bind (try_execute P fuel cf c) (\<lambda>handled.
          if handled then io_return True else io_seq (step P fuel cf) (io_return False)))"

definition turn_serve :: "'v port_ops \<Rightarrow> nat \<Rightarrow> config \<Rightarrow> 'v runner \<Rightarrow> 'v runner" where
  "turn_serve P fuel cf r =
     (case serve P fuel cf (rn_head r) (rn_worker r) of
        (Inr handled, w) \<Rightarrow>
          r\<lparr>rn_worker := w, rn_head := (if handled then None else rn_head r), rn_phase := TOP\<rparr>
      | (Inl e, w) \<Rightarrow> recover P fuel e (r\<lparr>rn_worker := w\<rparr>))"

definition turn :: "'v port_ops \<Rightarrow> nat \<Rightarrow> config \<Rightarrow> 'v runner \<Rightarrow> 'v runner" where
  "turn P fuel cf r =
     (case rn_phase r of
        TOP \<Rightarrow> turn_top P fuel cf r
      | WAIT \<Rightarrow> turn_wait P cf r
      | SERVE \<Rightarrow> turn_serve P fuel cf r
      | _ \<Rightarrow> r)"

text \<open>
  What can happen next: the thread goes on, or another thread calls one of the public methods, which
  it can do whenever the worker waits. \<open>E\<close> is the exception or value that a call answers with.
\<close>

definition call :: "('v, 'a) wio \<Rightarrow> 'v runner \<Rightarrow> 'v runner" where
  "call m r = r\<lparr>rn_worker := snd (m (rn_worker r))\<rparr>"

inductive session_step :: "'v port_ops \<Rightarrow> nat \<Rightarrow> config \<Rightarrow> 'v runner \<Rightarrow> 'v runner \<Rightarrow> bool"
  for P :: "'v port_ops" and fuel :: nat and cf :: config where
  turn: "session_step P fuel cf r (turn P fuel cf r)"
| submit: "session_step P fuel cf r (call (submit P name args prio link_wait) r)"
| cancel: "session_step P fuel cf r (call (cancel n) r)"
| lease: "session_step P fuel cf r (call (lease P seconds) r)"
| unlease: "session_step P fuel cf r (call unlease r)"
| snapshot: "session_step P fuel cf r (call (snapshot P cf) r)"
| stop: "session_step P fuel cf r (call stop r)"

inductive reachable :: "'v port_ops \<Rightarrow> nat \<Rightarrow> config \<Rightarrow> 'v runner \<Rightarrow> bool"
  for P :: "'v port_ops" and fuel :: nat and cf :: config where
  start: "reachable P fuel cf (new_runner P v)"
| more: "reachable P fuel cf r \<Longrightarrow> session_step P fuel cf r r' \<Longrightarrow> reachable P fuel cf r'"

end
