(* ===== verification/Session_Invariant.thy ===== *)
theory Session_Invariant
  imports Session_Worker
begin

text \<open>
  The invariants of the worker. A predicate \<open>stands\<close> fixes the state, whether there is a link, the address
  and the public part of the worker (the queue, the futures, the lease, which only other threads and
  the futures' own operations change); most operations keep every instance of it, and the few that do
  not have a contract that says where they lead.
\<close>

section \<open>Where the worker is\<close>

record book =
  bk_queue :: "command list"
  bk_next_seq :: nat
  bk_futures :: "nat \<rightharpoonup> future"
  bk_lease_until :: time
  bk_stopping :: bool

definition book_of :: "'v worker \<Rightarrow> book" where
  "book_of w = \<lparr>bk_queue = w_queue w, bk_next_seq = w_next_seq w, bk_futures = w_futures w,
     bk_lease_until = w_lease_until w, bk_stopping = w_stopping w\<rparr>"

definition base :: "'v worker \<Rightarrow> bool" where
  "base w \<longleftrightarrow> (case w_link w of None \<Rightarrow> True | Some l \<Rightarrow> link_ok l) \<and> alarms_ok (w_alarms w)
     \<and> 1000000 \<le> w_backoff w \<and> w_backoff w \<le> 60000000"

definition stands :: "link_state \<Rightarrow> bool \<Rightarrow> int option \<Rightarrow> book \<Rightarrow> 'v worker \<Rightarrow> bool" where
  "stands st up a b w \<longleftrightarrow>
     base w \<and> w_state w = st \<and> (w_link w \<noteq> None) = up \<and> w_address w = a \<and> book_of w = b"

text \<open>No fd and no lock in these states; a session with a device in those.\<close>

definition closed_states :: "link_state set" where
  "closed_states = {CLOSED, PORT_BUSY, PORT_LOST, NO_DEVICES, BACKOFF, LEASED, SHUTDOWN}"

definition session_states :: "link_state set" where
  "session_states = {CONNECTED, DRAINING}"

definition good :: "link_state \<Rightarrow> bool \<Rightarrow> int option \<Rightarrow> bool" where
  "good st up a \<longleftrightarrow> (st \<in> closed_states \<longrightarrow> \<not> up) \<and> (st \<in> session_states \<longrightarrow> up \<and> a \<noteq> None)"

definition sane :: "book \<Rightarrow> 'v worker \<Rightarrow> bool" where
  "sane b w \<longleftrightarrow> (\<exists>st up a. good st up a \<and> stands st up a b w)"

lemma sane_iff: "sane b w \<longleftrightarrow> base w \<and> book_of w = b \<and> good (w_state w) (w_link w \<noteq> None) (w_address w)"
  by (auto simp: sane_def stands_def)

lemma good_other: "st \<notin> closed_states \<Longrightarrow> st \<notin> session_states \<Longrightarrow> good st up a"
  by (simp add: good_def)

lemma good_states [simp]:
  "good OPENING up a" "good DISCOVERING up a" "good CONNECTING up a" "good RELEASING up a"
  "good CLOSED up a \<longleftrightarrow> \<not> up" "good PORT_BUSY up a \<longleftrightarrow> \<not> up" "good PORT_LOST up a \<longleftrightarrow> \<not> up"
  "good NO_DEVICES up a \<longleftrightarrow> \<not> up" "good BACKOFF up a \<longleftrightarrow> \<not> up" "good LEASED up a \<longleftrightarrow> \<not> up"
  "good SHUTDOWN up a \<longleftrightarrow> \<not> up" "good CONNECTED up a \<longleftrightarrow> up \<and> a \<noteq> None"
  "good DRAINING up a \<longleftrightarrow> up \<and> a \<noteq> None"
  by (simp_all add: good_def closed_states_def session_states_def)

text \<open>Nothing that the worker runs reaches for a link that is not there.\<close>

definition tame :: "exn \<Rightarrow> bool" where
  "tame e \<longleftrightarrow> e \<noteq> AttributeError"

lemma tame_simps [simp]: "tame ValueError" "tame StructError" "tame IndexError" "tame KeyError" "tame TypeError"
  "tame RuntimeError" "tame InvalidStateError" "tame Diverged" "tame (AisgError m)" "tame (FrameError m)"
  "tame (OSError m)" "tame (LinkReset a r)" "tame (RetError p c)"
  by (simp_all add: tame_def)

lemma link_error_tame: "link_error e \<Longrightarrow> tame e"
  by (cases e) (auto simp: link_error_def tame_def line_error_def is_frame_error_def)

lemma transfer_exn_tame: "transfer_exn e \<Longrightarrow> tame e"
  by (cases e) (auto simp: transfer_exn_def tame_def line_error_def)

section \<open>What keeps the worker where it is\<close>

lemma book_of_simps [simp]:
  "book_of (w\<lparr>w_state := st\<rparr>) = book_of w" "book_of (w\<lparr>w_link := l\<rparr>) = book_of w"
  "book_of (w\<lparr>w_shared := sh\<rparr>) = book_of w" "book_of (w\<lparr>w_device := d\<rparr>) = book_of w"
  "book_of (w\<lparr>w_address := a\<rparr>) = book_of w" "book_of (w\<lparr>w_identity := i\<rparr>) = book_of w"
  "book_of (w\<lparr>w_device_data := dd\<rparr>) = book_of w" "book_of (w\<lparr>w_tilt := t\<rparr>) = book_of w"
  "book_of (w\<lparr>w_target_tilt := t\<rparr>) = book_of w" "book_of (w\<lparr>w_alarms := al\<rparr>) = book_of w"
  "book_of (w\<lparr>w_alarm_mode := m\<rparr>) = book_of w" "book_of (w\<lparr>w_subscribe_unsupported := x\<rparr>) = book_of w"
  "book_of (w\<lparr>w_last_error := er\<rparr>) = book_of w" "book_of (w\<lparr>w_last_command_at := n\<rparr>) = book_of w"
  "book_of (w\<lparr>w_last_monitor_at := n\<rparr>) = book_of w" "book_of (w\<lparr>w_last_keepalive_at := n\<rparr>) = book_of w"
  "book_of (w\<lparr>w_backoff := n\<rparr>) = book_of w" "book_of (w\<lparr>w_backoff_until := n\<rparr>) = book_of w"
  "book_of (w\<lparr>w_heartbeat := n\<rparr>) = book_of w" "book_of (w\<lparr>w_want_link := x\<rparr>) = book_of w"
  by (simp_all add: book_of_def)

lemma safe_field [safe_intros]:
  "io_safe (stands st up a b) E (io_modify (\<lambda>w. w\<lparr>w_shared := f w\<rparr>))"
  "io_safe (stands st up a b) E (io_modify (\<lambda>w. w\<lparr>w_device := x1\<rparr>))"
  "io_safe (stands st up a b) E (io_modify (\<lambda>w. w\<lparr>w_identity := x2\<rparr>))"
  "io_safe (stands st up a b) E (io_modify (\<lambda>w. w\<lparr>w_device_data := x3\<rparr>))"
  "io_safe (stands st up a b) E (io_modify (\<lambda>w. w\<lparr>w_tilt := x4\<rparr>))"
  "io_safe (stands st up a b) E (io_modify (\<lambda>w. w\<lparr>w_target_tilt := x4\<rparr>))"
  "io_safe (stands st up a b) E (io_modify (\<lambda>w. w\<lparr>w_alarm_mode := x5\<rparr>))"
  "io_safe (stands st up a b) E (io_modify (\<lambda>w. w\<lparr>w_subscribe_unsupported := x6\<rparr>))"
  "io_safe (stands st up a b) E (io_modify (\<lambda>w. w\<lparr>w_last_command_at := n\<rparr>))"
  "io_safe (stands st up a b) E (io_modify (\<lambda>w. w\<lparr>w_last_monitor_at := n\<rparr>))"
  "io_safe (stands st up a b) E (io_modify (\<lambda>w. w\<lparr>w_last_keepalive_at := n\<rparr>))"
  "io_safe (stands st up a b) E (io_modify (\<lambda>w. w\<lparr>w_backoff := 1000000\<rparr>))"
  "io_safe (stands st up a b) E (io_modify (\<lambda>w. w\<lparr>w_heartbeat := n\<rparr>))"
  "io_safe (stands st up a b) E (io_modify (\<lambda>w. w\<lparr>w_want_link := x6\<rparr>))"
  by (rule io_safe_modify, simp add: stands_def base_def)+

lemma safe_set_last_error [safe_intros]: "io_safe (stands st up a b) E (set_last_error m)"
  unfolding set_last_error_def by (rule io_safe_modify) (simp add: stands_def base_def)

lemma safe_w_now [safe_intros]: "io_safe (stands st up a b) E (w_now P)"
  by (rule io_safe_post) (auto simp: io_post_def w_now_def stands_def base_def split: prod.split)

lemma safe_emit [safe_intros]: "io_safe (stands st up a b) E (emit ev)"
  by (rule io_safe_post) (auto simp: io_post_def emit_def stands_def base_def)

lemma safe_emit_all [safe_intros]: "io_safe (stands st up a b) E (emit_all evs)"
  by (induction evs) (auto intro: safe_intros)

lemma safe_pause [safe_intros]: "io_safe (stands st up a b) E (pause P t)"
  unfolding pause_def by (intro safe_intros)

lemma safe_snapshot [safe_intros]: "io_safe (stands st up a b) E (snapshot P cf)"
  unfolding snapshot_def by (intro safe_intros)

lemma safe_track_alarms: "alarms_ok (snd r) \<Longrightarrow> io_safe (stands st up a b) E (track_alarms r)"
  unfolding track_alarms_def
  by (cases r) (auto intro!: safe_intros io_safe_modify simp: stands_def base_def)

lemma safe_alarms_snapshot [safe_intros]: "io_safe (stands st up a b) E (alarms_snapshot names e)"
  unfolding alarms_snapshot_def by (intro safe_intros safe_track_alarms alarms_ok_snapshot) simp

lemma safe_alarms_indicate [safe_intros]: "io_safe (stands st up a b) E (alarms_indicate pl)"
  unfolding alarms_indicate_def
  by (intro io_safe_bind_get safe_track_alarms alarms_ok_indicate) (simp add: stands_def base_def)

lemma safe_absorb [safe_intros]: "io_safe (stands st up a b) E (absorb P cf r)"
  unfolding absorb_def by (cases r) (auto intro!: safe_intros)

lemma safe_drain_list: "io_safe (stands st up a b) E (drain_list ps)"
  by (induction ps) (auto intro!: safe_intros)

lemma safe_drain_indications [safe_intros]: "io_safe (stands st up a b) E drain_indications"
  unfolding drain_indications_def by (intro io_safe_bind_get safe_drain_list)

text \<open>An operation of the link.\<close>

lemma link_ok_world [simp]: "link_ok (l\<lparr>world := x\<rparr>) = link_ok l"
  by (simp add: link_ok_def)

lemma safe_on_link:
  fixes m :: "('v shared link, 'x) io"
  assumes "io_safe link_ok link_error m"
  shows "io_safe (stands st True a b) tame (on_link m)"
proof (rule io_safe_post, unfold io_post_def, intro allI impI)
  fix w :: "'v worker" assume w: "stands st True a b w"
  then obtain l where l: "w_link w = Some l" "link_ok (l\<lparr>world := w_shared w\<rparr>)"
    by (auto simp: stands_def base_def)
  obtain r l' where m: "m (l\<lparr>world := w_shared w\<rparr>) = (r, l')" by (cases "m (l\<lparr>world := w_shared w\<rparr>)")
  have "stands st True a b (w\<lparr>w_link := Some l', w_shared := world l'\<rparr>)"
    using w io_safe_keeps [OF assms l(2) m] by (simp add: stands_def base_def)
  then show "case on_link m w of (Inl e, w') \<Rightarrow> tame e \<and> stands st True a b w' | (Inr x, w') \<Rightarrow> stands st True a b w'"
    using io_safe_raises [OF assms l(2)] m l(1) link_error_tame
    by (cases r) (auto simp: on_link_def)
qed

lemma transfer_link_error: "transfer_exn e \<Longrightarrow> link_error e"
  by (auto simp: transfer_exn_def line_link_error)

interpretation session: transport "worker_request P fuel on_poll" "stands st True a b" tame
  for P :: "'v port_ops" and fuel on_poll st a b
proof
  show "io_safe (stands st True a b) tame (worker_request P fuel on_poll addr m t)" for addr m t
    unfolding worker_request_def transport_request_def
    by (rule safe_on_link [OF io_safe_mono [OF safe_exchange transfer_link_error]])
qed

section \<open>What moves it\<close>

definition lands :: "book \<Rightarrow> ('v worker \<Rightarrow> bool) \<Rightarrow> ('v, 'a) wio \<Rightarrow> bool" where
  "lands b I m \<longleftrightarrow> io_post I m (\<lambda>_. sane b) (\<lambda>e w. tame e \<and> sane b w)"

lemma stands_sane: "stands st up a b w \<Longrightarrow> good st up a \<Longrightarrow> sane b w"
  by (auto simp: sane_def)

lemma lands_safe: "io_safe (stands st up a b) tame m \<Longrightarrow> good st up a \<Longrightarrow> lands b (stands st up a b) m"
  unfolding lands_def io_safe_def by (erule io_post_conseq) (auto intro: stands_sane)

lemma lands_bind:
  "io_safe (stands st up a b) tame m \<Longrightarrow> good st up a \<Longrightarrow> (\<And>x. lands b (stands st up a b) (f x)) \<Longrightarrow>
    lands b (stands st up a b) (io_bind m f)"
  unfolding lands_def io_safe_def
  by (rule io_post_bind [where R = "\<lambda>_. stands st up a b"], erule io_post_conseq) (auto intro: stands_sane)

lemma lands_seq:
  "io_safe (stands st up a b) tame m \<Longrightarrow> good st up a \<Longrightarrow> lands b (stands st up a b) k \<Longrightarrow>
    lands b (stands st up a b) (io_seq m k)"
  unfolding io_seq_def by (rule lands_bind)

lemma lands_get:
  "(\<And>w. I w \<Longrightarrow> lands b I (f (g w))) \<Longrightarrow> lands b I (io_bind (io_get g) f)"
  unfolding lands_def by (rule io_post_get)

lemma lands_if: "(c \<Longrightarrow> lands b I m) \<Longrightarrow> (\<not> c \<Longrightarrow> lands b I k) \<Longrightarrow> lands b I (if c then m else k)"
  by simp

lemma lands_post:
  "io_post I m (\<lambda>_. J) (\<lambda>e w. tame e \<and> sane b w) \<Longrightarrow> lands b J k \<Longrightarrow> lands b I (io_seq m k)"
  unfolding lands_def by (rule io_post_seq)

lemma lands_try:
  "io_safe (stands st up a b) tame m \<Longrightarrow> good st up a \<Longrightarrow>
    (\<And>e k'. h e = Some k' \<Longrightarrow> lands b (stands st up a b) k') \<Longrightarrow>
    (\<And>x. lands b (stands st up a b) (k x)) \<Longrightarrow> lands b (stands st up a b) (io_try m h k)"
  unfolding lands_def io_safe_def
  by (rule io_post_try, assumption, assumption)
    (auto intro: stands_sane io_post_conseq)

lemma post_set_state: "io_post (stands st up a b) (set_state st' err) (\<lambda>_. stands st' up a b) E"
  by (auto simp: io_post_def set_state_def emit_def stands_def base_def)

lemma lands_set_state:
  "lands b (stands st' up a b) k \<Longrightarrow> lands b (stands st up a b) (io_seq (set_state st' err) k)"
  by (rule lands_post [OF post_set_state])

lemma lands_state: "good st' up a \<Longrightarrow> lands b (stands st up a b) (set_state st' err)"
  unfolding lands_def by (rule io_post_conseq [OF post_set_state [where E = "\<lambda>_ _. False"]]) (auto intro: stands_sane)

text \<open>\<open>_release\<close>: afterwards there is no link, unless the reply to DISC was garbled.\<close>

definition down :: "int option \<Rightarrow> book \<Rightarrow> 'v worker \<Rightarrow> bool" where
  "down a b w \<longleftrightarrow> (\<exists>st. stands st False a b w)"

lemma post_release_link:
  "io_post (stands st True a b) (release_link P fuel) (\<lambda>_. down a b) (\<lambda>e w. tame e \<and> stands RELEASING True a b w)"
proof -
  let ?I = "stands RELEASING True a b"
  have d: "io_safe ?I tame (io_catch (io_bind (io_get w_address) (\<lambda>a. case a of None \<Rightarrow> io_return ()
      | Some addr \<Rightarrow> on_link (disconnect_link (lift_ops P) fuel addr None)))
      (os_or_aisg_handler (\<lambda>_. io_return ())))"
    by (rule io_safe_catch [where E' = tame])
      (auto simp: os_or_aisg_handler_def intro!: safe_intros safe_on_link split: option.split if_splits)
  have "io_safe link_ok link_error (close_link (lift_ops P))"
    unfolding close_link_def
    by (rule io_safe_mono [OF io_safeI [OF ok.keeps_on_port raises_on_port] line_link_error])
  then have c: "io_safe ?I tame (io_catch (on_link (close_link (lift_ops P)))
      (\<lambda>e. if is_os_error e then Some (io_return ()) else None))"
    by (intro io_safe_catch [where E' = tame] safe_on_link) (auto intro!: safe_intros split: if_splits)
  have "io_post ?I (io_modify (\<lambda>w. w\<lparr>w_link := None\<rparr>)) (\<lambda>_. down a b) (\<lambda>e w. tame e \<and> ?I w)"
    by (rule io_post_modify) (auto simp: down_def stands_def base_def)
  then show ?thesis
    unfolding release_link_def
    by (intro io_post_seq [OF post_set_state] io_post_seq [OF d [unfolded io_safe_def]]
        io_post_seq [OF c [unfolded io_safe_def]])
qed

lemma post_release:
  "io_post (stands st up a b) (release P fuel) (\<lambda>_. down a b) (\<lambda>e w. tame e \<and> stands RELEASING True a b w)"
proof (cases up)
  case True
  show ?thesis
    unfolding io_post_def
  proof (intro allI impI)
    fix w :: "'a worker" assume w: "stands st up a b w"
    have "release P fuel w = release_link P fuel w"
      using w True by (auto simp: release_def io_defs stands_def)
    then show "case release P fuel w of (Inl e, w') \<Rightarrow> tame e \<and> stands RELEASING True a b w' | (Inr x, w') \<Rightarrow> down a b w'"
      using post_release_link [of st a b P fuel, unfolded io_post_def, rule_format, of w] w True by simp
  qed
next
  case False
  then show ?thesis
    unfolding release_def
    by (intro io_post_get) (auto simp: stands_def down_def intro!: io_post_return)
qed

definition resting :: "link_state set" where
  "resting = {PORT_BUSY, PORT_LOST, NO_DEVICES, BACKOFF}"

lemma post_arm_backoff:
  assumes "st \<in> resting"
  shows "io_post (stands st False a b) (arm_backoff P) (\<lambda>_. stands st False a b) E"
proof -
  let ?I = "stands st False a b"
  have 1: "io_post ?I (io_modify (\<lambda>w. w\<lparr>w_backoff := min (w_backoff w * 2) 60000000\<rparr>)) (\<lambda>_. ?I) E"
    by (rule io_post_modify) (auto simp: stands_def base_def)
  have 2: "io_post ?I (w_now P) (\<lambda>_. ?I) E"
    using safe_w_now [of st False a b "\<lambda>_. False" P] unfolding io_safe_def by (rule io_post_conseq) auto
  have 3: "io_post ?I (io_modify (\<lambda>w. w\<lparr>w_backoff_until := n + w_backoff w\<rparr>)) (\<lambda>_. ?I) E" for n
    by (rule io_post_modify) (auto simp: stands_def base_def)
  have 4: "io_post ?I (io_bind (io_get w_state) (\<lambda>st.
         if st \<notin> {PORT_BUSY, PORT_LOST, NO_DEVICES} then set_state BACKOFF [] else io_return ())) (\<lambda>_. ?I) E"
  proof (rule io_post_get)
    fix w :: "'a worker" assume "?I w"
    then have "w_state w = st" by (simp add: stands_def)
    then show "io_post ?I (if w_state w \<notin> {PORT_BUSY, PORT_LOST, NO_DEVICES} then set_state BACKOFF []
        else io_return ()) (\<lambda>_. ?I) E"
      using assms post_set_state [of st False a b BACKOFF "[]" E]
      by (auto simp: resting_def intro!: io_post_return)
  qed
  show ?thesis
    unfolding arm_backoff_def by (intro io_post_seq [OF 1] io_post_bind [OF 2] io_post_seq [OF 3] 4)
qed

lemma post_settle:
  "st' \<in> resting \<Longrightarrow> io_post (down a b) (settle P st' err) (\<lambda>_. stands st' False a b) E"
  unfolding settle_def down_def by (intro io_post_ex io_post_seq [OF post_set_state post_arm_backoff])

lemma post_give_up:
  "st' \<in> resting \<Longrightarrow> io_post (stands st up a b) (give_up P fuel st' err)
    (\<lambda>_. stands st' False a b) (\<lambda>e w. tame e \<and> stands RELEASING True a b w)"
  unfolding give_up_def by (intro io_post_seq [OF post_release post_settle])

lemma post_fail_link:
  "io_post (stands st up a b) (fail_link P fuel why)
    (\<lambda>_. stands BACKOFF False a b) (\<lambda>e w. tame e \<and> stands RELEASING True a b w)"
  unfolding fail_link_def by (rule post_give_up) (simp add: resting_def)

lemma resting_good [simp]: "st \<in> resting \<Longrightarrow> good st False a"
  by (auto simp: resting_def)

lemma lands_give_up: "st' \<in> resting \<Longrightarrow> lands b (stands st up a b) (give_up P fuel st' err)"
  unfolding lands_def by (rule io_post_conseq [OF post_give_up]) (auto intro: stands_sane)

lemma lands_fail_link: "lands b (stands st up a b) (fail_link P fuel why)"
  unfolding fail_link_def by (rule lands_give_up) (simp add: resting_def)

lemma lands_settle: "st' \<in> resting \<Longrightarrow> lands b (stands st False a b) (settle P st' err)"
  unfolding lands_def
  by (rule io_post_conseq [OF post_settle [where E = "\<lambda>_ _. False"]]) (auto simp: down_def intro: stands_sane)

lemma lands_return: "good st up a \<Longrightarrow> lands b (stands st up a b) (io_return x)"
  by (rule lands_safe) (auto intro: safe_intros)

section \<open>Opening and connecting\<close>

lemma safe_aisg: "io_safe I tame m \<Longrightarrow> (\<And>e. io_safe I tame (h e)) \<Longrightarrow> io_safe I tame (io_catch m (aisg_handler h))"
  by (rule io_safe_catch [where E' = tame]) (auto simp: aisg_handler_def split: if_splits)

lemma safe_clear_addresses: "io_safe (stands st True a b) tame (clear_addresses P fuel addrs)"
  by (induction addrs) (auto intro!: safe_intros safe_aisg safe_on_link)

lemma post_clear_stale_links:
  "io_post (stands st True a b) (clear_stale_links P fuel cf) (\<lambda>_. stands st True None b)
    (\<lambda>e w. tame e \<and> stands st True a b w)"
  unfolding clear_stale_links_def
  by (intro io_post_get io_post_seq [OF safe_clear_addresses [unfolded io_safe_def]] io_post_modify)
    (auto simp: stands_def base_def)

lemma safe_assign_all [safe_intros]: "io_safe link_ok link_error (assign_all P fuel ds addr)"
  by (induction ds arbitrary: addr) (auto intro!: safe_intros)

lemma safe_disconnect_all [safe_intros]:
  "list_all (\<lambda>d. address d \<noteq> None) ds \<Longrightarrow> io_safe link_ok link_error (disconnect_all P fuel ds)"
  by (induction ds)
    (auto simp: aisg_handler_def intro!: safe_intros io_safe_catch [where E' = link_error] split: if_splits)

text \<open>The devices that the probe of the address range finds have addresses.\<close>

lemma scan_assigned_addresses:
  "io_post (\<lambda>_. True) (scan_assigned n P fuel first) (\<lambda>ds _. list_all (\<lambda>d. address d \<noteq> None) ds) (\<lambda>_ _. True)"
proof (induction n arbitrary: first)
  case 0
  show ?case by (simp add: io_post_return)
next
  case (Suc n)
  have t: "io_post (\<lambda>_. True) m (\<lambda>_ _. True) (\<lambda>_ _. True)" for m :: "('w link, 'x) io"
    by (auto simp: io_post_def split: prod.split sum.split)
  have "io_post (\<lambda>_. list_all (\<lambda>d. address d \<noteq> None) ds) (io_return (if found then
      \<lparr>unique_id = [], device_type = None, vendor = None, address = Some first\<rparr> # ds else ds))
      (\<lambda>ds _. list_all (\<lambda>d. address d \<noteq> None) ds) (\<lambda>_ _. True)" for found ds
    by (rule io_post_return) simp
  then show ?case
    unfolding scan_assigned.simps by (intro io_post_bind [OF t] io_post_bind [OF Suc.IH])
qed

lemma safe_discover: "io_safe (stands st True a b) tame (discover P fuel cf)"
proof -
  let ?I = "stands st True a b"
  let ?probe = "scan_assigned (nat (cf_probe_count cf)) (lift_ops P) fuel (cf_first_address cf)"
  have rest: "list_all (\<lambda>d. address d \<noteq> None) found \<Longrightarrow> io_safe ?I tame (case found of
            [] \<Rightarrow> io_return None
          | d # others \<Rightarrow> io_seq (on_link (disconnect_all (lift_ops P) fuel others)) (io_return (address d)))" for found
    by (cases found) (auto intro!: safe_intros safe_on_link)
  have on: "io_post ?I (on_link ?probe) (\<lambda>ds w. list_all (\<lambda>d. address d \<noteq> None) ds \<and> ?I w) (\<lambda>e w. tame e \<and> ?I w)"
    unfolding io_post_def
  proof (intro allI impI)
    fix w :: "'a worker" assume w: "?I w"
    note safe = safe_on_link [OF safe_scan_assigned, of st a b "nat (cf_probe_count cf)" "lift_ops P" fuel "cf_first_address cf"]
    obtain r w' where ran: "on_link ?probe w = (r, w')" by (cases "on_link ?probe w")
    obtain l where l: "w_link w = Some l" using w by (auto simp: stands_def)
    have "case r of Inl _ \<Rightarrow> True | Inr ds \<Rightarrow> list_all (\<lambda>d. address d \<noteq> None) ds"
      using scan_assigned_addresses [of "nat (cf_probe_count cf)" "lift_ops P" fuel "cf_first_address cf",
          unfolded io_post_def, rule_format, OF TrueI, of "l\<lparr>world := w_shared w\<rparr>"] ran l
      by (auto simp: on_link_def split: prod.splits sum.splits)
    then show "case on_link ?probe w of (Inl e, w') \<Rightarrow> tame e \<and> ?I w'
        | (Inr ds, w') \<Rightarrow> list_all (\<lambda>d. address d \<noteq> None) ds \<and> ?I w'"
      using io_safe_keeps [OF safe w ran] io_safe_raises [OF safe w] ran by (cases r) auto
  qed
  have "io_safe ?I tame (io_bind (on_link ?probe) (\<lambda>found. case found of
            [] \<Rightarrow> io_return None
          | d # others \<Rightarrow> io_seq (on_link (disconnect_all (lift_ops P) fuel others)) (io_return (address d))))"
    unfolding io_safe_def
    by (rule io_post_bind [OF on]) (use rest in \<open>auto simp: io_safe_def io_post_def\<close>)
  note probed = this
  show ?thesis
    unfolding discover_def
    by (rule io_safe_bind [OF safe_on_link [OF safe_scan]], rule io_safe_if)
      (intro safe_intros safe_on_link, rule probed)
qed

lemma safe_subscribe [safe_intros]: "io_safe (stands st True a b) tame (subscribe (worker_request P fuel p) r)"
  unfolding subscribe_def
  by (intro safe_intros safe_aisg io_safe_mono [OF session.safe_procedures(4)]) (auto simp: proc_error_def)

lemma proc_error_tame: "proc_error tame e \<Longrightarrow> tame e"
  by (auto simp: proc_error_def)

lemmas safe_session [safe_intros] = session.safe_procedures [THEN io_safe_mono, OF proc_error_tame]
  session.safe_sweep [THEN io_safe_mono, OF proc_error_tame]

lemma safe_with_ret: "(\<And>r. io_safe (stands st up (Some addr) b) E (f r)) \<Longrightarrow> io_safe (stands st up (Some addr) b) E (with_ret f)"
  unfolding with_ret_def with_address_def
  by (rule io_safe_bind_get) (auto simp: stands_def)

lemma safe_entry_actions: "io_safe (stands st True a b) tame (entry_actions P fuel r)"
  unfolding entry_actions_def Let_def by (intro safe_intros)

lemma safe_on_connected: "io_safe (stands st True (Some addr) b) tame (on_connected P fuel)"
  unfolding on_connected_def
  by (rule io_safe_catch [where E' = tame])
    (auto intro!: safe_intros safe_with_ret safe_entry_actions split: if_splits)

lemma lands_enter_session:
  "lands b (stands st True a b) (enter_session P fuel addr)" if "good st True (Some addr)" and "st \<noteq> CONNECTED"
proof -
  have m: "io_post (stands st True a b) (io_modify (\<lambda>w. w\<lparr>w_address := Some addr, w_want_link := False\<rparr>))
      (\<lambda>_. stands st True (Some addr) b) (\<lambda>e w. tame e \<and> sane b w)"
    by (rule io_post_modify) (auto simp: stands_def base_def)
  show ?thesis
    unfolding enter_session_def
    by (intro lands_post [OF m] lands_bind [OF safe_on_connected] lands_if lands_seq lands_get lands_state
        lands_fail_link safe_intros that) simp
qed

lemma lands_connect_to: "lands b (stands st True a b) (connect_to P fuel addr)"
  unfolding connect_to_def
  by (intro lands_set_state lands_try lands_enter_session safe_on_link safe_intros)
    (auto simp: aisg_handler_def resting_def intro: lands_give_up split: if_splits)

lemma lands_bring_up: "lands b (stands st True a b) (bring_up P fuel cf)" if "good st True a"
proof -
  have c: "io_post (stands st True a b) (clear_stale_links P fuel cf) (\<lambda>_. stands st True None b)
    (\<lambda>e w. tame e \<and> sane b w)"
    by (rule io_post_conseq [OF post_clear_stale_links]) (auto intro: stands_sane that)
  have g: "lands b (stands DISCOVERING True None b) (case found of
           None \<Rightarrow> give_up P fuel NO_DEVICES no_devices_text | Some addr \<Rightarrow> connect_to P fuel addr)" for found
    by (cases found) (auto simp: resting_def intro: lands_give_up lands_connect_to)
  show ?thesis
    unfolding bring_up_def
    by (intro lands_post [OF c] lands_set_state lands_try safe_discover g)
      (auto simp: aisg_handler_def resting_def intro: lands_give_up split: if_splits)
qed

lemma post_open_port:
  "io_post (stands st False a b) (open_port P cf) (\<lambda>_. stands st True a b) (\<lambda>e w. tame e \<and> stands st False a b w)"
  unfolding io_post_def open_port_def
  by (auto simp: open_link_def open_error_def stands_def base_def link_ok_new tame_def split: prod.splits sum.splits)

lemma lands_open_and_connect: "lands b (stands st False a b) (open_and_connect P fuel cf)"
proof -
  have h: "lands b (stands OPENING False a b) k" if "open_handler P e = Some k" for e k
    using that by (auto simp: open_handler_def resting_def intro!: lands_settle split: exn.splits if_splits)
  have "io_post (stands OPENING False a b) (io_try (open_port P cf) (open_handler P) (\<lambda>_. bring_up P fuel cf))
      (\<lambda>_. sane b) (\<lambda>e w. tame e \<and> sane b w)"
  proof (rule io_post_try [OF post_open_port])
    show "io_post (stands OPENING True a b) (bring_up P fuel cf) (\<lambda>_. sane b) (\<lambda>e w. tame e \<and> sane b w)"
      using lands_bring_up [of OPENING a] by (simp add: lands_def)
    show "io_post (\<lambda>w. tame e \<and> stands OPENING False a b w) k (\<lambda>_. sane b) (\<lambda>e w. tame e \<and> sane b w)"
      if "open_handler P e = Some k" for e k
      using h [OF that] unfolding lands_def by (rule io_post_conseq) auto
  qed (auto intro: stands_sane)
  then have "lands b (stands OPENING False a b) (io_try (open_port P cf) (open_handler P) (\<lambda>_. bring_up P fuel cf))"
    by (simp add: lands_def)
  then show ?thesis unfolding open_and_connect_def by (rule lands_set_state)
qed

section \<open>Connected\<close>

lemma safe_sane: "(\<And>st up a. io_safe (stands st up a b) E m) \<Longrightarrow> io_safe (sane b) E m"
  unfolding sane_def io_safe_def io_post_def by (fastforce split: prod.splits sum.splits)

lemma lands_any: "(\<And>st up a. good st up a \<Longrightarrow> lands b (stands st up a b) m) \<Longrightarrow> lands b (sane b) m"
  unfolding lands_def sane_def by (intro io_post_ex io_post_pure)

lemma lands_sane_fail_link: "lands b (\<lambda>w. tame e \<and> sane b w) (fail_link P fuel why)"
  using lands_any [OF lands_fail_link, of b P fuel why]
  unfolding lands_def by (rule io_post_conseq) auto

lemma lands_finally:
  "lands b I m \<Longrightarrow> (\<And>st up a. io_safe (stands st up a b) (\<lambda>_. False) f) \<Longrightarrow> lands b I (io_finally m f)"
proof -
  assume m: "lands b I m" and f: "\<And>st up a. io_safe (stands st up a b) (\<lambda>_. False) f"
  have "io_safe (sane b) (\<lambda>_. False) f" by (rule safe_sane [OF f])
  with m show ?thesis unfolding lands_def by (intro io_post_finally io_safe_pure)
qed

lemma lands_catch:
  "io_safe (stands st up a b) tame m \<Longrightarrow> good st up a \<Longrightarrow>
    (\<And>e k. h e = Some k \<Longrightarrow> lands b (stands st up a b) k) \<Longrightarrow> lands b (stands st up a b) (io_catch m h)"
  unfolding io_catch_try by (rule lands_try) (auto intro: lands_return)

lemma with_address_eq: "stands st up (Some addr) b w \<Longrightarrow> with_address f w = f addr w"
  by (simp add: with_address_def io_defs stands_def)

lemma lands_with_address:
  "lands b (stands st up (Some addr) b) (f addr) \<Longrightarrow> lands b (stands st up (Some addr) b) (with_address f)"
  unfolding lands_def by (rule io_post_cong [OF with_address_eq])

lemma safe_with_address:
  "(io_safe (stands st up (Some addr) b) E (f addr)) \<Longrightarrow> io_safe (stands st up (Some addr) b) E (with_address f)"
  unfolding with_address_def by (rule io_safe_bind_get) (auto simp: stands_def)

lemma lands_poll_alarms:
  "good st True (Some addr) \<Longrightarrow> lands b (stands st True (Some addr) b) (poll_alarms P fuel)"
  unfolding poll_alarms_def
  by (intro lands_finally lands_catch safe_with_ret safe_intros)
    (auto intro: lands_fail_link lands_return split: if_splits)

lemma safe_upd_vr [safe_intros]: "io_safe link_ok E (upd_peer addr (\<lambda>p. p\<lparr>vr := (n + 1) AND 7\<rparr>))"
  by (rule io_safeI [OF link_ok_upd_peer raises_upd_peer]) (simp add: peer_ok_def)

lemma safe_get_peer [safe_intros]: "io_safe link_ok E (get_peer addr)"
  by (rule io_safeI [OF ok.port.keeps_state(1) raises_get_peer])

lemma safe_send_rr [safe_intros]: "io_safe link_ok link_error (send_rr P addr nr poll)"
  unfolding send_rr_def rr_frame_def
  by (intro io_safe_bind io_safe_res io_safe_mono [OF io_safeI [OF ok.keeps_write raises_write] line_link_error])
    (auto simp: build_frame_eq split: if_splits)

lemma safe_read_frames [safe_intros]: "io_safe link_ok link_error (read_frames P n t)"
  by (rule io_safe_mono [OF io_safeI [OF ok.port.keeps_read_frames raises_read_frames] line_link_error])

lemma post_keepalive_frame:
  assumes "good st True (Some addr)"
  shows "io_post (stands st True (Some addr) b) (keepalive_frame P fuel addr fr)
    (\<lambda>go w. if go then stands st True (Some addr) b w else sane b w) (\<lambda>e w. tame e \<and> sane b w)"
    (is "io_post ?I _ ?Q ?E")
proof (cases fr)
  case (fields faddr ctrl pl)
  have go: "io_post ?I (io_return True) ?Q ?E" by (rule io_post_return) simp
  have on: "io_post ?I m (\<lambda>_. ?I) ?E" if "io_safe ?I tame m" for m :: "('a, 'x) wio"
    using that unfolding io_safe_def by (rule io_post_conseq) (auto intro: stands_sane assms)
  have fail: "io_post ?I (io_seq (fail_link P fuel why) (io_return False)) ?Q ?E" for why
    using lands_fail_link [of b st True "Some addr" P fuel why] unfolding lands_def
    by (rule io_post_seq) (auto intro: io_post_return)
  have s: "io_safe ?I tame (if pl \<noteq> [] \<and> uint (hd pl) \<in> set INDICATION_CODES then alarms_indicate pl else io_return ())"
    by (intro safe_intros)
  show ?thesis
    unfolding fields keepalive_frame_def prod.case kind_eq io_bind_simps
    by (intro io_post_if go fail io_post_bind [OF on] io_post_seq [OF on] s safe_on_link safe_intros)
qed

lemma post_keepalive_frames:
  assumes "good st True (Some addr)"
  shows "lands b (stands st True (Some addr) b) (keepalive_frames P fuel addr fs)"
proof (induction fs)
  case Nil
  show ?case using assms by (simp add: lands_return)
next
  case (Cons f fs)
  have "io_post (\<lambda>w. if go then stands st True (Some addr) b w else sane b w)
      (if go then keepalive_frames P fuel addr fs else io_return ()) (\<lambda>_. sane b) (\<lambda>e w. tame e \<and> sane b w)" for go
    using Cons unfolding lands_def by (cases go) (auto intro: io_post_return)
  then show ?case
    unfolding keepalive_frames.simps lands_def by (rule io_post_bind [OF post_keepalive_frame [OF assms]])
qed

lemma lands_keepalive_poll:
  assumes "good st True (Some addr)"
  shows "lands b (stands st True (Some addr) b) (keepalive_poll P fuel)"
proof -
  let ?I = "stands st True (Some addr) b"
  have "lands b ?I (with_address (\<lambda>addr.
          io_bind (on_link (get_peer addr)) (\<lambda>p.
          io_seq (on_link (send_rr (lift_ops P) addr (vr p) True))
          (io_bind (on_link (read_frames (lift_ops P) fuel 200000)) (keepalive_frames P fuel addr)))))"
    by (intro lands_with_address lands_bind lands_seq post_keepalive_frames safe_on_link safe_intros assms)
  then show ?thesis
    unfolding keepalive_poll_def io_catch_try lands_def
    by (rule io_post_try)
      (use lands_sane_fail_link in \<open>auto simp: os_or_aisg_handler_def lands_def intro: io_post_return split: if_splits\<close>)
qed

lemma post_close:
  assumes k: "\<And>a. io_safe (stands CLOSED False a b) (\<lambda>_. False) k"
  shows "lands b (sane b) (io_seq (release P fuel) (io_seq (set_state CLOSED []) k))"
proof (rule lands_any)
  fix st up a
  have 1: "io_post (stands st up a b) (release P fuel) (\<lambda>_. down a b) (\<lambda>e w. tame e \<and> sane b w)"
    by (rule io_post_conseq [OF post_release]) (auto intro: stands_sane)
  have "io_post (stands CLOSED False a b) k (\<lambda>_. sane b) (\<lambda>e w. tame e \<and> sane b w)"
    using k [of a] unfolding io_safe_def by (rule io_post_conseq) (auto intro: stands_sane)
  then have "io_post (down a b) (io_seq (set_state CLOSED []) k) (\<lambda>_. sane b) (\<lambda>e w. tame e \<and> sane b w)"
    unfolding down_def by (intro io_post_ex io_post_seq [OF post_set_state])
  then show "lands b (stands st up a b) (io_seq (release P fuel) (io_seq (set_state CLOSED []) k))"
    unfolding lands_def by (rule io_post_seq [OF 1])
qed

lemma lands_close: "lands b (sane b) (io_seq (release P fuel) (set_state CLOSED []))"
proof -
  have "io_seq (set_state CLOSED []) (io_return ()) = (set_state CLOSED [] :: ('a, unit) wio)"
    by (rule ext) (simp add: io_defs split: prod.split sum.split)
  with post_close [of b "io_return ()" P fuel] show ?thesis by (simp add: io_safe_return)
qed

text \<open>
  After an alarm poll that has lost the link, the loop goes on to the keepalive without looking, in
  continuous mode only; this is the one place that reaches for a link that is not there.
\<close>

definition tame_in :: "config \<Rightarrow> exn \<Rightarrow> bool" where
  "tame_in cf e \<longleftrightarrow> tame e \<or> cf_monitor cf = CONTINUOUS"

definition lands_in :: "config \<Rightarrow> book \<Rightarrow> ('v worker \<Rightarrow> bool) \<Rightarrow> ('v, 'a) wio \<Rightarrow> bool" where
  "lands_in cf b I m \<longleftrightarrow> io_post I m (\<lambda>_. sane b) (\<lambda>e w. tame_in cf e \<and> sane b w)"

lemma lands_lands_in: "lands b I m \<Longrightarrow> lands_in cf b I m"
  unfolding lands_def lands_in_def by (erule io_post_conseq) (auto simp: tame_in_def)

lemma lands_in_close: "lands_in cf b (sane b) (io_seq (release P fuel) (set_state CLOSED []))"
  by (rule lands_lands_in [OF lands_close])

lemma keepalive_without_link:
  "stands st False (Some addr) b w \<Longrightarrow> keepalive_poll P fuel w = (Inl AttributeError, w)"
  by (simp add: keepalive_poll_def with_address_def io_defs on_link_def os_or_aisg_handler_def is_os_error_def
      stands_def)

lemma keepalive_without_address:
  "stands st up None b w \<Longrightarrow> keepalive_poll P fuel w = (Inl TypeError, w)"
  by (simp add: keepalive_poll_def with_address_def io_defs os_or_aisg_handler_def is_os_error_def stands_def)

lemma sane_keepalive:
  "cf_monitor cf = CONTINUOUS \<Longrightarrow> lands_in cf b (sane b) (keepalive_poll P fuel)"
  unfolding lands_in_def sane_def
proof (intro io_post_ex io_post_pure)
  fix st up a
  assume g: "good st up a" and c: "cf_monitor cf = CONTINUOUS"
  have "io_post (stands st up a b) (keepalive_poll P fuel) (\<lambda>_. sane b) (\<lambda>e w. tame_in cf e \<and> sane b w)"
  proof (cases a)
    case None
    then show ?thesis
      using keepalive_without_address [of st up b _ P fuel] g c
      by (auto simp: io_post_def tame_in_def intro: stands_sane)
  next
    case (Some addr)
    show ?thesis
    proof (cases up)
      case True
      with g Some have "lands b (stands st True (Some addr) b) (keepalive_poll P fuel)"
        by (intro lands_keepalive_poll) simp
      from lands_lands_in [OF this] True Some show ?thesis by (simp add: lands_in_def)
    next
      case False
      with Some g c show ?thesis
        using keepalive_without_link [of st addr b _ P fuel]
        by (auto simp: io_post_def tame_in_def intro: stands_sane)
    qed
  qed
  then show "io_post (stands st up a b) (keepalive_poll P fuel) (\<lambda>_ w. \<exists>st up a. good st up a \<and> stands st up a b w)
      (\<lambda>e w. tame_in cf e \<and> (\<exists>st up a. good st up a \<and> stands st up a b w))"
    by (simp add: sane_def [abs_def])
qed

lemma lands_in_bind: "io_safe (sane b) tame m \<Longrightarrow> (\<And>x. lands_in cf b (sane b) (f x)) \<Longrightarrow>
    lands_in cf b (sane b) (io_bind m f)"
  unfolding lands_in_def io_safe_def
  by (rule io_post_bind [where R = "\<lambda>_. sane b"], erule io_post_conseq) (auto simp: tame_in_def)

lemma lands_in_return: "lands_in cf b (sane b) (io_return x)"
  by (simp add: lands_in_def io_post_return)

lemma lands_in_get: "(\<And>w. I w \<Longrightarrow> lands_in cf b I (f (g w))) \<Longrightarrow> lands_in cf b I (io_bind (io_get g) f)"
  unfolding lands_in_def by (rule io_post_get)

lemma sane_fields:
  "io_safe (sane b) E (io_modify (\<lambda>w. w\<lparr>w_last_monitor_at := n\<rparr>))"
  "io_safe (sane b) E (io_modify (\<lambda>w. w\<lparr>w_last_keepalive_at := n\<rparr>))"
  by (intro safe_sane safe_intros)+

lemma lands_housekeeping:
  assumes "good st True (Some addr)"
  shows "lands_in cf b (stands st True (Some addr) b) (connected_housekeeping P fuel cf now)"
proof -
  let ?I = "stands st True (Some addr) b"
  have monitored: "lands b (sane b) (io_bind (io_get w_queue) (\<lambda>q.
             if cf_monitor cf = DUTY_CYCLED \<and> q = []
             then io_seq (release P fuel) (io_seq (set_state CLOSED []) (io_return True))
             else io_return False))"
    unfolding lands_def
    by (intro io_post_get io_post_if post_close [unfolded lands_def] io_safe_return io_post_return)
  have first: "lands b ?I (if \<not> due then io_return False
        else io_seq (io_modify (\<lambda>w. w\<lparr>w_last_monitor_at := now\<rparr>)) (io_seq (poll_alarms P fuel) (io_bind (io_get w_queue) (\<lambda>q.
             if cf_monitor cf = DUTY_CYCLED \<and> q = []
             then io_seq (release P fuel) (io_seq (set_state CLOSED []) (io_return True))
             else io_return False))))" for due
    by (intro lands_if lands_seq lands_return lands_post [OF lands_poll_alarms [unfolded lands_def] monitored]
        safe_intros assms)
  have second: "lands_in cf b (sane b) (if returned then io_return ()
     else if cf_monitor cf = CONTINUOUS
     then io_bind (io_get w_last_keepalive_at) (\<lambda>last_at.
       if now - last_at \<ge> cf_keepalive cf
       then io_seq (io_modify (\<lambda>w. w\<lparr>w_last_keepalive_at := now\<rparr>)) (keepalive_poll P fuel)
       else io_return ())
     else io_bind (io_get (\<lambda>w. now - max (w_last_command_at w) (w_last_monitor_at w))) (\<lambda>idle_for.
       if cf_monitor cf = MONITOR_OFF \<and> idle_for \<ge> cf_idle_release cf
       then io_seq (release P fuel) (set_state CLOSED [])
       else io_return ()))" for returned
    using lands_in_close [of cf b P fuel] sane_keepalive [of cf b P fuel]
      lands_in_return
    by (auto intro!: lands_in_get lands_in_bind sane_fields simp: io_seq_def [of "io_modify _"])
  show ?thesis
    unfolding connected_housekeeping_def lands_in_def
    by (intro io_post_get io_post_bind [OF lands_lands_in [OF first, unfolded lands_in_def]]
        second [unfolded lands_in_def])
qed

section \<open>Draining, and one step\<close>

lemma safe_drain_frames: "io_safe (stands st True a b) tame (drain_frames P addr fs)"
proof (induction fs)
  case (Cons f fs)
  have "io_safe (stands st True a b) tame (drain_frame P addr f)"
    unfolding drain_frame_def by (cases f) (auto simp: kind_eq intro!: safe_intros safe_on_link)
  with Cons show ?case by (auto intro: safe_intros)
qed (auto intro: safe_intros)

lemma safe_drain_loop: "io_safe (stands st True (Some addr) b) tame (drain_loop P fuel t n)"
  by (induction n)
    (auto intro!: safe_intros safe_on_link safe_with_address safe_drain_frames io_safe_raise)

lemma lands_drain:
  "good st True (Some addr) \<Longrightarrow> lands b (stands st True (Some addr) b) (drain P fuel)"
  unfolding drain_def
  by (intro lands_bind lands_try safe_drain_loop safe_intros lands_state)
    (auto simp: os_or_aisg_handler_def intro: lands_fail_link split: if_splits)

lemma lands_in_if: "(c \<Longrightarrow> lands_in cf b I m) \<Longrightarrow> (\<not> c \<Longrightarrow> lands_in cf b I k) \<Longrightarrow> lands_in cf b I (if c then m else k)"
  by simp

lemma lands_in_good_return: "good st up a \<Longrightarrow> lands_in cf b (stands st up a b) (io_return x)"
  by (rule lands_lands_in [OF lands_return])

lemma lands_in_any: "(\<And>st up a. good st up a \<Longrightarrow> lands_in cf b (stands st up a b) m) \<Longrightarrow> lands_in cf b (sane b) m"
  unfolding lands_in_def sane_def by (intro io_post_ex io_post_pure)

text \<open>The lease branch of \<open>_step\<close>.\<close>

lemma post_lease:
  "good st up a \<Longrightarrow> io_post (stands st up a b)
    (io_seq (if st \<noteq> LEASED \<and> st \<noteq> CLOSED then release P fuel else io_return ()) (set_state LEASED []))
    (\<lambda>_. stands LEASED False a b) (\<lambda>e w. tame e \<and> stands RELEASING True a b w)"
proof -
  assume g: "good st up a"
  have "io_post (stands st up a b) (if st \<noteq> LEASED \<and> st \<noteq> CLOSED then release P fuel else io_return ())
      (\<lambda>_. down a b) (\<lambda>e w. tame e \<and> stands RELEASING True a b w)"
    using g by (auto intro: post_release intro!: io_post_return simp: down_def)
  then show ?thesis
    by (rule io_post_seq) (simp add: down_def [abs_def] io_post_ex post_set_state)
qed

text \<open>The dispatch of \<open>_step\<close> on the state, without a lease.\<close>

definition dispatch :: "'v port_ops \<Rightarrow> nat \<Rightarrow> config \<Rightarrow> time \<Rightarrow> time \<Rightarrow> link_state \<Rightarrow> ('v, unit) wio" where
  "dispatch P fuel cf now until st =
     (if st \<in> {CLOSED, PORT_BUSY, PORT_LOST, NO_DEVICES}
      then io_bind (io_get (should_open cf now)) (\<lambda>b. if b then open_and_connect P fuel cf else io_return ())
      else if st = BACKOFF
      then (if now \<ge> until then set_state CLOSED [] else io_return ())
      else if st = DRAINING then drain P fuel
      else if st = CONNECTED then connected_housekeeping P fuel cf now
      else io_return ())"

lemma lands_dispatch:
  assumes g: "good st up a"
  shows "lands_in cf b (stands st up a b) (dispatch P fuel cf now until st)"
proof (cases "st \<in> session_states")
  case True
  with g obtain addr where "a = Some addr" "up" by (auto simp: good_def)
  then have "lands_in cf b (stands st up a b) (drain P fuel)"
    using lands_lands_in [OF lands_drain] g by simp
  with \<open>a = Some addr\<close> \<open>up\<close> True g lands_housekeeping [of st addr cf b P fuel now] show ?thesis by (auto simp: dispatch_def session_states_def)
next
  case False
  have o: "lands_in cf b (stands st False a b) (io_bind (io_get (should_open cf now))
      (\<lambda>x. if x then open_and_connect P fuel cf else io_return ()))" if "good st False a"
    using that by (intro lands_lands_in lands_get lands_if lands_open_and_connect lands_return)
  show ?thesis
  proof (cases up)
    case True
    with g have "st \<notin> closed_states" by (auto simp: good_def)
    with False g show ?thesis
      by (auto simp: dispatch_def session_states_def closed_states_def intro: lands_in_good_return)
  next
    case no: False
    with g o False show ?thesis
      by (auto simp: dispatch_def session_states_def intro: lands_in_good_return lands_lands_in [OF lands_state])
  qed
qed

lemma step_eq: "step P fuel cf =
     io_bind (w_now P) (\<lambda>now. io_bind (io_get (\<lambda>w. w)) (\<lambda>w.
       if w_lease_until w > now
       then io_seq (if w_state w \<noteq> LEASED \<and> w_state w \<noteq> CLOSED then release P fuel else io_return ())
              (set_state LEASED [])
       else io_seq (if w_state w = LEASED then set_state CLOSED [] else io_return ())
         (io_bind (io_get w_state) (dispatch P fuel cf now (w_backoff_until w)))))"
  unfolding step_def dispatch_def ..

lemma lands_step: "lands_in cf b (sane b) (step P fuel cf)"
proof (rule lands_in_any)
  fix st up a
  assume g: "good st up a"
  let ?I = "stands st up a b"
  have n: "io_post ?I (w_now P) (\<lambda>_. ?I) (\<lambda>e w. tame_in cf e \<and> sane b w)"
    using safe_w_now [of st up a b "\<lambda>_. False" P] unfolding io_safe_def by (rule io_post_conseq) auto
  have lease: "lands_in cf b ?I
      (io_seq (if st \<noteq> LEASED \<and> st \<noteq> CLOSED then release P fuel else io_return ()) (set_state LEASED []))"
    unfolding lands_in_def
    by (rule io_post_conseq [OF post_lease [OF g]]) (auto simp: tame_in_def intro: stands_sane)
  have d: "lands_in cf b (stands st' up a b) (io_bind (io_get w_state) (dispatch P fuel cf now until))"
    if "good st' up a" for st' now until
    unfolding lands_in_def
  proof (rule io_post_get)
    fix w :: "'a worker" assume "stands st' up a b w"
    then have "w_state w = st'" by (simp add: stands_def)
    then show "io_post (stands st' up a b) (dispatch P fuel cf now until (w_state w)) (\<lambda>_. sane b)
        (\<lambda>e w. tame_in cf e \<and> sane b w)"
      using lands_dispatch [OF that] by (simp add: lands_in_def)
  qed
  have go: "lands_in cf b ?I (io_seq (if st = LEASED then set_state CLOSED [] else io_return ())
         (io_bind (io_get w_state) (dispatch P fuel cf now until)))" for now until
  proof (cases "st = LEASED")
    case True
    with g d [of CLOSED now until] show ?thesis
      unfolding lands_in_def by (auto intro: io_post_seq [OF post_set_state])
  next
    case False
    with d [OF g, of now until] show ?thesis by simp
  qed
  have "lands_in cf b ?I (io_bind (io_get (\<lambda>w. w)) (\<lambda>w.
       if w_lease_until w > now
       then io_seq (if w_state w \<noteq> LEASED \<and> w_state w \<noteq> CLOSED then release P fuel else io_return ())
              (set_state LEASED [])
       else io_seq (if w_state w = LEASED then set_state CLOSED [] else io_return ())
         (io_bind (io_get w_state) (dispatch P fuel cf now (w_backoff_until w)))))" for now
  proof (rule lands_in_get)
    fix w :: "'a worker" assume "?I w"
    then have "w_state w = st" by (simp add: stands_def)
    with lease go show "lands_in cf b ?I (if w_lease_until w > now
       then io_seq (if w_state w \<noteq> LEASED \<and> w_state w \<noteq> CLOSED then release P fuel else io_return ())
              (set_state LEASED [])
       else io_seq (if w_state w = LEASED then set_state CLOSED [] else io_return ())
         (io_bind (io_get w_state) (dispatch P fuel cf now (w_backoff_until w))))" by simp
  qed
  then show "lands_in cf b ?I (step P fuel cf)"
    unfolding step_eq lands_in_def by (rule io_post_bind [OF n])
qed

end
