(* ===== verification/Session_Runs.thy ===== *)
theory Session_Runs
  imports Session_Invariant
begin

text \<open>
  Executing commands, and the loop of the worker with everything that other threads do to it: what a
  turn makes of a command's future, the ledger of all commands, the invariant of every reachable
  state, and the theorems about \<open>SerialWorker\<close> as a whole.
\<close>

section \<open>One command\<close>

definition bk_set :: "command \<Rightarrow> future \<Rightarrow> book \<Rightarrow> book" where
  "bk_set c f b = b\<lparr>bk_futures := (bk_futures b)(cmd_id c \<mapsto> f)\<rparr>"

definition bk_fut :: "command \<Rightarrow> book \<Rightarrow> future" where
  "bk_fut c b = (case bk_futures b (cmd_id c) of None \<Rightarrow> PENDING | Some f \<Rightarrow> f)"

lemma bk_set_set [simp]: "bk_set c f (bk_set c g b) = bk_set c f b"
  by (simp add: bk_set_def)

lemma bk_fut_set [simp]: "bk_fut c (bk_set c f b) = f"
  by (simp add: bk_fut_def bk_set_def)

lemma bk_set_simps [simp]:
  "bk_queue (bk_set c f b) = bk_queue b" "bk_next_seq (bk_set c f b) = bk_next_seq b"
  "bk_lease_until (bk_set c f b) = bk_lease_until b" "bk_stopping (bk_set c f b) = bk_stopping b"
  "bk_futures (bk_set c f b) = (bk_futures b)(cmd_id c \<mapsto> f)"
  by (simp_all add: bk_set_def)

lemma future_of_book: "future_of w c = bk_fut c (book_of w)"
  by (simp add: future_of_def bk_fut_def book_of_def)

lemma post_put_future: "io_post (stands st up a b) (put_future c f) (\<lambda>_. stands st up a (bk_set c f b)) E"
  unfolding put_future_def
  by (rule io_post_modify) (auto simp: stands_def base_def book_of_def bk_set_def)

lemma post_get_future:
  "io_post (stands st up a b) (k (bk_fut c b)) Q E \<Longrightarrow>
    io_post (stands st up a b) (io_bind (io_get (\<lambda>w. future_of w c)) k) Q E"
  by (rule io_post_get) (simp add: stands_def future_of_book)

definition claimed :: "future \<Rightarrow> bool \<Rightarrow> future \<Rightarrow> bool" where
  "claimed f ok f' \<longleftrightarrow> (if ok then f = PENDING \<and> f' = RUNNING else f = CANCELLED \<and> f' = CANCELLED_AND_NOTIFIED)"

lemma post_claim:
  "io_post (stands st up a b) (claim c)
    (\<lambda>ok w. \<exists>f. claimed (bk_fut c b) ok f \<and> stands st up a (bk_set c f b) w)
    (\<lambda>e w. e = RuntimeError \<and> bk_fut c b \<notin> {PENDING, CANCELLED} \<and> stands st up a b w)"
  unfolding claim_def
  by (rule post_get_future, cases "bk_fut c b")
      (auto simp: set_running_or_notify_cancel_def io_res_def [abs_def] io_raise_def [abs_def] claimed_def
        io_bind_def io_post_def put_future_def io_defs stands_def base_def book_of_def bk_set_def)

definition outcome_of :: "cmd_result res \<Rightarrow> future" where
  "outcome_of r = (case r of Inl e \<Rightarrow> EXCEPTION e | Inr x \<Rightarrow> RESULT x)"

lemma outcome_of_simps [simp]: "outcome_of (Inl e) = EXCEPTION e" "outcome_of (Inr x) = RESULT x"
  by (simp_all add: outcome_of_def)

lemma post_resolve:
  "bk_fut c b \<in> {PENDING, RUNNING} \<Longrightarrow>
    io_post (stands st up a b) (resolve c r) (\<lambda>_. stands st up a (bk_set c (outcome_of r) b)) E"
  unfolding resolve_def
  by (rule post_get_future) (auto simp: set_outcome_def outcome_of_def intro: post_put_future)

text \<open>What a command that was claimed leaves behind: how its future is resolved says how the link is.\<close>

definition late_response :: "exn \<Rightarrow> bool" where
  "late_response e = (case e of AisgTimeout _ _ was_acked _ \<Rightarrow> was_acked | _ \<Rightarrow> False)"

definition after :: "future \<Rightarrow> link_state \<Rightarrow> bool \<Rightarrow> bool" where
  "after f st up =
     (case f of
        RESULT _ \<Rightarrow> st = CONNECTED \<and> up
      | EXCEPTION e \<Rightarrow> is_aisg_error e \<and>
          (if is_link_reset e then st = BACKOFF \<and> \<not> up
           else if late_response e then st = DRAINING \<and> up else st = CONNECTED \<and> up)
      | _ \<Rightarrow> False)"

definition executed :: "command \<Rightarrow> int \<Rightarrow> book \<Rightarrow> 'v worker \<Rightarrow> bool" where
  "executed c addr b w \<longleftrightarrow>
     (\<exists>f st up. after f st up \<and> stands st up (Some addr) (bk_set c f b) w)"

lemma executedI: "stands st up (Some addr) (bk_set c f b) w \<Longrightarrow> after f st up \<Longrightarrow> executed c addr b w"
  by (auto simp: executed_def)

lemma after_resolved: "after f st up \<Longrightarrow> resolved f"
  by (auto simp: after_def resolved_def split: future.splits)

lemma executed_sane: "executed c addr b w \<Longrightarrow> \<exists>f. resolved f \<and> sane (bk_set c f b) w"
proof -
  assume "executed c addr b w"
  then obtain f st up where "after f st up" "stands st up (Some addr) (bk_set c f b) w"
    by (auto simp: executed_def)
  moreover have "after f st up \<Longrightarrow> good st up (Some addr)"
    by (auto simp: after_def split: future.splits if_splits)
  ultimately show ?thesis using after_resolved stands_sane by blast
qed

lemma safe_executed: "(\<And>st up a b. io_safe (stands st up a b) E m) \<Longrightarrow> io_safe (executed c addr b) E m"
  unfolding executed_def by (intro io_safe_ex io_safe_pure)

lemma post_after:
  assumes "bk_fut c b = RUNNING" and "after (outcome_of r) st up"
  shows "io_post (stands st up (Some addr) b) (resolve c r) (\<lambda>_. executed c addr b) E"
  by (rule io_post_conseq [OF post_resolve, of c b]) (use assms in \<open>auto intro: executedI\<close>)

lemma post_execute_error:
  assumes run: "bk_fut c b = RUNNING" and k: "execute_error P fuel c e = Some k"
  shows "io_post (stands CONNECTED True (Some addr) b) k (\<lambda>_. executed c addr b) (\<lambda>_. sane b)"
proof -
  let ?I = "stands CONNECTED True (Some addr) b"
  have le: "io_post ?I (set_last_error m) (\<lambda>_. ?I) (\<lambda>_. sane b)" for m
    using safe_set_last_error [of CONNECTED True "Some addr" b "\<lambda>_. False" m]
    unfolding io_safe_def by (rule io_post_conseq) auto
  show ?thesis
  proof (cases "is_link_reset e")
    case True
    then have e: "is_aisg_error e" by (cases e) (auto simp: is_link_reset_def)
    have "io_post ?I (fail_link P fuel m) (\<lambda>_. stands BACKOFF False (Some addr) b) (\<lambda>_. sane b)" for m
      by (rule io_post_conseq [OF post_fail_link]) (auto intro: stands_sane)
    with True k e show ?thesis
      by (auto simp: execute_error_def after_def intro!: io_post_seq [OF le] io_post_seq [OF _ post_after [OF run]])
  next
    case False
    have st: "io_post ?I (case e of AisgTimeout _ _ was_acked _ \<Rightarrow>
          if was_acked then set_state DRAINING m else io_return () | _ \<Rightarrow> io_return ())
        (\<lambda>_. stands (if late_response e then DRAINING else CONNECTED) True (Some addr) b) (\<lambda>_. sane b)" for m
      by (cases e) (auto simp: late_response_def intro: post_set_state io_post_return)
    have "is_aisg_error e" using False k by (auto simp: execute_error_def split: if_splits)
    with False k show ?thesis
      by (auto simp: execute_error_def after_def intro!: io_post_seq [OF le] io_post_seq [OF st post_after [OF run]])
  qed
qed

lemma post_execute:
  assumes run: "bk_fut c b = RUNNING"
  shows "io_post (stands CONNECTED True (Some addr) b) (execute P fuel cf c)
    (\<lambda>_. executed c addr b) (\<lambda>_. sane b)"
proof -
  let ?I = "stands CONNECTED True (Some addr) b"
  have on: "io_post ?I m (\<lambda>_. ?I) (\<lambda>_. sane b)" if "io_safe ?I tame m" for m :: "('a, 'x) wio"
    using that unfolding io_safe_def by (rule io_post_conseq) (auto intro: stands_sane)
  have call: "io_safe ?I tame (with_ret (\<lambda>r. call_command (worker_request P fuel p) r n args))" for p n args
    by (rule safe_with_ret, rule io_safe_mono [OF session.safe_call_command])
      (auto simp: command_error_def proc_error_def)
  have ok: "io_post ?I (io_seq (absorb P cf result) (resolve c (Inr result))) (\<lambda>_. executed c addr b) (\<lambda>_. sane b)" for result
    by (rule io_post_seq [OF on post_after [OF run]]) (auto simp: after_def intro: safe_intros)
  have body: "io_post ?I (io_try (with_ret (\<lambda>r. call_command (worker_request P fuel p) r n args))
      (execute_error P fuel c) (\<lambda>result. io_seq (absorb P cf result) (resolve c (Inr result))))
      (\<lambda>_. executed c addr b) (\<lambda>_. sane b)" for p n args
    by (rule io_post_try [OF call [unfolded io_safe_def] ok])
      (auto intro: stands_sane io_post_pure post_execute_error [OF run])
  have fin: "io_safe (stands st up a' b') (\<lambda>_. False)
      (io_seq (io_bind (w_now P) (\<lambda>now. io_modify (\<lambda>w. w\<lparr>w_last_command_at := now\<rparr>))) drain_indications)" for st up a' b'
    by (intro safe_intros)
  have target: "io_safe ?I tame (if cmd_name c = ''set_tilt''
             then io_bind (io_res (target_degrees (cmd_args c))) (\<lambda>t. io_modify (\<lambda>w. w\<lparr>w_target_tilt := Some t\<rparr>))
             else io_return ())"
    by (intro safe_intros io_safe_res)
      (auto simp: target_degrees_def split: option.splits pyval.splits)
  show ?thesis
    unfolding execute_def
    by (intro io_post_bind [OF on] io_post_seq [OF on] io_post_finally body target
        safe_intros safe_executed safe_sane fin)
qed

text \<open>\<open>_abandon\<close> resolves the future, or notes that it was cancelled.\<close>

lemma post_abandon:
  "io_post (stands st up a b) (abandon c e)
    (\<lambda>_ w. \<exists>f. f = (if bk_fut c b = PENDING then EXCEPTION e else CANCELLED_AND_NOTIFIED)
       \<and> bk_fut c b \<in> {PENDING, CANCELLED} \<and> stands st up a (bk_set c f b) w)
    (\<lambda>e w. e = RuntimeError \<and> bk_fut c b \<notin> {PENDING, CANCELLED} \<and> stands st up a b w)"
  unfolding abandon_def
proof (rule io_post_bind [OF post_claim], intro io_post_ex io_post_pure)
  fix ok f
  assume f: "claimed (bk_fut c b) ok f"
  show "io_post (stands st up a (bk_set c f b)) (if ok then resolve c (Inl e) else io_return ())
    (\<lambda>_ w. \<exists>f. f = (if bk_fut c b = PENDING then EXCEPTION e else CANCELLED_AND_NOTIFIED)
       \<and> bk_fut c b \<in> {PENDING, CANCELLED} \<and> stands st up a (bk_set c f b) w)
    (\<lambda>e w. e = RuntimeError \<and> bk_fut c b \<notin> {PENDING, CANCELLED} \<and> stands st up a b w)"
  proof (cases ok)
    case True
    with f have "bk_fut c (bk_set c f b) \<in> {PENDING, RUNNING}" by (simp add: claimed_def)
    from io_post_conseq [OF post_resolve [OF this, of st up a "Inl e"]] f True show ?thesis
      by (simp add: claimed_def)
  next
    case False
    with f show ?thesis by (auto simp: claimed_def intro!: io_post_return)
  qed
qed

section \<open>One turn\<close>

lemma safe_refresh_lease: "io_safe (sane b) (\<lambda>_. False) (refresh_lease P)"
  by (auto simp: io_safe_def io_post_def refresh_lease_def io_defs w_now_def set_state_def emit_def
      sane_iff base_def split: prod.split)

text \<open>A command that is served is resolved, or kept, or (when an exception escapes) left running.\<close>

definition handled :: "command \<Rightarrow> book \<Rightarrow> bool \<Rightarrow> 'v worker \<Rightarrow> bool" where
  "handled c b h w \<longleftrightarrow> (if h then \<exists>f. resolved f \<and> sane (bk_set c f b) w else sane b w)"

definition escaped :: "command \<Rightarrow> book \<Rightarrow> exn \<Rightarrow> 'v worker \<Rightarrow> bool" where
  "escaped c b e w \<longleftrightarrow> sane b w \<or> sane (bk_set c RUNNING b) w"

lemma post_resolved: "io_post (\<lambda>w. \<exists>f. resolved f \<and> sane (bk_set c f b) w) (io_return True) (handled c b) (escaped c b)"
  by (rule io_post_return) (simp add: handled_def)

lemma post_gone:
  assumes "good st up a"
  shows "io_post (stands st up a b) (io_seq (abandon c e) (io_return True)) (handled c b) (escaped c b)"
proof (rule io_post_seq [OF _ post_resolved])
  show "io_post (stands st up a b) (abandon c e) (\<lambda>_ w. \<exists>f. resolved f \<and> sane (bk_set c f b) w) (escaped c b)"
    by (rule io_post_conseq [OF post_abandon])
      (use assms in \<open>auto simp: resolved_def escaped_def intro!: exI dest: stands_sane split: if_splits\<close>)
qed

text \<open>In a session the command is executed, unless it was cancelled before it was claimed.\<close>

lemma post_attempt_connected:
  assumes g: "good st up a" and st: "st = CONNECTED"
  shows "io_post (stands st up a b) (attempt P fuel cf c st m) (handled c b) (escaped c b)"
proof -
  from g st obtain addr where a: "a = Some addr" "up" by auto
  have run: "io_post (stands st up a (bk_set c f b))
      (if \<not> ok then io_return True else io_seq (execute P fuel cf c) (io_return True)) (handled c b) (escaped c b)"
    if f: "claimed (bk_fut c b) ok f" for ok f
  proof (cases ok)
    case True
    with f have r: "f = RUNNING" by (simp add: claimed_def)
    have exec: "executed c addr (bk_set c RUNNING b) w \<Longrightarrow> \<exists>f. resolved f \<and> sane (bk_set c f b) w" for w :: "'a worker"
      using executed_sane [of c addr "bk_set c RUNNING b" w] by simp
    have "io_post (stands CONNECTED True (Some addr) (bk_set c RUNNING b)) (execute P fuel cf c)
        (\<lambda>_ w. \<exists>f. resolved f \<and> sane (bk_set c f b) w) (escaped c b)"
      by (rule io_post_conseq [OF post_execute]) (auto simp: escaped_def dest: exec)
    with True r a st show ?thesis by (auto intro: io_post_seq [OF _ post_resolved])
  next
    case False
    with f g show ?thesis
      by (auto simp: claimed_def handled_def resolved_def intro!: io_post_return
          exI [of _ CANCELLED_AND_NOTIFIED] dest: stands_sane)
  qed
  have "io_post (stands st up a b) (claim c)
      (\<lambda>ok w. \<exists>f. claimed (bk_fut c b) ok f \<and> stands st up a (bk_set c f b) w) (escaped c b)"
    by (rule io_post_conseq [OF post_claim]) (use g in \<open>auto simp: escaped_def dest: stands_sane\<close>)
  then have "io_post (stands st up a b) (io_bind (claim c) (\<lambda>ok.
      if \<not> ok then io_return True else io_seq (execute P fuel cf c) (io_return True))) (handled c b) (escaped c b)"
    by (rule io_post_bind) (intro io_post_ex io_post_pure run)
  with st show ?thesis by (simp add: attempt_def)
qed

text \<open>Otherwise it is refused, times out, or waits for the link that it asks for.\<close>

lemma post_attempt:
  assumes g: "good st up a"
  shows "io_post (stands st up a b) (attempt P fuel cf c st m) (handled c b) (escaped c b)"
proof (cases "st = CONNECTED")
  case True
  with g show ?thesis by (rule post_attempt_connected)
next
  case False
  have now: "io_post (stands st up a b) (w_now P) (\<lambda>_. stands st up a b) (escaped c b)"
    using safe_w_now [of st up a b "\<lambda>_. False" P] unfolding io_safe_def by (rule io_post_conseq) auto
  have want: "io_post (stands st up a b) (io_modify (\<lambda>w. w\<lparr>w_want_link := True\<rparr>)) (\<lambda>_. sane b) (escaped c b)"
    by (rule io_post_modify) (use g in \<open>auto simp: stands_def base_def sane_iff\<close>)
  have no: "io_post (sane b) (io_return False) (handled c b) (escaped c b)"
    by (rule io_post_return) (simp add: handled_def)
  have "io_post (stands st up a b) (io_bind (w_now P) (\<lambda>now. if now > link_deadline c
        then io_seq (abandon c (session_error st ''timed out waiting for link'')) (io_return True)
        else io_seq (io_modify (\<lambda>w. w\<lparr>w_want_link := True\<rparr>)) (io_return False))) (handled c b) (escaped c b)"
    by (intro io_post_bind [OF now] io_post_if post_gone [OF g] io_post_seq [OF want no])
  with False show ?thesis by (simp add: attempt_def post_gone [OF g])
qed

lemma post_try_execute: "io_post (sane b) (try_execute P fuel cf c) (handled c b) (escaped c b)"
  unfolding try_execute_def
proof (rule io_post_seq)
  show "io_post (sane b) (refresh_lease P) (\<lambda>_. sane b) (escaped c b)"
    using safe_refresh_lease [of b P] unfolding io_safe_def by (rule io_post_conseq) auto
  show "io_post (sane b) (io_bind (io_get (\<lambda>w. w)) (\<lambda>w. attempt P fuel cf c (w_state w) (w_last_error w)))
      (handled c b) (escaped c b)"
    unfolding sane_def [abs_def]
  proof (intro io_post_ex io_post_pure io_post_get)
    fix st up a and w :: "'a worker"
    assume g: "good st up a" and "stands st up a b w"
    then have "w_state w = st" by (simp add: stands_def)
    with post_attempt [OF g, of b P fuel cf c "w_last_error w"] show "io_post (stands st up a b)
        (attempt P fuel cf c (w_state w) (w_last_error w)) (handled c b) (escaped c b)" by simp
  qed
qed

lemma post_serve:
  "io_post (sane b) (serve P fuel cf head)
    (\<lambda>h w. case head of None \<Rightarrow> \<not> h \<and> sane b w | Some c \<Rightarrow> handled c b h w)
    (\<lambda>e w. case head of None \<Rightarrow> sane b w | Some c \<Rightarrow> escaped c b e w)"
proof -
  have st: "io_post (sane b) (io_seq (step P fuel cf) (io_return False)) (\<lambda>h w. \<not> h \<and> sane b w) (\<lambda>_. sane b)"
    by (rule io_post_seq [where R = "sane b", OF io_post_conseq [OF lands_step [unfolded lands_in_def]]])
      (auto intro: io_post_return)
  show ?thesis
  proof (cases head)
    case (Some c)
    have "io_post (handled c b h) (if h then io_return True else io_seq (step P fuel cf) (io_return False))
        (handled c b) (escaped c b)" for h
      using io_post_conseq [OF st, of "handled c b h" "handled c b" "escaped c b"]
      by (cases h) (auto simp: handled_def [abs_def] escaped_def intro: io_post_return)
    with Some show ?thesis by (simp add: serve_def io_post_bind [OF post_try_execute])
  qed (use st in \<open>simp add: serve_def\<close>)
qed

text \<open>Emptying the queue at the end.\<close>

lemma post_teardown_queue:
  assumes "distinct (map cmd_id q)" and "\<forall>c \<in> set q. bk_fut c b \<in> {PENDING, CANCELLED}" and "bk_queue b = q"
  shows "io_post (stands st up a b) (teardown_queue q)
    (\<lambda>_ w. \<exists>fs. stands st up a (b\<lparr>bk_queue := [], bk_futures := fs\<rparr>) w
      \<and> (\<forall>c \<in> set q. \<exists>f. fs (cmd_id c) = Some f \<and> resolved f)
      \<and> (\<forall>n. n \<notin> cmd_id ` set q \<longrightarrow> fs n = bk_futures b n)) (\<lambda>_ _. False)"
  using assms
proof (induction q arbitrary: b)
  case Nil
  then have "b\<lparr>bk_queue := [], bk_futures := bk_futures b\<rparr> = b" by simp
  then show ?case by (auto intro!: io_post_return exI [of _ "bk_futures b"])
next
  case (Cons c cs)
  let ?b = "b\<lparr>bk_queue := cs\<rparr>"
  let ?f = "if bk_fut c b = PENDING then EXCEPTION (session_error SHUTDOWN []) else CANCELLED_AND_NOTIFIED"
  let ?b' = "bk_set c ?f ?b"
  have pop: "io_post (stands st up a b) (io_modify (\<lambda>w. w\<lparr>w_queue := cs\<rparr>)) (\<lambda>_. stands st up a ?b) (\<lambda>_ _. False)"
    by (rule io_post_modify) (auto simp: stands_def base_def book_of_def)
  have fut: "bk_fut c ?b = bk_fut c b" by (simp add: bk_fut_def)
  have ab: "io_post (stands st up a ?b) (abandon c (session_error SHUTDOWN [])) (\<lambda>_. stands st up a ?b') (\<lambda>_ _. False)"
    by (rule io_post_conseq [OF post_abandon]) (use Cons.prems(2) in \<open>auto simp: fut\<close>)
  have other: "bk_fut c' ?b' = bk_fut c' b" if "c' \<in> set cs" for c'
  proof -
    have "cmd_id c' \<noteq> cmd_id c" using that Cons.prems(1) by (force simp: image_iff)
    then show ?thesis by (simp add: bk_fut_def)
  qed
  have "io_post (stands st up a ?b' :: 'a worker \<Rightarrow> bool) (teardown_queue cs)
    (\<lambda>_ w. \<exists>fs. stands st up a (?b'\<lparr>bk_queue := [], bk_futures := fs\<rparr>) w
      \<and> (\<forall>c \<in> set cs. \<exists>f. fs (cmd_id c) = Some f \<and> resolved f)
      \<and> (\<forall>n. n \<notin> cmd_id ` set cs \<longrightarrow> fs n = bk_futures ?b' n)) (\<lambda>_ _. False)"
    by (rule Cons.IH) (use Cons.prems other in auto)
  then have "io_post (stands st up a ?b' :: 'a worker \<Rightarrow> bool) (teardown_queue cs)
    (\<lambda>_ w. \<exists>fs. stands st up a (b\<lparr>bk_queue := [], bk_futures := fs\<rparr>) w
      \<and> (\<forall>c \<in> set (c # cs). \<exists>f. fs (cmd_id c) = Some f \<and> resolved f)
      \<and> (\<forall>n. n \<notin> cmd_id ` set (c # cs) \<longrightarrow> fs n = bk_futures b n)) (\<lambda>_ _. False)"
  proof (rule io_post_conseq)
    fix w assume "\<exists>fs. stands st up a (?b'\<lparr>bk_queue := [], bk_futures := fs\<rparr>) w
      \<and> (\<forall>c \<in> set cs. \<exists>f. fs (cmd_id c) = Some f \<and> resolved f)
      \<and> (\<forall>n. n \<notin> cmd_id ` set cs \<longrightarrow> fs n = bk_futures ?b' n)"
    then obtain fs where fs: "stands st up a (?b'\<lparr>bk_queue := [], bk_futures := fs\<rparr>) w"
      "\<forall>c \<in> set cs. \<exists>f. fs (cmd_id c) = Some f \<and> resolved f"
      "\<forall>n. n \<notin> cmd_id ` set cs \<longrightarrow> fs n = bk_futures ?b' n" by blast
    have "fs (cmd_id c) = Some ?f" using fs(3) Cons.prems(1) by auto
    moreover have "resolved ?f" by (simp add: resolved_def)
    ultimately show "\<exists>fs. stands st up a (b\<lparr>bk_queue := [], bk_futures := fs\<rparr>) w
      \<and> (\<forall>c \<in> set (c # cs). \<exists>f. fs (cmd_id c) = Some f \<and> resolved f)
      \<and> (\<forall>n. n \<notin> cmd_id ` set (c # cs) \<longrightarrow> fs n = bk_futures b n)"
      using fs by (intro exI [of _ fs]) (auto simp: bk_set_def)
  qed auto
  then show ?case
    unfolding teardown_queue.simps by (intro io_post_seq [OF pop] io_post_seq [OF ab])
qed

section \<open>The ledger\<close>

text \<open>
  Every command that was ever submitted is in the queue, or is the one being served, or has its answer.
  The queue is in the order in which it will be served.
\<close>

definition waiting :: "book \<Rightarrow> nat set" where
  "waiting b = cmd_id ` set (bk_queue b)"

definition ledger :: "book \<Rightarrow> command option \<Rightarrow> bool" where
  "ledger b head \<longleftrightarrow>
     sorted (map cmd_key (bk_queue b)) \<and> distinct (map cmd_id (bk_queue b))
     \<and> (\<forall>c \<in> set (bk_queue b). cmd_id c < bk_next_seq b \<and> bk_futures b (cmd_id c) \<in> {Some PENDING, Some CANCELLED})
     \<and> (\<forall>c. head = Some c \<longrightarrow> cmd_id c < bk_next_seq b \<and> cmd_id c \<notin> waiting b
          \<and> bk_futures b (cmd_id c) \<in> {Some PENDING, Some CANCELLED, Some RUNNING})
     \<and> (\<forall>n < bk_next_seq b. n \<in> waiting b \<or> (\<exists>c. head = Some c \<and> cmd_id c = n)
          \<or> (\<exists>f. bk_futures b n = Some f \<and> resolved f))
     \<and> (\<forall>n \<ge> bk_next_seq b. bk_futures b n = None)"

lemma ledger_start: "ledger \<lparr>bk_queue = [], bk_next_seq = 0, bk_futures = Map.empty, bk_lease_until = t, bk_stopping = s\<rparr> None"
  by (simp add: ledger_def waiting_def)

lemma ledger_answered: "ledger b (Some c) \<Longrightarrow> resolved f \<Longrightarrow> ledger (bk_set c f b) None"
  unfolding ledger_def waiting_def by (auto simp: image_iff)

lemma ledger_running: "ledger b (Some c) \<Longrightarrow> ledger (bk_set c RUNNING b) (Some c)"
  unfolding ledger_def waiting_def by (auto simp: image_iff)

lemma ledger_other: "ledger b head \<Longrightarrow> ledger (b\<lparr>bk_lease_until := t\<rparr>) head" "ledger b head \<Longrightarrow> ledger (b\<lparr>bk_stopping := s\<rparr>) head"
  by (simp_all add: ledger_def waiting_def)

lemma ledger_take:
  "ledger b None \<Longrightarrow> q_get (bk_queue b) = Some (c, q) \<Longrightarrow> ledger (b\<lparr>bk_queue := q\<rparr>) (Some c)"
  unfolding ledger_def waiting_def q_get_def by (auto split: list.splits)

lemma distinct_map_insort:
  "distinct (map g (insort_key f x xs)) \<longleftrightarrow> g x \<notin> g ` set xs \<and> distinct (map g xs)"
  by (induction xs) (auto simp: set_insort_key)

lemma ledger_submit:
  "ledger b head \<Longrightarrow> cmd_id c = bk_next_seq b \<Longrightarrow>
    ledger (b\<lparr>bk_queue := q_put c (bk_queue b), bk_next_seq := bk_next_seq b + 1,
      bk_futures := (bk_futures b)(bk_next_seq b \<mapsto> PENDING)\<rparr>) head"
  unfolding ledger_def waiting_def q_put_def
  by (auto simp: set_insort_key sorted_insort_key distinct_map_insort less_Suc_eq)

lemma cancel_simps [simp]:
  "cancel_future PENDING = CANCELLED" "cancel_future CANCELLED = CANCELLED" "cancel_future RUNNING = RUNNING"
  "resolved f \<Longrightarrow> cancel_future f = f"
  by (auto simp: cancel_future_def resolved_def split: future.splits)

lemma ledger_cancel:
  "ledger b head \<Longrightarrow> ledger (b\<lparr>bk_futures := (bk_futures b)(n := map_option cancel_future (bk_futures b n))\<rparr>) head"
  unfolding ledger_def waiting_def by auto

definition run_ok :: "'v runner \<Rightarrow> bool" where
  "run_ok r \<longleftrightarrow> sane (book_of (rn_worker r)) (rn_worker r) \<and> ledger (book_of (rn_worker r)) (rn_head r)
     \<and> (rn_phase r = WAIT \<longrightarrow> rn_head r = None)"

lemma run_okI: "sane b (rn_worker r) \<Longrightarrow> ledger b (rn_head r) \<Longrightarrow> (rn_phase r = WAIT \<Longrightarrow> rn_head r = None) \<Longrightarrow> run_ok r"
  by (auto simp: run_ok_def sane_iff)

section \<open>The public methods keep the ledger\<close>

definition outside :: "'v worker \<Rightarrow> 'v worker" where
  "outside w = w\<lparr>w_shared := undefined, w_queue := [], w_next_seq := 0, w_futures := Map.empty,
     w_lease_until := 0, w_stopping := False\<rparr>"

text \<open>What another thread can change: the public part, and the clock it reads.\<close>

lemma sane_outside:
  assumes "outside w' = outside w" and "sane (book_of w) w"
  shows "sane (book_of w') w'"
proof -
  have "w_state w' = w_state w" "w_link w' = w_link w" "w_address w' = w_address w" "w_alarms w' = w_alarms w"
    "w_backoff w' = w_backoff w"
    using arg_cong [OF assms(1), of w_state] arg_cong [OF assms(1), of w_link]
      arg_cong [OF assms(1), of w_address] arg_cong [OF assms(1), of w_alarms] arg_cong [OF assms(1), of w_backoff]
    by (simp_all add: outside_def)
  with assms(2) show ?thesis by (simp add: sane_iff base_def)
qed

lemma call_submit:
  "outside (snd (submit P n args prio lw w)) = outside w \<and>
   (book_of (snd (submit P n args prio lw w)) = book_of w \<or>
    (\<exists>c. cmd_id c = w_next_seq w \<and> book_of (snd (submit P n args prio lw w)) =
      (book_of w)\<lparr>bk_queue := q_put c (w_queue w), bk_next_seq := w_next_seq w + 1,
        bk_futures := (w_futures w)(w_next_seq w \<mapsto> PENDING)\<rparr>))"
proof (cases "n \<in> set ALL_COMMANDS")
  case True
  obtain created sh where 1: "monotonic (lift_ops P) (w_shared w) = (created, sh)" by (meson surj_pair)
  obtain now sh' where 2: "monotonic (lift_ops P) sh = (now, sh')" by (meson surj_pair)
  show ?thesis
    by (rule conjI [OF _ disjI2], insert True 1 2)
      (auto simp: submit_def io_defs w_now_def Let_def outside_def book_of_def cmd_id_def
        intro!: exI [of _ "\<lparr>cmd_key = Key prio (w_next_seq w), cmd_name = n, cmd_args = args,
          submitted_at = created, link_deadline = now + lw\<rparr>"])
qed (simp add: submit_def io_defs)

lemma call_others:
  "outside (snd (lease P t w)) = outside w" "\<exists>t'. book_of (snd (lease P t w)) = (book_of w)\<lparr>bk_lease_until := t'\<rparr>"
  "outside (snd (unlease w)) = outside w" "book_of (snd (unlease w)) = (book_of w)\<lparr>bk_lease_until := 0\<rparr>"
  "outside (snd (snapshot P cf w)) = outside w" "book_of (snd (snapshot P cf w)) = book_of w"
  "outside (snd (stop w)) = outside w" "book_of (snd (stop w)) = (book_of w)\<lparr>bk_stopping := True\<rparr>"
  "outside (snd (cancel n w)) = outside w"
  "book_of (snd (cancel n w)) =
    (book_of w)\<lparr>bk_futures := (w_futures w)(n := map_option cancel_future (w_futures w n))\<rparr>"
  by (auto simp: lease_def unlease_def snapshot_def stop_def cancel_def io_defs w_now_def outside_def book_of_def
      split: prod.split)

lemma book_of_sel [simp]:
  "bk_queue (book_of w) = w_queue w" "bk_next_seq (book_of w) = w_next_seq w" "bk_futures (book_of w) = w_futures w"
  "bk_lease_until (book_of w) = w_lease_until w" "bk_stopping (book_of w) = w_stopping w"
  by (simp_all add: book_of_def)

lemma run_ok_call:
  assumes "run_ok r" and "outside (snd (m (rn_worker r))) = outside (rn_worker r)"
    and "ledger (book_of (rn_worker r)) (rn_head r) \<Longrightarrow> ledger (book_of (snd (m (rn_worker r)))) (rn_head r)"
  shows "run_ok (call m r)"
  using assms sane_outside by (auto simp: run_ok_def call_def)

lemma run_ok_calls:
  assumes "run_ok r"
  shows "run_ok (call (submit P n args prio lw) r)" "run_ok (call (cancel i) r)" "run_ok (call (lease P t) r)"
    "run_ok (call unlease r)" "run_ok (call (snapshot P cf) r)" "run_ok (call stop r)"
proof -
  show "run_ok (call (submit P n args prio lw) r)"
    using call_submit [of P n args prio lw "rn_worker r"] ledger_submit [of "book_of (rn_worker r)" "rn_head r"]
    by (intro run_ok_call [OF assms, where m = "submit P n args prio lw"]) auto
  show "run_ok (call (lease P t) r)"
    using call_others(2) [of P t "rn_worker r"] ledger_other(1) [of "book_of (rn_worker r)" "rn_head r"]
    by (intro run_ok_call [OF assms, where m = "lease P t"]) (auto simp: call_others(1))
qed (use assms ledger_cancel [of "book_of (rn_worker r)" "rn_head r"]
    ledger_other [of "book_of (rn_worker r)" "rn_head r"] in \<open>simp_all add: run_ok_call call_others\<close>)

section \<open>A turn keeps it\<close>

lemma run_ok_recover:
  assumes "sane b (rn_worker r)" and "ledger b (rn_head r)" and "rn_phase r \<noteq> WAIT"
  shows "run_ok (recover P fuel e r)"
proof (cases "io_seq (fail_link P fuel ''internal error'') (pause P 500000) (rn_worker r)")
  case (Pair x w)
  have "lands b (sane b) (io_seq (fail_link P fuel ''internal error'') (pause P 500000))"
    by (rule lands_post [where J = "sane b", OF lands_any [OF lands_fail_link, unfolded lands_def]])
      (simp add: lands_def io_safe_mono [OF safe_sane [OF safe_pause], unfolded io_safe_def])
  then have "sane b w"
    using assms(1) Pair unfolding lands_def by (cases x) (auto dest: io_postD_Inr io_postD_Inl)
  with assms Pair show ?thesis
    by (cases x) (auto simp: recover_def intro: run_okI)
qed

lemma run_ok_serve:
  assumes "run_ok r" and "rn_phase r = SERVE"
  shows "run_ok (turn_serve P fuel cf r)"
proof (cases "serve P fuel cf (rn_head r) (rn_worker r)")
  case (Pair x w)
  let ?b = "book_of (rn_worker r)"
  have s: "sane ?b (rn_worker r)" and l: "ledger ?b (rn_head r)" using assms by (simp_all add: run_ok_def)
  show ?thesis
  proof (cases x)
    case (Inr h)
    note p = io_postD_Inr [OF post_serve s Pair [unfolded Inr]]
    show ?thesis
    proof (cases "rn_head r")
      case None
      with p l Pair Inr show ?thesis by (auto simp: turn_serve_def intro: run_okI)
    next
      case (Some c)
      then have "handled c ?b h w" using p by simp
      then show ?thesis
      proof (cases h)
        case True
        with \<open>handled c ?b h w\<close> obtain f where "resolved f" "sane (bk_set c f ?b) w" by (auto simp: handled_def)
        with True Some l Pair Inr show ?thesis
          by (auto simp: turn_serve_def intro!: run_okI [where b = "bk_set c f ?b"] ledger_answered)
      next
        case False
        with \<open>handled c ?b h w\<close> l Pair Inr show ?thesis
          by (auto simp: turn_serve_def handled_def intro: run_okI)
      qed
    qed
  next
    case (Inl e)
    note p = io_postD_Inl [OF post_serve s Pair [unfolded Inl]]
    have "\<exists>b. sane b w \<and> ledger b (rn_head r)"
      using p l ledger_running by (auto simp: escaped_def split: option.splits)
    then obtain b where "sane b w" "ledger b (rn_head r)" by blast
    with assms(2) Pair Inl show ?thesis
      using run_ok_recover [of b "r\<lparr>rn_worker := w\<rparr>" P fuel e] by (simp add: turn_serve_def)
  qed
qed

lemma run_ok_wait:
  assumes "run_ok r" and "rn_phase r = WAIT"
  shows "run_ok (turn_wait P cf r)"
proof -
  let ?b = "book_of (rn_worker r)"
  have s: "sane ?b (rn_worker r)" and l: "ledger ?b None" using assms by (auto simp: run_ok_def)
  show ?thesis
  proof (cases "q_get (w_queue (rn_worker r))")
    case None
    have "sane ?b (snd (pause P t (rn_worker r)))" for t
      by (rule io_safe_keeps [OF safe_sane [OF safe_pause] s prod.collapse [symmetric]])
    then have "run_ok (r\<lparr>rn_worker := snd (pause P t (rn_worker r)), rn_phase := SERVE\<rparr>)" for t
      using l assms by (intro run_okI [where b = ?b]) (auto simp: run_ok_def)
    with None show ?thesis by (simp add: turn_wait_def)
  next
    case (Some cq)
    then obtain c q where q: "q_get (w_queue (rn_worker r)) = Some (c, q)" by (cases cq) auto
    have b: "book_of ((rn_worker r)\<lparr>w_queue := q\<rparr>) = ?b\<lparr>bk_queue := q\<rparr>" by (simp add: book_of_def)
    have "sane (?b\<lparr>bk_queue := q\<rparr>) ((rn_worker r)\<lparr>w_queue := q\<rparr>)" using s by (simp add: sane_iff base_def b)
    with q ledger_take [OF l, of c q] show ?thesis
      by (auto simp: turn_wait_def intro: run_okI [where b = "?b\<lparr>bk_queue := q\<rparr>"])
  qed
qed

lemma ledger_torn:
  assumes l: "ledger b head" and "\<forall>n. n \<notin> waiting b \<longrightarrow> fs n = bk_futures b n"
    and "\<forall>c \<in> set (bk_queue b). \<exists>f. fs (cmd_id c) = Some f \<and> resolved f"
  shows "ledger (b\<lparr>bk_queue := [], bk_futures := fs\<rparr>) head"
proof -
  have "n \<in> waiting b \<Longrightarrow> \<exists>f. fs n = Some f \<and> resolved f" for n using assms(3) by (auto simp: waiting_def)
  moreover have "n \<in> waiting b \<Longrightarrow> n < bk_next_seq b" for n using l by (auto simp: ledger_def waiting_def)
  ultimately have "n < bk_next_seq b \<Longrightarrow> (\<exists>c. head = Some c \<and> cmd_id c = n) \<or> (\<exists>f. fs n = Some f \<and> resolved f)"
    and "bk_next_seq b \<le> n \<Longrightarrow> fs n = None" for n
    using l assms(2) unfolding ledger_def by (metis, metis linorder_not_less)
  with l assms(2) show ?thesis unfolding ledger_def waiting_def by auto
qed

lemma post_teardown:
  assumes "ledger b head"
  shows "io_post (sane b) (io_seq (teardown P fuel) (set_state SHUTDOWN []))
    (\<lambda>_ w. \<exists>b'. sane b' w \<and> ledger b' head \<and> bk_queue b' = [] \<and> bk_next_seq b' = bk_next_seq b
      \<and> w_state w = SHUTDOWN \<and> w_link w = None
      \<and> (\<forall>n. n \<notin> waiting b \<longrightarrow> bk_futures b' n = bk_futures b n))
    (\<lambda>_ w. \<exists>b'. sane b' w \<and> ledger b' head \<and> (\<forall>n. n \<notin> waiting b \<longrightarrow> bk_futures b' n = bk_futures b n))"
    (is "io_post _ _ ?Q ?E")
  unfolding sane_def [of b, abs_def]
proof (intro io_post_ex io_post_pure)
  fix st up a
  assume g: "good st up a"
  have q: "distinct (map cmd_id (bk_queue b))" "\<forall>c \<in> set (bk_queue b). bk_fut c b \<in> {PENDING, CANCELLED}"
    using assms by (auto simp: ledger_def bk_fut_def)
  define torn where "torn fs \<longleftrightarrow> (\<forall>c \<in> set (bk_queue b). \<exists>f. fs (cmd_id c) = Some f \<and> resolved f)
      \<and> (\<forall>n. n \<notin> waiting b \<longrightarrow> fs n = bk_futures b n)" for fs
  have t: "io_post (stands st up a b :: 'a worker \<Rightarrow> bool) (io_bind (io_get w_queue) teardown_queue)
      (\<lambda>_ w. \<exists>fs. torn fs \<and> stands st up a (b\<lparr>bk_queue := [], bk_futures := fs\<rparr>) w) ?E"
  proof (rule io_post_get)
    fix w :: "'a worker" assume "stands st up a b w"
    then have "w_queue w = bk_queue b" by (auto simp: stands_def)
    then show "io_post (stands st up a b) (teardown_queue (w_queue w))
      (\<lambda>_ w. \<exists>fs. torn fs \<and> stands st up a (b\<lparr>bk_queue := [], bk_futures := fs\<rparr>) w) ?E"
      by (simp only:) (rule io_post_conseq [OF post_teardown_queue [OF q refl]], auto simp: torn_def waiting_def)
  qed
  have r: "io_post (stands st up a (b\<lparr>bk_queue := [], bk_futures := fs\<rparr>)) (io_seq (release P fuel) (set_state SHUTDOWN [])) ?Q ?E"
    if torn: "torn fs" for fs
  proof -
    have l: "ledger (b\<lparr>bk_queue := [], bk_futures := fs\<rparr>) head"
      using torn assms by (intro ledger_torn) (auto simp: torn_def)
    let ?b = "b\<lparr>bk_queue := [], bk_futures := fs\<rparr>"
    have 1: "io_post (stands st up a ?b) (release P fuel) (\<lambda>_. down a ?b) ?E"
      by (rule io_post_conseq [OF post_release]) (use l torn in \<open>auto intro!: exI [of _ ?b] intro: stands_sane simp: torn_def\<close>)
    have shut: "?Q x w" if "stands SHUTDOWN False a ?b w" for x and w :: "'a worker"
    proof (intro exI [of _ ?b] conjI l)
      show "sane ?b w" by (rule stands_sane [OF that]) simp
    qed (use that torn in \<open>simp_all add: stands_def torn_def\<close>)
    have "io_post (down a ?b) (set_state SHUTDOWN []) ?Q ?E"
      unfolding down_def
      by (rule io_post_ex, rule io_post_conseq [OF post_set_state [where E = "\<lambda>_ _. False"]])
        (erule shut | assumption | simp)+
    then show ?thesis by (rule io_post_seq [OF 1])
  qed
  have "io_seq (teardown P fuel) (set_state SHUTDOWN []) =
      io_seq (io_bind (io_get w_queue) teardown_queue) (io_seq (release P fuel) (set_state SHUTDOWN []))"
    by (rule ext) (simp add: teardown_def io_defs split: prod.split sum.split)
  then show "io_post (stands st up a b) (io_seq (teardown P fuel) (set_state SHUTDOWN [])) ?Q ?E"
    by (simp only:) (intro io_post_seq [OF t] io_post_ex io_post_pure r)
qed

lemma run_ok_top:
  assumes "run_ok r" and "rn_phase r = TOP"
  shows "run_ok (turn_top P fuel cf r)"
proof -
  let ?b = "book_of (rn_worker r)" and ?t = "io_seq (teardown P fuel) (set_state SHUTDOWN [])"
  let ?h = "io_seq (io_bind (w_now P) (\<lambda>now. io_modify (\<lambda>w. w\<lparr>w_heartbeat := now\<rparr>))) (refresh_lease P)"
  have s: "sane ?b (rn_worker r)" and l: "ledger ?b (rn_head r)" using assms by (simp_all add: run_ok_def)
  show ?thesis
  proof (cases "w_stopping (rn_worker r)")
    case True
    obtain x w where t: "?t (rn_worker r) = (x, w)" by (cases "?t (rn_worker r)")
    then have "\<exists>b'. sane b' w \<and> ledger b' (rn_head r)"
      by (cases x) (use io_postD_Inr [OF post_teardown [OF l] s] io_postD_Inl [OF post_teardown [OF l] s] in blast)+
    with True t show ?thesis by (cases x) (auto simp: turn_top_def intro: run_okI)
  next
    case False
    have h: "io_safe (sane ?b) (\<lambda>_. False) ?h"
      by (intro io_safe_seq safe_refresh_lease safe_sane safe_intros)
    obtain x w where t: "?h (rn_worker r) = (x, w)" by (cases "?h (rn_worker r)")
    from io_safe_keeps [OF h s t] io_safe_raises [OF h s] t l False show ?thesis
      by (cases x) (auto simp: turn_top_def intro: run_okI)
  qed
qed

lemma run_ok_turn: "run_ok r \<Longrightarrow> run_ok (turn P fuel cf r)"
  by (cases "rn_phase r") (simp_all add: turn_def run_ok_top run_ok_wait run_ok_serve)

lemma run_ok_start: "run_ok (new_runner P v)"
  by (auto simp: run_ok_def new_runner_def new_worker_def sane_iff base_def book_of_def ledger_start
      split: prod.split)

lemma run_ok_step: "session_step P fuel cf r r' \<Longrightarrow> run_ok r \<Longrightarrow> run_ok r'"
  by (induction rule: session_step.induct) (auto intro: run_ok_turn run_ok_calls)

lemma reachable_run_ok: "reachable P fuel cf r \<Longrightarrow> run_ok r"
  by (induction rule: reachable.induct) (auto intro: run_ok_start run_ok_step)

end
