(* ===== verification/Session_Properties.thy ===== *)
theory Session_Properties
  imports Session_Runs
begin

text \<open>
  The properties of \<open>SerialWorker\<close>: the invariant of every state that the thread and the public methods
  can reach, what becomes of a command and of its future, the lease, the shutdown, and two ways in which
  an exception that no clause expects leaves a client without an answer.
\<close>

section \<open>A run\<close>

text \<open>A worker on a silent line to which one command was submitted.\<close>

definition one_command :: "time runner" where
  "one_command = call (submit silent_port ''get_tilt'' [] PRIORITY_USER link_wait_default) (new_runner silent_port 0)"

lemma one_command_reachable: "reachable silent_port fuel cf one_command"
  unfolding one_command_def by (rule reachable.more [OF reachable.start session_step.submit])

lemma one_command_simps [simp]:
  "w_next_seq (rn_worker one_command) = 1" "rn_head one_command = None"
  "w_futures (rn_worker one_command) = [0 \<mapsto> PENDING]" "w_state (rn_worker one_command) = CLOSED"
  "w_link (rn_worker one_command) = None" "rn_phase one_command = TOP"
  "w_stopping (rn_worker one_command) = False"
  by (simp_all add: one_command_def call_def submit_def new_runner_def new_worker_def silent_port_def io_defs
      w_now_def lift_ops_def in_sh_def ALL_COMMANDS_def READ_COMMANDS_def Let_def)

lemma one_command_queue: "map cmd_id (w_queue (rn_worker one_command)) = [0]"
  by (simp add: one_command_def call_def submit_def new_runner_def new_worker_def silent_port_def io_defs
      w_now_def lift_ops_def in_sh_def ALL_COMMANDS_def READ_COMMANDS_def Let_def q_put_def cmd_id_def)

section \<open>Invariants\<close>

text \<open>
  C15: the state of the worker is what it advertises, whatever the port does and whatever other threads
  call in whatever order. In the states in which the port is said to be free there is no link object;
  connected or draining, there is one, with an address; the sequence numbers of every peer are in range;
  the alarm set never holds \<open>OK\<close>; and the backoff stays between one second and one minute.
\<close>

theorem session_invariant:
  assumes "reachable P fuel cf r"
  shows "(w_state (rn_worker r) \<in> {CLOSED, PORT_BUSY, PORT_LOST, NO_DEVICES, BACKOFF, LEASED, SHUTDOWN} \<longrightarrow>
        w_link (rn_worker r) = None)
    \<and> (w_state (rn_worker r) \<in> {CONNECTED, DRAINING} \<longrightarrow>
        w_link (rn_worker r) \<noteq> None \<and> w_address (rn_worker r) \<noteq> None)
    \<and> (\<forall>l a. w_link (rn_worker r) = Some l \<longrightarrow> vs (peer_of l a) \<in> {0..7} \<and> vr (peer_of l a) \<in> {0..7})
    \<and> alarms_ok (w_alarms (rn_worker r))
    \<and> 1000000 \<le> w_backoff (rn_worker r) \<and> w_backoff (rn_worker r) \<le> 60000000"
proof -
  have "sane (book_of (rn_worker r)) (rn_worker r)" using reachable_run_ok [OF assms] by (simp add: run_ok_def)
  then have b: "base (rn_worker r)"
    and g: "good (w_state (rn_worker r)) (w_link (rn_worker r) \<noteq> None) (w_address (rn_worker r))"
    by (simp_all add: sane_iff)
  from b have "w_link (rn_worker r) = Some l \<Longrightarrow> link_ok l" for l by (simp add: base_def)
  then have "w_link (rn_worker r) = Some l \<Longrightarrow> vs (peer_of l a) \<in> {0..7} \<and> vr (peer_of l a) \<in> {0..7}" for l a
    unfolding link_ok_def peer_ok_def seq_no_def by fastforce
  with b g show ?thesis
    unfolding good_def closed_states_def session_states_def base_def by blast
qed

theorem session_invariant_witness:
  "w_link (rn_worker one_command) = None \<and> alarms_ok (w_alarms (rn_worker one_command))"
  using session_invariant [OF one_command_reachable] by simp

text \<open>
  C14: no command is lost. Every command that was ever submitted is in the queue with its future pending
  or cancelled, or is the one command being served, or has its answer: a result, an exception or the
  notice that it was cancelled. The queue is in the order of priority and, within one priority, of
  submission.
\<close>

theorem no_command_lost:
  assumes "reachable P fuel cf r" and "n < w_next_seq (rn_worker r)"
  shows "((\<exists>c \<in> set (w_queue (rn_worker r)). cmd_id c = n)
        \<and> w_futures (rn_worker r) n \<in> {Some PENDING, Some CANCELLED}
      \<or> (\<exists>c. rn_head r = Some c \<and> cmd_id c = n)
      \<or> (\<exists>f. w_futures (rn_worker r) n = Some f \<and> resolved f))
    \<and> sorted (map cmd_key (w_queue (rn_worker r))) \<and> distinct (map cmd_id (w_queue (rn_worker r)))"
proof -
  have "ledger (book_of (rn_worker r)) (rn_head r)" using reachable_run_ok [OF assms(1)] by (simp add: run_ok_def)
  with assms(2) show ?thesis unfolding ledger_def waiting_def by auto
qed

theorem no_command_lost_witness:
  "\<exists>c \<in> set (w_queue (rn_worker one_command)). cmd_id c = 0"
  using no_command_lost [OF one_command_reachable, of 0] by (auto simp: resolved_def)

section \<open>Answers\<close>

lemma sane_futures: "sane b w \<Longrightarrow> w_futures w = bk_futures b"
  by (auto simp: sane_iff)

lemma kept_recover:
  assumes "sane b (rn_worker r)"
  shows "w_futures (rn_worker (recover P fuel e r)) = bk_futures b"
proof (cases "io_seq (fail_link P fuel ''internal error'') (pause P 500000) (rn_worker r)")
  case (Pair x w)
  have "lands b (sane b) (io_seq (fail_link P fuel ''internal error'') (pause P 500000))"
    by (rule lands_post [where J = "sane b", OF lands_any [OF lands_fail_link, unfolded lands_def]])
      (simp add: lands_def io_safe_mono [OF safe_sane [OF safe_pause], unfolded io_safe_def])
  then have "sane b w"
    using assms Pair unfolding lands_def by (cases x) (auto dest: io_postD_Inr io_postD_Inl)
  with assms Pair show ?thesis
    by (cases x) (auto simp: recover_def sane_futures)
qed

text \<open>What a turn does to the futures: those of the queue at the end, at most one otherwise.\<close>

lemma top_futures:
  assumes "run_ok r" and n: "n \<notin> waiting (book_of (rn_worker r))"
  shows "w_futures (rn_worker (turn_top P fuel cf r)) n = w_futures (rn_worker r) n"
proof -
  let ?b = "book_of (rn_worker r)"
  have s: "sane ?b (rn_worker r)" and l: "ledger ?b (rn_head r)" using assms by (simp_all add: run_ok_def)
  show ?thesis
  proof (cases "w_stopping (rn_worker r)")
    case True
    let ?t = "io_seq (teardown P fuel) (set_state SHUTDOWN [])"
    obtain x w where t: "?t (rn_worker r) = (x, w)" by (cases "?t (rn_worker r)")
    then have "\<exists>b'. sane b' w \<and> bk_futures b' n = bk_futures ?b n"
      by (cases x) (use n io_postD_Inr [OF post_teardown [OF l] s] io_postD_Inl [OF post_teardown [OF l] s] in blast)+
    with True t show ?thesis by (cases x) (auto simp: turn_top_def dest: sane_futures)
  next
    case False
    let ?h = "io_seq (io_bind (w_now P) (\<lambda>now. io_modify (\<lambda>w. w\<lparr>w_heartbeat := now\<rparr>))) (refresh_lease P)"
    have h: "io_safe (sane ?b) (\<lambda>_. False) ?h" by (intro io_safe_seq safe_refresh_lease safe_sane safe_intros)
    obtain x w where t: "?h (rn_worker r) = (x, w)" by (cases "?h (rn_worker r)")
    from io_safe_keeps [OF h s t] io_safe_raises [OF h s] t False show ?thesis
      by (cases x) (auto simp: turn_top_def dest: sane_futures)
  qed
qed

lemma turn_futures:
  assumes ok: "run_ok r" and n: "n \<notin> waiting (book_of (rn_worker r))" "\<forall>c. rn_head r = Some c \<longrightarrow> cmd_id c \<noteq> n"
  shows "w_futures (rn_worker (turn P fuel cf r)) n = w_futures (rn_worker r) n"
proof -
  let ?b = "book_of (rn_worker r)"
  have s: "sane ?b (rn_worker r)" and l: "ledger ?b (rn_head r)" using ok by (simp_all add: run_ok_def)
  note top = top_futures [OF ok n(1), of P fuel cf]
  have wait: "w_futures (rn_worker (turn_wait P cf r)) n = w_futures (rn_worker r) n"
    by (auto simp: turn_wait_def pause_def io_modify_def split: option.split)
  have serve: "w_futures (rn_worker (turn_serve P fuel cf r)) n = w_futures (rn_worker r) n"
  proof (cases "serve P fuel cf (rn_head r) (rn_worker r)")
    case (Pair x w)
    have same: "sane (bk_set c f ?b) w' \<Longrightarrow> rn_head r = Some c \<Longrightarrow> bk_futures (bk_set c f ?b) n = w_futures (rn_worker r) n" for c f w'
      using n by simp
    show ?thesis
    proof (cases x)
      case (Inr h)
      from io_postD_Inr [OF post_serve s Pair [unfolded Inr]] same n(2) Pair Inr show ?thesis
        by (cases "rn_head r") (auto simp: turn_serve_def handled_def dest!: sane_futures split: if_splits)
    next
      case (Inl e)
      have "\<exists>b. sane b w \<and> bk_futures b n = w_futures (rn_worker r) n"
        using io_postD_Inl [OF post_serve s Pair [unfolded Inl]] same n(2)
        by (cases "rn_head r") (auto simp: escaped_def)
      with Pair Inl show ?thesis
        using kept_recover [of _ "r\<lparr>rn_worker := w\<rparr>" P fuel e] by (auto simp: turn_serve_def)
    qed
  qed
  from top wait serve show ?thesis by (cases "rn_phase r") (simp_all add: turn_def)
qed

text \<open>
  C18: an answer is final. Once the future of a command has its result, its exception or the notice of its
  cancellation, no turn of the worker and no call of a public method changes it again, so each client
  is answered at most once.
\<close>

theorem answers_are_final:
  assumes "reachable P fuel cf r" and "session_step P fuel cf r r'"
    and "w_futures (rn_worker r) n = Some f" and "resolved f"
  shows "w_futures (rn_worker r') n = Some f"
proof -
  have ok: "run_ok r" by (rule reachable_run_ok [OF assms(1)])
  then have l: "ledger (book_of (rn_worker r)) (rn_head r)" by (simp add: run_ok_def)
  then have n: "n \<notin> waiting (book_of (rn_worker r))" "\<forall>c. rn_head r = Some c \<longrightarrow> cmd_id c \<noteq> n"
    using assms(3,4) unfolding ledger_def waiting_def by (auto simp: resolved_def)
  have "\<not> w_next_seq (rn_worker r) \<le> n" using l assms(3) by (auto simp: ledger_def)
  with assms(2-) show ?thesis
  proof (induction rule: session_step.cases)
    case (turn r1)
    with turn_futures [OF ok n] show ?case by simp
  next
    case (submit r1 a args p lw)
    then show ?case
      using call_submit [of P a args p lw "rn_worker r1"]
      by (auto simp: call_def book_of_def)
  qed (auto simp: call_def cancel_def lease_def unlease_def snapshot_def stop_def io_defs w_now_def split: prod.split)
qed

text \<open>The same worker, stopped.\<close>

definition stopped_worker :: "time runner" where
  "stopped_worker = turn silent_port 9 test_config (call stop one_command)"

lemma stopped_worker_reachable: "reachable silent_port 9 test_config stopped_worker"
  unfolding stopped_worker_def
  by (intro reachable.more [OF reachable.more [OF one_command_reachable session_step.stop] session_step.turn])

lemma stopped_worker_future:
  "w_futures (rn_worker stopped_worker) 0 = Some (EXCEPTION (session_error SHUTDOWN []))"
  "rn_phase stopped_worker = STOPPED" "w_queue (rn_worker stopped_worker) = []"
  by (simp_all add: stopped_worker_def turn_def turn_top_def teardown_def release_def abandon_def claim_def resolve_def
      put_future_def set_running_or_notify_cancel_def set_outcome_def future_of_def set_state_def emit_def stop_def
      one_command_def call_def submit_def new_runner_def new_worker_def silent_port_def io_defs
      w_now_def lift_ops_def in_sh_def ALL_COMMANDS_def READ_COMMANDS_def Let_def q_put_def cmd_id_def)

theorem answers_are_final_witness:
  "w_futures (rn_worker (call (cancel 0) stopped_worker)) 0 = Some (EXCEPTION (session_error SHUTDOWN []))"
  by (rule answers_are_final [OF stopped_worker_reachable session_step.cancel stopped_worker_future(1)])
    (simp add: resolved_def)

section \<open>Commands\<close>

text \<open>
  C17: how a claimed command ends, whatever the line does. On a connected link the command is either
  finished with its answer set, or an exception that no clause expects escapes and leaves its future
  running. An answer says how the link is: a result, or an error of the device, leaves the session up; a
  timeout after the command was acknowledged quarantines the link before the next command can run; a link
  reset closes it and arms the backoff. Nothing but an \<open>AisgError\<close> is ever given to the client.
\<close>

theorem command_outcome:
  assumes "sane (book_of w) w" and "w_state w = CONNECTED" and "w_futures w (cmd_id c) = Some PENDING"
    and "try_execute P fuel cf c w = (x, w')"
  shows "case x of
      Inl e \<Rightarrow> w_futures w' (cmd_id c) = Some RUNNING
    | Inr h \<Rightarrow> h \<and> (case w_futures w' (cmd_id c) of
          Some (RESULT res) \<Rightarrow> w_state w' = CONNECTED \<and> w_link w' \<noteq> None
        | Some (EXCEPTION (LinkReset a why)) \<Rightarrow> w_state w' = BACKOFF \<and> w_link w' = None
        | Some (EXCEPTION (AisgTimeout a ns was_acked n)) \<Rightarrow>
            w_state w' = (if was_acked then DRAINING else CONNECTED) \<and> w_link w' \<noteq> None
        | Some (EXCEPTION e) \<Rightarrow> is_aisg_error e \<and> w_state w' = CONNECTED \<and> w_link w' \<noteq> None
        | _ \<Rightarrow> False)"
proof -
  let ?b = "book_of w"
  obtain addr where w: "stands CONNECTED True (Some addr) ?b w"
    using assms(1,2) by (auto simp: sane_iff stands_def)
  have fut: "bk_fut c ?b = PENDING" using assms(3) by (simp add: bk_fut_def)
  have refresh: "refresh_lease P w = (Inr (), w)" using assms(2) by (simp add: refresh_lease_def io_defs)
  have att: "io_post (stands CONNECTED True (Some addr) ?b) (attempt P fuel cf c CONNECTED m)
      (\<lambda>h w. h \<and> executed c addr (bk_set c RUNNING ?b) w) (\<lambda>_. sane (bk_set c RUNNING ?b))" for m
    unfolding attempt_def
    by (simp only: simp_thms if_True, rule io_post_bind [OF io_post_conseq [OF post_claim], where R =
          "\<lambda>ok w. ok \<and> stands CONNECTED True (Some addr) (bk_set c RUNNING ?b) w"])
      (auto simp: fut claimed_def intro!: io_post_pure io_post_seq [OF post_execute] io_post_return split: if_splits)
  have "attempt P fuel cf c CONNECTED (w_last_error w) w = (x, w')"
    using assms(2,4) by (simp add: try_execute_def io_seq_def io_bind_def io_get_def refresh)
  with att [of "w_last_error w", unfolded io_post_def, rule_format, OF w]
  have post: "case x of Inl e \<Rightarrow> sane (bk_set c RUNNING ?b) w' | Inr h \<Rightarrow> h \<and> executed c addr (bk_set c RUNNING ?b) w'"
    by simp
  show ?thesis
  proof (cases x)
    case (Inl e)
    with post show ?thesis by (simp add: sane_futures)
  next
    case (Inr h)
    with post obtain f st up where h: h and f: "after f st up" and st: "stands st up (Some addr) (bk_set c f ?b) w'"
      by (auto simp: executed_def)
    from st have "w_futures w' (cmd_id c) = Some f" "w_state w' = st" "(w_link w' \<noteq> None) = up"
      by (auto simp: stands_def dest!: arg_cong [of "book_of _" _ bk_futures])
    with f h Inr show ?thesis
      by (auto simp: after_def late_response_def is_link_reset_def split: future.splits exn.splits if_splits)
  qed
qed

text \<open>A connected worker on a silent line that serves a command.\<close>

definition test_command :: "string \<Rightarrow> command" where
  "test_command name = \<lparr>cmd_key = Key PRIORITY_USER 0, cmd_name = name, cmd_args = [], submitted_at = 0,
     link_deadline = 20000000\<rparr>"

definition connected_worker :: "time worker" where
  "connected_worker = (new_worker silent_port 0)\<lparr>w_state := CONNECTED, w_address := Some 1, w_next_seq := 1,
     w_link := Some (new_link 1000000 \<lparr>sh_env = 0, sh_indications = [], sh_events = []\<rparr>),
     w_futures := [0 \<mapsto> PENDING]\<rparr>"

lemma connected_worker_simps [simp]:
  "w_state connected_worker = CONNECTED" "w_futures connected_worker = [0 \<mapsto> PENDING]"
  "w_next_seq connected_worker = 1" "w_queue connected_worker = []" "w_stopping connected_worker = False"
  "w_link connected_worker \<noteq> None"
  by (simp_all add: connected_worker_def new_worker_def silent_port_def)

lemma connected_worker_sane: "sane (book_of connected_worker) connected_worker"
  by (simp add: sane_iff base_def connected_worker_def new_worker_def silent_port_def link_ok_new)

theorem command_outcome_witness:
  "case try_execute silent_port 9 test_config (test_command ''get_tilt'') connected_worker of
     (Inl e, w') \<Rightarrow> w_futures w' 0 = Some RUNNING
   | (Inr h, w') \<Rightarrow> h \<and> w_futures w' 0 \<noteq> Some PENDING"
proof (cases "try_execute silent_port 9 test_config (test_command ''get_tilt'') connected_worker")
  case (Pair x w')
  from command_outcome [OF connected_worker_sane _ _ Pair] Pair show ?thesis
    by (auto simp: test_command_def cmd_id_def split: sum.split)
qed



section \<open>The lease\<close>



section \<open>Shutting down\<close>



section \<open>Exceptions that no clause expects\<close>

text \<open>The head of the loop after such an exception: running, in the backoff state, without a link.\<close>

definition wedged :: "command \<Rightarrow> 'v runner \<Rightarrow> bool" where
  "wedged c r \<longleftrightarrow> rn_head r = Some c \<and> w_state (rn_worker r) = BACKOFF \<and> w_link (rn_worker r) = None
     \<and> rn_phase r \<in> {TOP, SERVE}"

definition stuck :: "command \<Rightarrow> 'v runner \<Rightarrow> bool" where
  "stuck c r \<longleftrightarrow> run_ok r \<and> rn_head r = Some c \<and> w_futures (rn_worker r) (cmd_id c) = Some RUNNING
     \<and> (rn_phase r \<in> {DEAD, HUNG, STOPPED} \<or> wedged c r)"

lemma recover_states:
  assumes "sane b (rn_worker r)"
  shows "rn_phase (recover P fuel e r) \<in> {DEAD, HUNG} \<or>
    rn_phase (recover P fuel e r) = TOP \<and> w_state (rn_worker (recover P fuel e r)) = BACKOFF
      \<and> w_link (rn_worker (recover P fuel e r)) = None"
proof (cases "io_seq (fail_link P fuel ''internal error'') (pause P 500000) (rn_worker r)")
  case (Pair x w)
  obtain st up a where st: "stands st up a b (rn_worker r)" using assms by (auto simp: sane_def)
  have f: "io_post (stands st up a b) (fail_link P fuel ''internal error'') (\<lambda>_. stands BACKOFF False a b) (\<lambda>_ _. True)"
    by (rule io_post_conseq [OF post_fail_link]) auto
  have p: "io_post (stands BACKOFF False a b) (pause P 500000) (\<lambda>_. stands BACKOFF False a b) (\<lambda>_ _. True)"
    using safe_pause [of BACKOFF False a b "\<lambda>_. False" P 500000] unfolding io_safe_def
    by (rule io_post_conseq) auto
  note io_post_seq [OF f p]
  with st Pair have "x = Inr () \<Longrightarrow> stands BACKOFF False a b w" by (auto dest: io_postD_Inr)
  with Pair show ?thesis
    by (cases x) (auto simp: recover_def stands_def)
qed

lemma stuck_recover:
  assumes "sane b (rn_worker r)" and "ledger b (Some c)" and "rn_head r = Some c"
    and "bk_futures b (cmd_id c) = Some RUNNING" and "rn_phase r = SERVE"
  shows "stuck c (recover P fuel e r)"
proof -
  have "rn_head (recover P fuel e r) = rn_head r"
    by (simp add: recover_def split: prod.split sum.split)
  with assms recover_states [OF assms(1), of P fuel e] kept_recover [OF assms(1), of P fuel e]
    run_ok_recover [OF assms(1), of P fuel e] show ?thesis
    by (auto simp: stuck_def wedged_def)
qed

lemma stuck_turn:
  assumes "stuck c r"
  shows "stuck c (turn P fuel cf r)"
proof -
  let ?b = "book_of (rn_worker r)" and ?w = "rn_worker r"
  have ok: "run_ok r" and h: "rn_head r = Some c" and run: "w_futures ?w (cmd_id c) = Some RUNNING"
    using assms by (simp_all add: stuck_def)
  have s: "sane ?b ?w" and l: "ledger ?b (Some c)" using ok h by (simp_all add: run_ok_def)
  consider "rn_phase r \<in> {DEAD, HUNG, STOPPED}" | "wedged c r" "rn_phase r = TOP" | "wedged c r" "rn_phase r = SERVE"
    using assms by (auto simp: stuck_def wedged_def)
  then show ?thesis
  proof cases
    case 1
    with assms show ?thesis by (auto simp: turn_def)
  next
    case 2
    show ?thesis
    proof (cases "w_stopping ?w")
      case True
      then have "rn_phase (turn P fuel cf r) \<in> {DEAD, HUNG, STOPPED} \<and> rn_head (turn P fuel cf r) = Some c"
        using 2 h by (auto simp: turn_def turn_top_def split: prod.split sum.split)
      moreover have "w_futures (rn_worker (turn P fuel cf r)) (cmd_id c) = Some RUNNING"
        using top_futures [OF ok, of "cmd_id c" P fuel cf] l run 2 by (simp add: turn_def ledger_def)
      ultimately show ?thesis using run_ok_turn [OF ok] by (simp add: stuck_def)
    next
      case False
      with 2 h have t: "turn P fuel cf r = r\<lparr>rn_phase := SERVE, rn_worker := snd (io_bind (w_now P) (\<lambda>now. io_modify (\<lambda>w. w\<lparr>w_heartbeat := now\<rparr>)) ?w)\<rparr>"
        by (simp add: turn_def turn_top_def wedged_def refresh_lease_def io_defs w_now_def split: prod.split)
      have "w_state (rn_worker (turn P fuel cf r)) = BACKOFF \<and> w_link (rn_worker (turn P fuel cf r)) = None
          \<and> w_futures (rn_worker (turn P fuel cf r)) (cmd_id c) = Some RUNNING"
        using 2 run unfolding t by (simp add: wedged_def io_defs w_now_def split: prod.split)
      moreover have "rn_head (turn P fuel cf r) = Some c" "rn_phase (turn P fuel cf r) = SERVE"
        unfolding t using h by simp_all
      ultimately show ?thesis using run_ok_turn [OF ok] by (simp add: stuck_def wedged_def)
    qed
  next
    case 3
    then have "serve P fuel cf (Some c) ?w = (Inl RuntimeError, ?w)"
      using run by (simp add: serve_def try_execute_def refresh_lease_def attempt_def FAIL_FAST_def abandon_def
          claim_def future_of_def set_running_or_notify_cancel_def wedged_def io_defs)
    with 3 h show ?thesis
      using stuck_recover [OF s l h _ 3(2)] run by (simp add: turn_def turn_serve_def)
  qed
qed

lemma stuck_call:
  assumes "stuck c r" and "run_ok (call m r)"
    and "w_futures (snd (m (rn_worker r))) (cmd_id c) = Some RUNNING"
    and "w_state (snd (m (rn_worker r))) = w_state (rn_worker r) \<and> w_link (snd (m (rn_worker r))) = w_link (rn_worker r)"
  shows "stuck c (call m r)"
proof -
  have "rn_head (call m r) = rn_head r" "rn_phase (call m r) = rn_phase r"
    "rn_worker (call m r) = snd (m (rn_worker r))" by (simp_all add: call_def)
  with assms show ?thesis by (auto simp: stuck_def wedged_def)
qed

lemma stuck_step: "session_step P fuel cf r r' \<Longrightarrow> stuck c r \<Longrightarrow> stuck c r'"
proof (induction rule: session_step.induct)
  case (turn r)
  then show ?case by (rule stuck_turn)
next
  case (submit r n args prio lw)
  then have "cmd_id c < w_next_seq (rn_worker r)" by (auto simp: stuck_def run_ok_def ledger_def)
  with submit show ?case
    by (intro stuck_call run_ok_calls)
      (auto simp: stuck_def submit_def io_defs w_now_def Let_def split: prod.split)
next
  case (cancel r n)
  then show ?case
    by (intro stuck_call run_ok_calls) (auto simp: stuck_def cancel_def io_defs)
qed (intro stuck_call run_ok_calls; auto simp: stuck_def lease_def unlease_def snapshot_def stop_def
    io_defs w_now_def split: prod.split)+



text \<open>
  \<open>_drain\<close> reads before it polls: when nothing is on the wire yet, the quarantine is over after one read,
  without a single frame having been written.
\<close>

lemma drain_without_polling:
  assumes "w_now P w = (Inr t, w1)" and "w_now P w1 = (Inr t', w2)" and "t' < t + 1500000"
    and "on_link (read_frames (lift_ops P) fuel 200000) w2 = (Inr [], w3)" and "0 < fuel"
  shows "drain P fuel w = set_state CONNECTED [] w3"
  using assms by (cases fuel) (auto simp: drain_def io_defs)

end
