(* ===== verification/Fake_Secondary.thy ===== *)
theory Fake_Secondary
  imports Link_Scan Link_Exchange Retap
begin

text \<open>
  \<open>tests/fake_secondary.py\<close>: the strict secondary station that the repository tests its link layer
  against, and the serial port it sits on. The model is the device's side of the protocol, so that the
  two sides can be composed.

  The responder gives the frames of its answer; the port writes them with \<open>wire\<close>, which is \<open>build_frame\<close>
  on octets. The clock, which the test takes from the system, belongs to the port here: reading it takes
  a microsecond, and a read that finds nothing waits for the port's timeout.
\<close>

section \<open>The secondary\<close>

record secondary =
  sc_addr :: int
  sc_response :: "bytes option"
  sc_responses :: "(int \<times> bytes) list option"
  sc_rr_before_response :: nat
  sc_indications :: "bytes list"
  sc_duplicate_response :: bool
  sc_reject_with :: "int option"
  sc_swallow_first :: bool
  sc_strict :: bool
  sc_duplicate_indication :: bool
  sc_owed_rr :: nat
  sc_vs :: int
  sc_vr :: int
  sc_connected :: bool
  sc_pending :: "bytes option"
  sc_polls_seen :: int
  sc_rejected_ns :: "int list"
  sc_i_frames_seen :: int

definition retap_response :: "int \<Rightarrow> bytes \<Rightarrow> int \<Rightarrow> bytes" where
  "retap_response code data rc =
     [word_of_int code] @ [word_of_int (1 + int (length data)), word_of_int (drop_bit 8 (1 + int (length data)))]
       @ [word_of_int rc] @ data"

definition lp :: "string \<Rightarrow> bytes" where
  "lp s = word_of_nat (length s) # map of_char s"

definition default_responses :: "(int \<times> bytes) list" where
  "default_responses =
     [(GET_INFORMATION, retap_response GET_INFORMATION
         (lp ''RET21-AS155D'' @ lp ''12345678901230020'' @ lp ''2.00'' @ lp ''2.6.6'') 0),
      (GET_TILT, retap_response GET_TILT [30, 0] 0),
      (SET_TILT, retap_response SET_TILT [] 0),
      (GET_ALARM_STATUS, retap_response GET_ALARM_STATUS [] 0),
      (CLEAR_ACTIVE_ALARMS, retap_response CLEAR_ACTIVE_ALARMS [] 0),
      (ALARM_SUBSCRIBE, retap_response ALARM_SUBSCRIBE [] 0),
      (GET_DEVICE_DATA, retap_response GET_DEVICE_DATA [0x00, 0x64] 0),
      (CALIBRATE, retap_response CALIBRATE [] 0),
      (SELF_TEST, retap_response SELF_TEST [] 0),
      (RESET_SOFTWARE, retap_response RESET_SOFTWARE [] 0)]"

definition new_secondary :: "int \<Rightarrow> (int \<times> bytes) list \<Rightarrow> secondary" where
  "new_secondary addr responses =
     \<lparr>sc_addr = addr, sc_response = None, sc_responses = Some responses, sc_rr_before_response = 0,
      sc_indications = [], sc_duplicate_response = False, sc_reject_with = None, sc_swallow_first = False,
      sc_strict = True, sc_duplicate_indication = False, sc_owed_rr = 0, sc_vs = 0, sc_vr = 0,
      sc_connected = False, sc_pending = None, sc_polls_seen = 0, sc_rejected_ns = [], sc_i_frames_seen = 0\<rparr>"

type_synonym answer = "frame list \<times> secondary"

definition sec_i :: "bytes \<Rightarrow> secondary \<Rightarrow> frame \<times> secondary" where
  "sec_i payload s =
     ((sc_addr s, push_bit 1 (sc_vs s) OR push_bit 5 (sc_vr s) OR PF, payload), s\<lparr>sc_vs := (sc_vs s + 1) AND 7\<rparr>)"

definition sec_rr :: "secondary \<Rightarrow> frame" where
  "sec_rr s = (sc_addr s, 0x01 OR push_bit 5 (sc_vr s) OR PF, [])"

text \<open>A payload sent once, or twice with the same N(S).\<close>

definition sec_send :: "bool \<Rightarrow> bytes \<Rightarrow> secondary \<Rightarrow> answer" where
  "sec_send twice payload s =
     (let (f, s1) = sec_i payload s in
      if twice then (let (g, s2) = sec_i payload (s1\<lparr>sc_vs := (sc_vs s1 - 1) AND 7\<rparr>) in ([f, g], s2))
      else ([f], s1))"

text \<open>\<open>_response_for\<close>\<close>

definition response_for :: "bytes \<Rightarrow> secondary \<Rightarrow> bytes option" where
  "response_for message s =
     (case (sc_responses s, message) of
        (Some responses, code # _) \<Rightarrow>
          (case map_of responses (uint code) of
             Some r \<Rightarrow> Some r
           | None \<Rightarrow> Some (retap_response (uint code) [] 0x19))
      | _ \<Rightarrow> sc_response s)"

text \<open>\<open>_next\<close> and \<open>_deliver\<close>\<close>

definition sec_next :: "secondary \<Rightarrow> answer" where
  "sec_next s =
     (case sc_indications s of
        payload # rest \<Rightarrow> sec_send (sc_duplicate_indication s) payload (s\<lparr>sc_indications := rest\<rparr>)
      | [] \<Rightarrow>
          (case sc_pending s of
             Some payload \<Rightarrow>
               if sc_owed_rr s > 0 then ([sec_rr s], s\<lparr>sc_owed_rr := sc_owed_rr s - 1\<rparr>)
               else sec_send (sc_duplicate_response s) payload (s\<lparr>sc_pending := None\<rparr>)
           | None \<Rightarrow> ([sec_rr s], s)))"

definition sec_unnumbered :: "int \<Rightarrow> secondary \<Rightarrow> answer" where
  "sec_unnumbered u s =
     (if u = CTRL_SNRM
      then ([(sc_addr s, CTRL_UA OR PF, [])], s\<lparr>sc_connected := True, sc_vs := 0, sc_vr := 0, sc_pending := None\<rparr>)
      else if u = CTRL_DISC then ([(sc_addr s, CTRL_UA OR PF, [])], s\<lparr>sc_connected := False\<rparr>)
      else ([], s))"

definition sec_command :: "int \<Rightarrow> bytes \<Rightarrow> secondary \<Rightarrow> answer" where
  "sec_command ns payload s =
     (let s = s\<lparr>sc_i_frames_seen := sc_i_frames_seen s + 1\<rparr> in
      if sc_swallow_first s \<and> sc_i_frames_seen s = 1 then ([], s)
      else case sc_reject_with s of
        Some what \<Rightarrow> ([(sc_addr s, what OR PF, [])], s\<lparr>sc_reject_with := None\<rparr>)
      | None \<Rightarrow>
          if sc_strict s \<and> ns \<noteq> sc_vr s
          then ([sec_rr s], s\<lparr>sc_rejected_ns := sc_rejected_ns s @ [ns]\<rparr>)
          else sec_next (s\<lparr>sc_vr := (ns + 1) AND 7, sc_pending := response_for payload s,
                           sc_owed_rr := sc_rr_before_response s\<rparr>))"

text \<open>\<open>__call__\<close>\<close>

definition sec_call :: "frame \<Rightarrow> secondary \<Rightarrow> answer" where
  "sec_call f s =
     (case f of (addr, ctrl, payload) \<Rightarrow>
        if addr \<noteq> sc_addr s \<and> addr \<noteq> ADDR_BROADCAST then ([], s)
        else case kind ctrl of
          Inl _ \<Rightarrow> ([], s)
        | Inr k \<Rightarrow>
            if k = U_FRAME then sec_unnumbered (ctrl AND NOT PF) s
            else if k = I_FRAME then sec_command (ns_of ctrl) payload s
            else if ctrl AND PF = 0 then ([], s)
            else sec_next (s\<lparr>sc_polls_seen := sc_polls_seen s + 1\<rparr>))"

section \<open>The port\<close>

record fake =
  fk_sec :: secondary
  fk_timeout :: time
  fk_rx :: bytes
  fk_sent :: "frame list"
  fk_raw_sent :: "bytes list"
  fk_open :: bool
  fk_dtr :: bool
  fk_deframer :: deframer
  fk_now :: time

definition new_fake :: "secondary \<Rightarrow> fake" where
  "new_fake s =
     \<lparr>fk_sec = s, fk_timeout = 5000, fk_rx = [], fk_sent = [], fk_raw_sent = [], fk_open = True,
      fk_dtr = False, fk_deframer = new_deframer 512, fk_now = 0\<rparr>"

definition fake_frame :: "fake \<Rightarrow> frame \<Rightarrow> fake" where
  "fake_frame w f =
     (let (replies, s) = sec_call f (fk_sec w) in
      w\<lparr>fk_sent := fk_sent w @ [f], fk_sec := s, fk_rx := fk_rx w @ concat (map wire replies)\<rparr>)"

definition fake_write :: "bytes \<Rightarrow> fake \<Rightarrow> fake" where
  "fake_write data w =
     (let (fs, d) = feed (fk_deframer w) data in
      foldl fake_frame (w\<lparr>fk_raw_sent := fk_raw_sent w @ [data], fk_deframer := d\<rparr>) fs)"

definition fake_read :: "nat \<Rightarrow> fake \<Rightarrow> bytes \<times> fake" where
  "fake_read n w =
     (if fk_rx w = [] then ([], w\<lparr>fk_now := fk_now w + fk_timeout w\<rparr>)
      else (take n (fk_rx w), w\<lparr>fk_rx := drop n (fk_rx w)\<rparr>))"

definition fake_port :: "fake port_ops" where
  "fake_port =
     \<lparr>ser_open = \<lambda>_ w. (Inr (), w), ser_set_dtr = \<lambda>b w. (Inr (), w\<lparr>fk_dtr := b\<rparr>),
      ser_write = \<lambda>data w. (Inr (), fake_write data w), ser_flush = \<lambda>w. (Inr (), w),
      ser_read = \<lambda>n w. (case fake_read n w of (data, w') \<Rightarrow> (Inr data, w')),
      ser_in_waiting = \<lambda>w. (Inr (length (fk_rx w)), w),
      ser_reset_input_buffer = \<lambda>w. (Inr (), w\<lparr>fk_rx := []\<rparr>),
      ser_close = \<lambda>w. (Inr (), w\<lparr>fk_open := False\<rparr>),
      monotonic = \<lambda>w. (fk_now w, w\<lparr>fk_now := fk_now w + 1\<rparr>),
      sleep = \<lambda>t w. w\<lparr>fk_now := fk_now w + max 0 t\<rparr>\<rparr>"

end
