(* ===== verification/Secondary_Link.thy ===== *)
theory Secondary_Link
  imports Fake_Secondary
begin

text \<open>
  The two sides of the protocol composed: \<open>AisgLink\<close> over the port of the strict secondary. First the
  line: what one side writes as frames is what the other side reads as frames. Then connecting, and the
  transfers that follow it.

  Property: after connecting, any sequence of requests is answered, each by the device's response to
  it, and the device takes each command exactly once.
\<close>

section \<open>The line\<close>

definition idle :: "deframer \<Rightarrow> bool" where
  "idle d \<longleftrightarrow> 1 \<le> df_max d \<and> (df_buf d = [] \<or> df_buf d = [FLAG])"

definition octets :: "frame \<Rightarrow> bool" where
  "octets f \<longleftrightarrow> octet (fst f) \<and> octet (fst (snd f))"

lemma idle_new [simp]: "1 \<le> n \<Longrightarrow> idle (new_deframer n)"
  by (simp add: idle_def new_deframer_def)

lemma idle_flag [simp]: "idle d \<Longrightarrow> idle (d\<lparr>df_buf := [FLAG]\<rparr>)"
  by (simp add: idle_def)

lemma feed_idle:
  assumes "idle d" and "\<forall>f \<in> set fs. octets f" and "fs \<noteq> []"
  shows "feed d (concat (map wire fs)) = (fs, d\<lparr>df_buf := [FLAG]\<rparr>)"
proof -
  have "\<forall>(a, c, p) \<in> set fs. octet a \<and> octet c" using assms(2) by (auto simp: octets_def)
  from split_wires [OF this assms(3)] obtain qs where qs:
    "py_split FLAG (concat (map wire fs)) = [] # qs @ [[]]" "good_frames qs = fs" "bad_frames qs = 0" by blast
  have max: "1 \<le> df_max d" using assms(1) by (simp add: idle_def)
  show ?thesis
  proof (cases "df_buf d = []")
    case True
    with qs show ?thesis by (simp add: feed_split [of d _ "[]" qs "[]"] keep_tail_Nil max)
  next
    case False
    then have "df_buf d = [FLAG]" using assms(1) by (simp add: idle_def)
    with qs have "py_split FLAG (df_buf d @ concat (map wire fs)) = [] # ([] # qs) @ [[]]" by simp
    from feed_split [OF this] qs show ?thesis by (simp add: unstuff_def keep_tail_Nil max)
  qed
qed

lemma feed_idle_one: "idle d \<Longrightarrow> octets f \<Longrightarrow> feed d (wire f) = ([f], d\<lparr>df_buf := [FLAG]\<rparr>)"
  using feed_idle [of d "[f]"] by simp

text \<open>
  The secondary's port inside a larger world: \<open>dev\<close> finds it there and \<open>put\<close> puts it back. It is the
  world itself below, and the environment of the worker's shared state later.
\<close>

definition via :: "('w \<Rightarrow> 'd) \<Rightarrow> ('d \<Rightarrow> 'w \<Rightarrow> 'w) \<Rightarrow> ('d \<Rightarrow> 'a \<times> 'd) \<Rightarrow> 'w \<Rightarrow> 'a \<times> 'w" where
  "via dev put m w = (case m (dev w) of (r, d) \<Rightarrow> (r, put d w))"

definition port_in :: "('w \<Rightarrow> 'd) \<Rightarrow> ('d \<Rightarrow> 'w \<Rightarrow> 'w) \<Rightarrow> 'd port_ops \<Rightarrow> 'w port_ops" where
  "port_in dev put P = \<lparr>ser_open = \<lambda>port. via dev put (ser_open P port), ser_set_dtr = \<lambda>b. via dev put (ser_set_dtr P b),
     ser_write = \<lambda>b. via dev put (ser_write P b), ser_flush = via dev put (ser_flush P),
     ser_read = \<lambda>n. via dev put (ser_read P n), ser_in_waiting = via dev put (ser_in_waiting P),
     ser_reset_input_buffer = via dev put (ser_reset_input_buffer P), ser_close = via dev put (ser_close P),
     monotonic = via dev put (monotonic P), sleep = \<lambda>t w. put (sleep P t (dev w)) w\<rparr>"

text \<open>
  What is on the line: the secondary's state, the frames it has sent that are not read yet, both
  deframers between frames, and the clock.
\<close>

definition line :: "('w \<Rightarrow> fake) \<Rightarrow> secondary \<Rightarrow> frame list \<Rightarrow> time \<Rightarrow> 'w link \<Rightarrow> bool" where
  "line dev s fs t l \<longleftrightarrow> (let w = dev (world l) in
     fk_sec w = s \<and> fk_rx w = concat (map wire fs) \<and> (\<forall>f \<in> set fs. octets f) \<and> fk_now w = t
     \<and> idle (lk_deframer l) \<and> idle (fk_deframer w) \<and> 0 \<le> fk_timeout w \<and> lk_timeout l = 1000000)"

text \<open>The same with whatever was left unread, which the next command discards.\<close>

definition at_rest :: "('w \<Rightarrow> fake) \<Rightarrow> secondary \<Rightarrow> 'w link \<Rightarrow> bool" where
  "at_rest dev s l \<longleftrightarrow> (let w = dev (world l) in
     fk_sec w = s \<and> idle (fk_deframer w) \<and> 0 \<le> fk_timeout w \<and> lk_timeout l = 1000000)"

lemma line_at_rest: "line dev s fs t l \<Longrightarrow> at_rest dev s l"
  by (simp add: line_def at_rest_def Let_def)

definition frames_sent :: "('w \<Rightarrow> fake) \<Rightarrow> 'w link \<Rightarrow> frame list" where
  "frames_sent dev l = fk_sent (dev (world l))"

lemma line_update [simp]:
  "line dev s fs t (l\<lparr>peers := ps\<rparr>) = line dev s fs t l" "line dev s fs t (l\<lparr>stats := st\<rparr>) = line dev s fs t l"
  "frames_sent dev (l\<lparr>peers := ps\<rparr>) = frames_sent dev l" "frames_sent dev (l\<lparr>stats := st\<rparr>) = frames_sent dev l"
  by (simp_all add: line_def frames_sent_def)

text \<open>A callback that leaves the line alone; it may read the clock.\<close>

definition calm :: "('w \<Rightarrow> fake) \<Rightarrow> ('w \<Rightarrow> 'w) \<Rightarrow> bool" where
  "calm dev g \<longleftrightarrow> (\<forall>w. \<exists>d. 0 \<le> d \<and> d \<le> 1 \<and> dev (g w) = (dev w)\<lparr>fk_now := fk_now (dev w) + d\<rparr>)"

definition calm_polls :: "('w \<Rightarrow> fake) \<Rightarrow> (int \<Rightarrow> bool \<Rightarrow> 'w \<Rightarrow> 'w) option \<Rightarrow> bool" where
  "calm_polls dev h \<longleftrightarrow> (\<forall>g n k. h = Some g \<longrightarrow> calm dev (g n k))"

locale fake_line =
  fixes P :: "'w port_ops" and dev :: "'w \<Rightarrow> fake" and put :: "fake \<Rightarrow> 'w \<Rightarrow> 'w"
  assumes port: "P = port_in dev put fake_port" and dev_put [simp]: "dev (put d w) = d"
begin

lemma on_fake [simp]:
  "on_port (ser_write P data) l = (Inr (), l\<lparr>world := put (fake_write data (dev (world l))) (world l)\<rparr>)"
  "on_port (ser_flush P) l = (Inr (), l\<lparr>world := put (dev (world l)) (world l)\<rparr>)"
  "on_port (ser_in_waiting P) l = (Inr (length (fk_rx (dev (world l)))), l\<lparr>world := put (dev (world l)) (world l)\<rparr>)"
  "on_port (ser_reset_input_buffer P) l = (Inr (), l\<lparr>world := put ((dev (world l))\<lparr>fk_rx := []\<rparr>) (world l)\<rparr>)"
  "on_port (ser_read P n) l = (case fake_read n (dev (world l)) of (data, d) \<Rightarrow> (Inr data, l\<lparr>world := put d (world l)\<rparr>))"
  "clock P l = (Inr (fk_now (dev (world l))), l\<lparr>world := put ((dev (world l))\<lparr>fk_now := fk_now (dev (world l)) + 1\<rparr>) (world l)\<rparr>)"
  "sleep_for P t l = (Inr (), l\<lparr>world := put ((dev (world l))\<lparr>fk_now := fk_now (dev (world l)) + max 0 t\<rparr>) (world l)\<rparr>)"
  by (simp_all add: port port_in_def via_def fake_port_def on_port_def on_world_def clock_def sleep_for_def
      split: prod.split)

lemma line_write:
  assumes "line dev s fs t l" and "octets f" and "sec_call f s = (rs, s')" and "\<forall>r \<in> set rs. octets r"
  shows "\<exists>l'. link_write P (wire f) l = (Inr (), l') \<and> line dev s' (fs @ rs) t l' \<and> peers l' = peers l
    \<and> frames_sent dev l' = frames_sent dev l @ [f]"
  using assms
  by (auto simp: link_write_def io_defs fake_write_def feed_idle_one fake_frame_def line_def frames_sent_def Let_def)

lemma line_read:
  assumes "line dev s fs t l" and "fs \<noteq> []" and "0 < fuel"
  shows "\<exists>l'. read_frames P fuel budget l = (Inr fs, l') \<and> line dev s [] (t + 2) l' \<and> peers l' = peers l
    \<and> frames_sent dev l' = frames_sent dev l"
proof -
  have w: "wire f \<noteq> []" for f by (cases f) (simp add: wire.simps)
  have "concat (map wire fs) \<noteq> []" using assms(2) w by (cases fs) simp_all
  then have rx: "fk_rx (dev (world l)) = concat (map wire fs)" "concat (map wire fs) \<noteq> []"
    using assms(1) by (simp_all add: line_def Let_def)
  obtain n where n: "fuel = Suc n" using assms(3) by (cases fuel) auto
  have "feed (lk_deframer l) (concat (map wire fs)) = (fs, (lk_deframer l)\<lparr>df_buf := [FLAG]\<rparr>)"
    using feed_idle assms(1,2) by (auto simp: line_def Let_def)
  then show ?thesis
    using rx assms(1,2)
    by (auto simp: n read_frames_def io_defs fake_read_def df_feed_def Let_def line_def frames_sent_def)
qed

lemma line_clock:
  "line dev s fs t l \<Longrightarrow> \<exists>l'. clock P l = (Inr t, l') \<and> line dev s fs (t + 1) l' \<and> peers l' = peers l
    \<and> frames_sent dev l' = frames_sent dev l"
  by (auto simp: line_def frames_sent_def Let_def)

lemma line_sleep:
  "line dev s fs t l \<Longrightarrow> 0 \<le> u \<Longrightarrow> \<exists>l'. sleep_for P u l = (Inr (), l') \<and> line dev s fs (t + u) l' \<and> peers l' = peers l
    \<and> frames_sent dev l' = frames_sent dev l"
  by (auto simp: line_def frames_sent_def Let_def)

lemma line_call_back:
  assumes "line dev s fs t l" and "\<forall>h. g = Some h \<longrightarrow> calm dev h"
  shows "\<exists>l' u. call_back g l = (Inr (), l') \<and> line dev s fs u l' \<and> t \<le> u \<and> u \<le> t + 1 \<and> peers l' = peers l
    \<and> frames_sent dev l' = frames_sent dev l"
proof (cases g)
  case None
  then show ?thesis using assms(1) by (auto simp: call_back_def io_defs intro: exI [of _ t])
next
  case (Some h)
  with assms(2) obtain d where "0 \<le> d" "d \<le> 1"
    "dev (h (world l)) = (dev (world l))\<lparr>fk_now := fk_now (dev (world l)) + d\<rparr>"
    unfolding calm_def by blast
  then show ?thesis
    using assms(1) Some
    by (auto simp: call_back_def on_world_def line_def frames_sent_def Let_def intro!: exI [of _ "t + d"])
qed

end

interpretation alone: fake_line fake_port "\<lambda>w. w" "\<lambda>d _. d"
  by unfold_locales (simp_all add: port_in_def via_def fake_port_def fun_eq_iff split: prod.split)

section \<open>What the secondary answers\<close>

text \<open>A secondary that nothing is wrong with: no report to make, nothing to reject or lose.\<close>

definition ready :: "int \<Rightarrow> secondary \<Rightarrow> bool" where
  "ready a s \<longleftrightarrow> octet a \<and> sc_addr s = a \<and> seq_no (sc_vs s) \<and> seq_no (sc_vr s) \<and> sc_indications s = []
     \<and> sc_reject_with s = None \<and> (sc_swallow_first s \<longrightarrow> 1 \<le> sc_i_frames_seen s)"

lemma readyD:
  assumes "ready a s"
  shows "octet a" "sc_addr s = a" "seq_no (sc_vs s)" "seq_no (sc_vr s)" "sc_indications s = []"
    "sc_reject_with s = None" "sc_swallow_first s \<longrightarrow> 1 \<le> sc_i_frames_seen s"
  using assms by (auto simp: ready_def)

lemma next_seq_back: "seq_no n \<Longrightarrow> (((n + 1) AND 7) - 1) AND 7 = n"
  by (drule seq_no_cases, elim insertE emptyE) (simp_all add: and_7)

lemma next_seq_differs: "seq_no n \<Longrightarrow> (n + 1) AND 7 \<noteq> n"
  by (drule seq_no_cases, elim insertE emptyE) (simp_all add: and_7)

lemma sec_send_eq:
  assumes "seq_no (sc_vs s)"
  shows "sec_send twice p s
    = (replicate (if twice then 2 else 1) (sc_addr s, i_ctrl (sc_vs s) (sc_vr s), p), s\<lparr>sc_vs := (sc_vs s + 1) AND 7\<rparr>)"
proof -
  have "sec_i p (s\<lparr>sc_vs := (((sc_vs s + 1) AND 7) - 1) AND 7\<rparr>) = sec_i p s"
    using next_seq_back [OF assms] by (simp add: sec_i_def)
  then show ?thesis
    by (simp add: sec_send_def sec_i_def i_ctrl_def Let_def numeral_2_eq_2)
qed

lemma sec_rr_eq: "sec_rr s = (sc_addr s, rr_ctrl (sc_vr s) True, [])"
  by (simp add: sec_rr_def rr_ctrl_def)

lemma sec_call_rr:
  "ready a s \<Longrightarrow> seq_no n \<Longrightarrow> sec_call (a, rr_ctrl n poll, []) s
    = (if poll then sec_next (s\<lparr>sc_polls_seen := sc_polls_seen s + 1\<rparr>) else ([], s))"
  by (simp add: sec_call_def readyD)

lemma sec_call_command:
  assumes "ready a s" and "response_for m s = Some p" and "seq_no n"
  shows "sec_call (a, i_ctrl (sc_vr s) n, m) s = sec_next (s\<lparr>sc_i_frames_seen := sc_i_frames_seen s + 1,
    sc_vr := (sc_vr s + 1) AND 7, sc_pending := Some p, sc_owed_rr := sc_rr_before_response s\<rparr>)"
  using assms readyD(7) [OF assms(1)]
  by (auto simp: sec_call_def sec_command_def Let_def readyD(1-6) response_for_def split: option.splits list.splits)

lemma sec_next_octets:
  assumes "ready a s" and "sec_next s = (fs, s')"
  shows "\<forall>f \<in> set fs. octets f" and "ready a s'" and "fs \<noteq> []"
  using assms
  by (auto simp: sec_next_def readyD sec_send_eq sec_rr_eq octets_def split: option.splits if_splits)
    (auto simp: ready_def)

section \<open>What the primary makes of it\<close>

lemma peer_of_upd [simp]: "peer_of (l\<lparr>peers := (peers l)(a \<mapsto> p)\<rparr>) b = (if b = a then p else peer_of l b)"
  by (simp add: peer_of_def)

lemma handle_rr:
  assumes "seq_no (xa_sent_ns c)" and "nr = (xa_sent_ns c + 1) AND 7"
  shows "handle_frames P c [(xa_addr c, rr_ctrl nr True, [])] x l = (Inr (Go (x\<lparr>acked := True\<rparr>)),
    if acked x then l else l\<lparr>peers := (peers l)(xa_addr c \<mapsto> (peer_of l (xa_addr c))\<lparr>vs := nr\<rparr>)\<rparr>)"
  using assms next_seq_differs [OF assms(1)]
  by (simp add: handle_frame_def apply_ack_def upd_peer_def io_defs Let_def)

lemma send_rr_wire: "octet a \<Longrightarrow> seq_no n \<Longrightarrow> send_rr P a n poll = link_write P (wire (a, rr_ctrl n poll, []))"
  by (simp add: send_rr_def rr_frame_def build_frame_octets)

text \<open>Both sides agree on the sequence numbers, and nothing is under way.\<close>

definition in_step :: "('w \<Rightarrow> fake) \<Rightarrow> int \<Rightarrow> secondary \<Rightarrow> 'w link \<Rightarrow> bool" where
  "in_step dev a s l \<longleftrightarrow> ready a s \<and> (\<exists>t. line dev s [] t l) \<and> vs (peer_of l a) = sc_vr s \<and> vr (peer_of l a) = sc_vs s"

text \<open>The secondary once its response has been taken.\<close>

definition served :: "secondary \<Rightarrow> secondary" where
  "served s = s\<lparr>sc_pending := None, sc_owed_rr := 0, sc_vs := (sc_vs s + 1) AND 7,
     sc_polls_seen := sc_polls_seen s + int (sc_owed_rr s)\<rparr>"

lemma ready_updates [simp]:
  "ready a (s\<lparr>sc_pending := q\<rparr>) = ready a s" "ready a (s\<lparr>sc_owed_rr := k\<rparr>) = ready a s"
  "ready a (s\<lparr>sc_polls_seen := n\<rparr>) = ready a s" "ready a s \<Longrightarrow> ready a (s\<lparr>sc_vs := (v + 1) AND 7\<rparr>)"
  by (simp_all add: ready_def)

text \<open>One request: the secondary takes it, and is done with it when the response has been taken.\<close>

definition took :: "bytes \<Rightarrow> secondary \<Rightarrow> secondary" where
  "took p s = s\<lparr>sc_i_frames_seen := sc_i_frames_seen s + 1, sc_vr := (sc_vr s + 1) AND 7,
     sc_pending := Some p, sc_owed_rr := sc_rr_before_response s\<rparr>"

lemma took_simps [simp]:
  "ready a s \<Longrightarrow> 0 \<le> sc_i_frames_seen s \<Longrightarrow> ready a (took p s)" "sc_pending (took p s) = Some p" "sc_vs (took p s) = sc_vs s"
  "sc_vr (took p s) = (sc_vr s + 1) AND 7" "sc_owed_rr (took p s) = sc_rr_before_response s"
  by (auto simp: took_def ready_def)

definition transcript :: "int \<Rightarrow> bytes \<Rightarrow> secondary \<Rightarrow> frame list" where
  "transcript a m s = (a, i_ctrl (sc_vr s) (sc_vs s), m)
     # replicate (sc_rr_before_response s) (a, rr_ctrl (sc_vs s) True, []) @ [(a, rr_ctrl ((sc_vs s + 1) AND 7) False, [])]"

section \<open>A transfer\<close>

context fake_line
begin

lemma handle_response:
  assumes r: "ready a s" and ln: "line dev s [] t l" and c: "xa_addr c = a" "seq_no (xa_sent_ns c)"
    and ns: "vr (peer_of l a) = ns" "seq_no ns" and nr: "nr = (xa_sent_ns c + 1) AND 7"
    and acc: "xa_router c p = ACCEPT" and ack: "acked x \<Longrightarrow> vs (peer_of l a) = nr"
  shows "\<exists>l'. handle_frames P c ((a, i_ctrl ns nr, p) # fs) x l = (Inr (Done p), l')
    \<and> line dev s [] t l' \<and> vs (peer_of l' a) = nr \<and> vr (peer_of l' a) = (ns + 1) AND 7
    \<and> frames_sent dev l' = frames_sent dev l @ [(a, rr_ctrl ((ns + 1) AND 7) False, [])]"
proof -
  let ?a = "if acked x then True else nr_of (i_ctrl ns nr) = nr"
  let ?p = "(peer_of l a)\<lparr>vs := nr, vr := (ns + 1) AND 7\<rparr>"
  define l1 where "l1 = l\<lparr>peers := (peers l)(a \<mapsto> ?p)\<rparr>"
  have oct: "octets (a, rr_ctrl ((ns + 1) AND 7) False, [])" using r by (simp add: octets_def readyD)
  have call: "sec_call (a, rr_ctrl ((ns + 1) AND 7) False, []) s = ([], s)"
    using sec_call_rr [OF r, of "(ns + 1) AND 7" False] by simp
  have "line dev s [] t l1" using ln by (simp add: l1_def)
  from line_write [OF this oct call] obtain l2 where
    w: "link_write P (wire (a, rr_ctrl ((ns + 1) AND 7) False, [])) l1 = (Inr (), l2)"
    and l2: "line dev s [] t l2" "peers l2 = peers l1"
      "frames_sent dev l2 = frames_sent dev l1 @ [(a, rr_ctrl ((ns + 1) AND 7) False, [])]" by auto
  have same: "(peer_of l a)\<lparr>vr := q\<rparr> = (peer_of l a)\<lparr>vs := nr, vr := q\<rparr>" if "acked x" for q
    using ack [OF that] by (cases "peer_of l a") simp
  have "handle_frame P c x (a, i_ctrl ns nr, p) l = (Inr (Done p), l2)"
    using ns nr acc next_seq_differs [OF c(2)] w c(1) readyD(1) [OF r] same
    by (cases "acked x") (auto simp: handle_frame_def handle_i_frame_def apply_ack_def upd_peer_def get_peer_def
        send_rr_wire io_defs Let_def l1_def)
  then show ?thesis
    using l2 by (auto simp: io_defs l1_def peer_of_def)
qed

lemma poll_again_polls:
  assumes ln: "line dev s [] t l" and r: "ready a s"
    and c: "xa_addr c = a" "calm_polls dev (xa_on_poll c)" "0 \<le> xa_poll_interval c"
    and x: "acked x \<or> \<not> missing x \<or> t \<le> retx_at x" "t \<le> deadline x" and v: "seq_no (vr (peer_of l a))"
    and nx: "sec_next (s\<lparr>sc_polls_seen := sc_polls_seen s + 1\<rparr>) = (fs, s')"
  shows "\<exists>l' u. poll_again P c x l = (Inr (x\<lparr>polls := polls x + 1\<rparr>), l')
    \<and> line dev s' fs u l' \<and> t < u \<and> u \<le> t + 2 + xa_poll_interval c \<and> peer_of l' = peer_of l
    \<and> frames_sent dev l' = frames_sent dev l @ [(a, rr_ctrl (vr (peer_of l a)) True, [])]"
proof -
  let ?f = "(a, rr_ctrl (vr (peer_of l a)) True, [])"
  from line_clock [OF ln] obtain l1 where l1: "clock P l = (Inr t, l1)" "line dev s [] (t + 1) l1"
    "peers l1 = peers l" "frames_sent dev l1 = frames_sent dev l" by blast
  define l2 where "l2 = l1\<lparr>stats := (stats l1)\<lparr>st_polls := st_polls (stats l1) + 1\<rparr>\<rparr>"
  have "line dev s [] (t + 1) l2" using l1(2) by (simp add: l2_def)
  have calm: "\<forall>h. map_option (\<lambda>h. h (polls x + 1) (acked x)) (xa_on_poll c) = Some h \<longrightarrow> calm dev h"
    using c(2) by (auto simp: calm_polls_def)
  from line_call_back [OF \<open>line dev s [] (t + 1) l2\<close> calm] obtain l3 u where l3:
    "call_back (map_option (\<lambda>h. h (polls x + 1) (acked x)) (xa_on_poll c)) l2 = (Inr (), l3)" "line dev s [] u l3"
    "t < u" "u \<le> t + 2" "peers l3 = peers l2" "frames_sent dev l3 = frames_sent dev l2" by (elim exE conjE) simp
  from line_sleep [OF l3(2) c(3)] obtain l4 where l4: "sleep_for P (xa_poll_interval c) l3 = (Inr (), l4)"
    "line dev s [] (u + xa_poll_interval c) l4" "peers l4 = peers l3" "frames_sent dev l4 = frames_sent dev l3" by blast
  define l5 where "l5 = l4\<lparr>peers := (peers l4)(a \<mapsto> peer_of l a)\<rparr>"
  have pe: "peer_of l4 = peer_of l" using l1(3) l3(5) l4(3) by (simp add: peer_of_def l2_def fun_eq_iff)
  have l5: "line dev s [] (u + xa_poll_interval c) l5" "peer_of l5 = peer_of l" "frames_sent dev l5 = frames_sent dev l"
    using l4 l3(6) l1(4) pe by (auto simp: l5_def l2_def fun_eq_iff)
  have oct: "octets ?f" using r v by (simp add: octets_def readyD(1-6))
  have call: "sec_call ?f s = (fs, s')" using sec_call_rr [OF r v, of True] nx by simp
  have octs: "\<forall>f \<in> set fs. octets f" using sec_next_octets(1) [OF _ nx] r by (simp add: ready_def)
  from line_write [OF l5(1) oct call octs] obtain l6 where l6: "link_write P (wire ?f) l5 = (Inr (), l6)"
    "line dev s' fs (u + xa_poll_interval c) l6" "peers l6 = peers l5" "frames_sent dev l6 = frames_sent dev l @ [?f]"
    using l5(3) by auto
  have send: "send_rr P a (vr (peer_of l a)) True = link_write P (wire ?f)"
    using r v by (intro send_rr_wire) (simp_all add: readyD(1))
  have "poll_again P c x l = (Inr (x\<lparr>polls := polls x + 1\<rparr>), l6)"
    using x(2) c(1) l1(1) l3(1) l4(1) l6(1) pe
    by (simp add: poll_again_def upd_stats_def get_peer_def io_defs Let_def send l2_def [symmetric] l5_def [symmetric]
        del: on_fake) (use x(1) in auto)
  moreover have "peer_of l6 = peer_of l" using l6(3) l5(2) by (simp add: peer_of_def fun_eq_iff)
  ultimately show ?thesis using l6 l3(3,4) c(3) by auto
qed

lemma transfer_loop:
  assumes c: "xa_addr c = a" "calm_polls dev (xa_on_poll c)" "0 \<le> xa_poll_interval c"
    "seq_no (xa_sent_ns c)" "xa_router c p = ACCEPT" and fuel: "0 < fuel"
  shows "ready a s \<Longrightarrow> sc_pending s = Some p \<Longrightarrow> sc_vr s = (xa_sent_ns c + 1) AND 7 \<Longrightarrow> sec_next s = (fs, s')
    \<Longrightarrow> line dev s' fs t l \<Longrightarrow> vr (peer_of l a) = sc_vs s \<Longrightarrow> (acked x \<Longrightarrow> vs (peer_of l a) = sc_vr s)
    \<Longrightarrow> sc_owed_rr s < n \<Longrightarrow> t + int (sc_owed_rr s) * (xa_poll_interval c + 4) + 2 \<le> deadline x
    \<Longrightarrow> \<exists>l'. exchange_loop P fuel c n x l = (Inr p, l') \<and> in_step dev a (served s) l'
      \<and> frames_sent dev l' = frames_sent dev l @ replicate (sc_owed_rr s) (a, rr_ctrl (sc_vs s) True, [])
          @ [(a, rr_ctrl ((sc_vs s + 1) AND 7) False, [])]"
proof (induction "sc_owed_rr s" arbitrary: s fs s' t l x n)
  case 0
  then obtain m where m: "n = Suc m" by (cases n) auto
  note r = readyD(1-6) [OF 0(2)]
  have fs: "\<exists>gs. fs = (a, i_ctrl (sc_vs s) (sc_vr s), p) # gs" and s': "s' = served s"
    using 0(1,3,5) r by (auto simp: sec_next_def sec_send_eq served_def numeral_2_eq_2 split: if_splits)
  from fs line_read [OF 0(6) _ fuel] obtain gs l1 where l1:
    "fs = (a, i_ctrl (sc_vs s) (sc_vr s), p) # gs"
    "read_frames P fuel (xa_poll_interval c) l = (Inr fs, l1)"
    "line dev s' [] (t + 2) l1" "peers l1 = peers l" "frames_sent dev l1 = frames_sent dev l" by blast
  have pe: "peer_of l1 a = peer_of l a" using l1(4) by (simp add: peer_of_def)
  have "ready a s'" using 0(2) by (simp add: s' served_def)
  from handle_response [OF this l1(3) c(1,4), of "sc_vs s" "sc_vr s" p x gs] obtain l2 where
    "handle_frames P c fs x l1 = (Inr (Done p), l2)" "line dev s' [] (t + 2) l2"
    "vs (peer_of l2 a) = sc_vr s" "vr (peer_of l2 a) = (sc_vs s + 1) AND 7"
    "frames_sent dev l2 = frames_sent dev l1 @ [(a, rr_ctrl ((sc_vs s + 1) AND 7) False, [])]"
    using 0(4,7,8) c(5) r pe l1(1) by auto
  with l1 \<open>ready a s'\<close> show ?case
    by (auto simp: m io_defs in_step_def s' served_def 0(1) [symmetric])
next
  case (Suc k)
  then obtain m where m: "n = Suc m" by (cases n) auto
  note r = readyD(1-6) [OF Suc(3)]
  let ?s = "s\<lparr>sc_owed_rr := k\<rparr>" and ?x = "x\<lparr>acked := True\<rparr>"
  let ?s1 = "?s\<lparr>sc_polls_seen := sc_polls_seen s + 1\<rparr>"
  have fs: "fs = [(a, rr_ctrl (sc_vr s) True, [])]" and s': "s' = ?s"
    using Suc(2,4,6) r by (auto simp: sec_next_def sec_rr_eq simp flip: Suc(2))
  from line_read [OF Suc(7) _ fuel, of "xa_poll_interval c"] fs obtain l1 where l1:
    "read_frames P fuel (xa_poll_interval c) l = (Inr fs, l1)" "line dev ?s [] (t + 2) l1"
    "peers l1 = peers l" "frames_sent dev l1 = frames_sent dev l" by (auto simp: s')
  define l2 where "l2 = (if acked x then l1
    else l1\<lparr>peers := (peers l1)(a \<mapsto> (peer_of l1 a)\<lparr>vs := sc_vr s\<rparr>)\<rparr>)"
  have h: "handle_frames P c fs x l1 = (Inr (Go ?x), l2)"
    using handle_rr [OF c(4) Suc(5), of P x l1] c(1) by (simp add: fs l2_def)
  have l2: "line dev ?s [] (t + 2) l2" "vr (peer_of l2 a) = sc_vs s" "vs (peer_of l2 a) = sc_vr s"
    "frames_sent dev l2 = frames_sent dev l"
    using l1 Suc(8,9) by (auto simp: l2_def peer_of_def)
  obtain fs2 s2 where nx: "sec_next ?s1 = (fs2, s2)" by (metis prod.exhaust)
  have rdy: "ready a ?s" "ready a ?s1" using Suc(3) by simp_all
  have t: "t + 2 + (int k * (xa_poll_interval c + 4) + (2 + xa_poll_interval c) + 2) \<le> deadline x"
    using Suc(11) by (simp add: Suc(2) [symmetric] algebra_simps)
  have nn: "0 \<le> int k * (xa_poll_interval c + 4)" using c(3) by simp
  from poll_again_polls [OF l2(1) rdy(1) c(1-3), of ?x fs2 s2] nx l2(2) r(3) t nn c(3) obtain l3 u where l3:
    "poll_again P c ?x l2 = (Inr (?x\<lparr>polls := polls x + 1\<rparr>), l3)"
    "line dev s2 fs2 u l3" "u \<le> t + 4 + xa_poll_interval c" "peer_of l3 = peer_of l2"
    "frames_sent dev l3 = frames_sent dev l2 @ [(a, rr_ctrl (sc_vs s) True, [])]" by auto
  have "exchange_loop P fuel c n x l = exchange_loop P fuel c m (?x\<lparr>polls := polls x + 1\<rparr>) l3"
    using l1(1) h l3(1) by (simp add: m io_defs)
  moreover have "served ?s1 = served s" by (simp add: served_def Suc(2) [symmetric])
  moreover have "u + int k * (xa_poll_interval c + 4) + 2 \<le> deadline x" using t l3(3) by simp
  ultimately show ?case
    using Suc(1) [of ?s1 fs2 s2 u l3 "?x\<lparr>polls := polls x + 1\<rparr>" m] rdy nx l3 l2 m
      Suc(2,4,5,10) by (simp add: Suc(2) [symmetric])
qed

lemma exchange_served:
  assumes st: "in_step dev a s l" and rsp: "response_for m s = Some p" and seen: "0 \<le> sc_i_frames_seen s"
    and opts: "opt_router opts p = ACCEPT" "calm_polls dev (opt_on_poll opts)"
      "0 \<le> opt_poll_interval opts"
    and fuel: "sc_rr_before_response s < fuel"
    and budget: "int (sc_rr_before_response s) * (opt_poll_interval opts + 4) + 3 \<le> opt_timeout opts"
  shows "\<exists>l'. exchange P fuel a m opts l = (Inr p, l') \<and> in_step dev a (served (took p s)) l'
    \<and> frames_sent dev l' = frames_sent dev l @ transcript a m s"
proof -
  from st obtain t where rdy: "ready a s" and ln: "line dev s [] t l"
    and pe: "vs (peer_of l a) = sc_vr s" "vr (peer_of l a) = sc_vs s" by (auto simp: in_step_def)
  note r = readyD(1-6) [OF rdy]
  define l0 where "l0 = l\<lparr>peers := (peers l)(a \<mapsto> peer_of l a)\<rparr>"
  let ?f = "(a, i_ctrl (sc_vr s) (sc_vs s), m)"
  obtain fs s' where nx: "sec_next (took p s) = (fs, s')" by (metis prod.exhaust)
  have rdy': "ready a (took p s)" using rdy seen by simp
  have call: "sec_call ?f s = (fs, s')"
    using sec_call_command [OF rdy rsp r(3)] nx by (simp add: took_def)
  have oct: "octets ?f" using r by (simp add: octets_def)
  have "line dev s [] t l0" using ln by (simp add: l0_def)
  from line_write [OF this oct call sec_next_octets(1) [OF rdy' nx]] obtain l1 where l1:
    "link_write P (wire ?f) l0 = (Inr (), l1)" "line dev s' fs t l1" "peers l1 = peers l0"
    "frames_sent dev l1 = frames_sent dev l @ [?f]" by (auto simp: l0_def)
  from line_clock [OF l1(2)] obtain l2 where l2: "clock P l1 = (Inr t, l2)" "line dev s' fs (t + 1) l2"
    "peers l2 = peers l0" "frames_sent dev l2 = frames_sent dev l @ [?f]" using l1(3,4) by auto
  let ?c = "exchange_args a (sc_vr s) (wire ?f) opts"
  let ?x = "exchange_start t (opt_timeout opts)"
  have p2: "peer_of l2 a = peer_of l a" using l2(3) by (simp add: peer_of_def l0_def)
  have "exchange P fuel a m opts l = exchange_loop P fuel ?c fuel ?x l2"
    using l1(1) l2(1) pe r by (simp add: exchange_def get_peer_def io_defs build_frame_octets l0_def [symmetric] del: on_fake)
  moreover have "\<exists>l'. exchange_loop P fuel ?c fuel ?x l2 = (Inr p, l') \<and> in_step dev a (served (took p s)) l'
      \<and> frames_sent dev l' = frames_sent dev l2 @ replicate (sc_owed_rr (took p s)) (a, rr_ctrl (sc_vs (took p s)) True, [])
          @ [(a, rr_ctrl ((sc_vs (took p s) + 1) AND 7) False, [])]"
    by (rule transfer_loop [OF _ _ _ _ _ _ rdy' _ _ nx l2(2)])
      (use opts r fuel budget pe p2 in \<open>simp_all add: exchange_args_def exchange_start_def\<close>)
  ultimately show ?thesis using l2(4) by (simp add: transcript_def)
qed

end

section \<open>Connecting\<close>

lemma list_parse_wire: "octets f \<Longrightarrow> list_parse_frames (wire f) = Inr [f]"
proof -
  assume o: "octets f"
  obtain a c p where f: "f = (a, c, p)" by (cases f)
  have sp: "py_split FLAG (wire f) = [[], stuff (wire_body a c p), []]"
    using py_split_append_sep [of FLAG "[]" "stuff (wire_body a c p) @ [FLAG]"]
      py_split_sep_notin [of FLAG "stuff (wire_body a c p)" "[]"] flag_notin_stuff
    by (simp add: f wire.simps)
  have "parse_chunks [stuff (wire_body a c p)] = ([(a, c, p)], None)"
    using parse_chunks_built [of "[(a, c, p)]"] o by (simp add: f octets_def)
  moreover have "stuff (wire_body a c p) \<noteq> []" by (intro hdlc_stuffing.enc_nonempty) simp
  ultimately have "parse_chunks [[], stuff (wire_body a c p), []] = ([(a, c, p)], None)"
    unfolding parse_chunks_filter [of "[[], stuff (wire_body a c p), []]"] by (simp del: parse_chunks.simps)
  then show ?thesis by (simp only: list_parse_frames_def parse_frames_def sp) (simp add: f)
qed

lemma wire_flags: "length (filter (\<lambda>b. b = FLAG) (wire f)) = 2"
proof -
  obtain a c p where f: "f = (a, c, p)" by (cases f)
  have "filter (\<lambda>b. b = FLAG) (stuff (wire_body a c p)) = []"
    using flag_notin_stuff by (metis (full_types) filter_False)
  then show ?thesis by (simp add: f wire.simps)
qed

definition reset_by_snrm :: "secondary \<Rightarrow> secondary" where
  "reset_by_snrm s = s\<lparr>sc_connected := True, sc_vs := 0, sc_vr := 0, sc_pending := None\<rparr>"

lemma sec_call_snrm:
  "ready a s \<Longrightarrow> sec_call (a, CTRL_SNRM OR PF, []) s = ([(a, CTRL_UA OR PF, [])], reset_by_snrm s)"
  by (simp add: sec_call_def kind_def ctrl_consts PF_def readyD(1-6) sec_unnumbered_def reset_by_snrm_def)

lemma length_stuff: "length (stuff d) \<le> 2 * length d"
  by (induction d) auto

lemma length_wire: "length (wire (a, c, [])) \<le> 256"
  using length_stuff [of "wire_body a c []"] by (simp add: wire.simps length_wire_body)

text \<open>The budget of a command.\<close>

definition budget_of :: "time option \<Rightarrow> time" where
  "budget_of timeout = (case timeout of None \<Rightarrow> 1000000 | Some t \<Rightarrow> if t = 0 then 1000000 else t)"

context fake_line
begin

lemma xfer_start:
  assumes "at_rest dev s l" and "octets f" and "sec_call f s = (rs, s')" and "\<forall>r \<in> set rs. octets r"
  shows "\<exists>l' t. xfer P fuel (wire f) timeout l = xfer_loop P fuel (t + budget_of timeout) [] l'
    \<and> line dev s' rs (t + 1) l' \<and> peers l' = peers l \<and> frames_sent dev l' = frames_sent dev l @ [f]"
proof -
  define l1 where "l1 = l\<lparr>lk_deframer := new_deframer 512, world := put ((dev (world l))\<lparr>fk_rx := []\<rparr>) (world l)\<rparr>"
  have l1: "line dev s [] (fk_now (dev (world l))) l1" "peers l1 = peers l" "frames_sent dev l1 = frames_sent dev l"
    using assms(1) by (simp_all add: l1_def line_def at_rest_def frames_sent_def Let_def)
  from line_write [OF l1(1) assms(2-4)] obtain l2 where l2: "link_write P (wire f) l1 = (Inr (), l2)"
    "line dev s' rs (fk_now (dev (world l))) l2" "peers l2 = peers l" "frames_sent dev l2 = frames_sent dev l @ [f]"
    using l1(2,3) by auto
  from line_clock [OF l2(2)] obtain l3 where l3: "clock P l2 = (Inr (fk_now (dev (world l))), l3)"
    "line dev s' rs (fk_now (dev (world l)) + 1) l3" "peers l3 = peers l" "frames_sent dev l3 = frames_sent dev l @ [f]"
    using l2(3,4) by auto
  have "on_port (ser_reset_input_buffer P) (l\<lparr>lk_deframer := new_deframer 512\<rparr>) = (Inr (), l1)"
    by (simp add: l1_def)
  then have "xfer P fuel (wire f) timeout l
      = io_seq (link_write P (wire f)) (io_bind (clock P) (\<lambda>now l.
          let t = (case timeout of None \<Rightarrow> lk_timeout l | Some t \<Rightarrow> if t = 0 then lk_timeout l else t)
          in xfer_loop P fuel (now + t) [] l)) l1"
    by (simp add: xfer_def link_write_def io_defs del: on_fake split: prod.split sum.split)
  also have "\<dots> = xfer_loop P fuel (fk_now (dev (world l)) + budget_of timeout) [] l3"
    using l2(1) l3(1,2) by (simp add: io_defs line_def budget_of_def Let_def del: on_fake split: option.split)
  finally show ?thesis using l3 by blast
qed

lemma xfer_loop_one:
  assumes ln: "line dev s [(a, u, [])] t l" and t: "t < end_at" and n: "0 < n"
  shows "\<exists>l' t'. xfer_loop P n end_at [] l = (Inr (wire (a, u, [])), l') \<and> line dev s [] t' l'
    \<and> peers l' = peers l \<and> frames_sent dev l' = frames_sent dev l"
proof -
  obtain m where m: "n = Suc m" using n by (cases n) auto
  have rx: "fk_rx (dev (world l)) = wire (a, u, [])" "wire (a, u, []) \<noteq> []"
    using ln by (simp_all add: line_def Let_def wire.simps)
  have all: "take 256 (wire (a, u, [])) = wire (a, u, [])" "drop 256 (wire (a, u, [])) = []"
    using length_wire [of a u] by simp_all
  have two: "\<not> length (filter (\<lambda>b. b = FLAG) (wire (a, u, []))) < 2" by (simp only: wire_flags)
  have "fk_now (dev (world l)) = t" using ln by (simp add: line_def Let_def)
  then show ?thesis
    using rx all two t ln
    by (auto simp: m io_defs fake_read_def line_def frames_sent_def Let_def)
qed

lemma xfer_loop_silent:
  "line dev s [] t l \<Longrightarrow> end_at - t < int n \<Longrightarrow> 0 < n
    \<Longrightarrow> \<exists>l' t'. xfer_loop P n end_at [] l = (Inr [], l') \<and> line dev s [] t' l'
      \<and> peers l' = peers l \<and> frames_sent dev l' = frames_sent dev l"
proof (induction n arbitrary: l t)
  case (Suc n)
  from line_clock [OF Suc.prems(1)] obtain l1 where l1: "clock P l = (Inr t, l1)" "line dev s [] (t + 1) l1"
    "peers l1 = peers l" "frames_sent dev l1 = frames_sent dev l" by blast
  show ?case
  proof (cases "t < end_at")
    case True
    define l2 where "l2 = l1\<lparr>world := put ((dev (world l1))\<lparr>fk_now := t + 1 + fk_timeout (dev (world l1))\<rparr>) (world l1)\<rparr>"
    have l2: "on_port (ser_read P 256) l1 = (Inr [], l2)" "peers l2 = peers l1" "frames_sent dev l2 = frames_sent dev l1"
      "line dev s [] (t + 1 + fk_timeout (dev (world l1))) l2"
      using l1(2) by (simp_all add: l2_def fake_read_def line_def frames_sent_def Let_def)
    have "0 \<le> fk_timeout (dev (world l1))" using l1(2) by (simp add: line_def Let_def)
    then have "end_at - (t + 1 + fk_timeout (dev (world l1))) < int n" "0 < n" using Suc.prems(2) True by auto
    from Suc.IH [OF l2(4) this] l1 l2(1-3) True show ?thesis by (simp add: io_defs del: on_fake)
  next
    case False
    with l1 show ?thesis by (auto simp: io_defs simp del: on_fake)
  qed
qed simp

lemma command_answered:
  assumes "at_rest dev s l" and "octet a" "octet c" "octet u" and "sec_call (a, c, pl) s = ([(a, u, [])], s')"
    and "0 < fuel" and "1 < budget_of timeout"
  shows "\<exists>l' t'. link_command P fuel a c pl timeout l = (Inr [(a, u, [])], l') \<and> line dev s' [] t' l'
    \<and> peers l' = peers l \<and> frames_sent dev l' = frames_sent dev l @ [(a, c, pl)]"
proof -
  have o: "octets (a, c, pl)" "octets (a, u, [])" using assms by (simp_all add: octets_def)
  from xfer_start [OF assms(1) o(1) assms(5), of fuel timeout] o(2) obtain l1 t where l1:
    "xfer P fuel (wire (a, c, pl)) timeout l = xfer_loop P fuel (t + budget_of timeout) [] l1"
    "line dev s' [(a, u, [])] (t + 1) l1" "peers l1 = peers l" "frames_sent dev l1 = frames_sent dev l @ [(a, c, pl)]"
    by auto
  have "t + 1 < t + budget_of timeout" using assms(7) by simp
  from xfer_loop_one [OF l1(2) this assms(6)] obtain l2 t' where l2:
    "xfer_loop P fuel (t + budget_of timeout) [] l1 = (Inr (wire (a, u, [])), l2)" "line dev s' [] t' l2"
    "peers l2 = peers l1" "frames_sent dev l2 = frames_sent dev l1" by blast
  have "link_command P fuel a c pl timeout l = (Inr [(a, u, [])], l2)"
    using l1(1) l2(1) o(2) assms(2,3) by (simp add: link_command_def io_defs build_frame_octets list_parse_wire)
  then show ?thesis using l1 l2 by auto
qed

lemma command_unanswered:
  assumes "at_rest dev s l" and "octet a" "octet c" and "sec_call (a, c, pl) s = ([], s')"
    and "budget_of timeout \<le> int fuel" and "0 < fuel"
  shows "\<exists>l' t'. link_command P fuel a c pl timeout l = (Inr [], l') \<and> line dev s' [] t' l'
    \<and> peers l' = peers l \<and> frames_sent dev l' = frames_sent dev l @ [(a, c, pl)]"
proof -
  have o: "octets (a, c, pl)" using assms by (simp add: octets_def)
  from xfer_start [OF assms(1) o assms(4), of fuel timeout] obtain l1 t where l1:
    "xfer P fuel (wire (a, c, pl)) timeout l = xfer_loop P fuel (t + budget_of timeout) [] l1"
    "line dev s' [] (t + 1) l1" "peers l1 = peers l" "frames_sent dev l1 = frames_sent dev l @ [(a, c, pl)]"
    by auto
  have "t + budget_of timeout - (t + 1) < int fuel" using assms(5) by simp
  from xfer_loop_silent [OF l1(2) this assms(6)] obtain l2 t' where l2:
    "xfer_loop P fuel (t + budget_of timeout) [] l1 = (Inr [], l2)" "line dev s' [] t' l2"
    "peers l2 = peers l1" "frames_sent dev l2 = frames_sent dev l1" by blast
  have "list_parse_frames [] = Inr []" by (simp add: list_parse_frames_def parse_frames_def)
  then have "link_command P fuel a c pl timeout l = (Inr [], l2)"
    using l1(1) l2(1) assms(2,3) by (simp add: link_command_def io_defs build_frame_octets)
  then show ?thesis using l1 l2 by auto
qed

lemma connect_in_step:
  assumes "at_rest dev s l" and "ready a s" and "0 < fuel"
  shows "\<exists>l'. connect_link P fuel a l = (Inr (), l') \<and> in_step dev a (reset_by_snrm s) l'
    \<and> frames_sent dev l' = frames_sent dev l @ [(a, CTRL_SNRM OR PF, [])]"
proof -
  note r = readyD(1-6) [OF assms(2)]
  have o: "octet (CTRL_SNRM OR PF)" "octet (CTRL_UA OR PF)" by (simp_all add: octet_def ctrl_consts PF_def)
  from command_answered [OF assms(1) r(1) o sec_call_snrm [OF assms(2)] assms(3), of None] obtain l1 t where l1:
    "link_command P fuel a (CTRL_SNRM OR PF) [] None l = (Inr [(a, CTRL_UA OR PF, [])], l1)"
    "line dev (reset_by_snrm s) [] t l1" "frames_sent dev l1 = frames_sent dev l @ [(a, CTRL_SNRM OR PF, [])]"
    by (auto simp: budget_of_def)
  have ua: "(CTRL_UA OR PF) AND NOT PF = CTRL_UA" by (simp add: ctrl_consts PF_def)
  let ?l = "l1\<lparr>peers := (peers l1)(a \<mapsto> (peer_reset (peer_of l1 a))\<lparr>connected := True\<rparr>)\<rparr>"
  have "connect_link P fuel a l = (Inr (), ?l)"
    using l1(1) by (simp add: connect_link_def io_defs ua upd_peer_def)
  moreover have "in_step dev a (reset_by_snrm s) ?l"
    using l1(2) assms(2) by (auto simp: in_step_def peer_reset_def reset_by_snrm_def ready_def)
  ultimately show ?thesis using l1(3) by auto
qed

end

end
