(* ===== verification/Client_Agreement.thy ===== *)
theory Client_Agreement
  imports Session_Commands
begin

text \<open>
  The same client over two transports: when the transports agree on every request, through a relation
  of their states, so do the procedures of \<open>Ret\<close> and the commands of the session, in what they return
  and in what they raise.
\<close>

section \<open>Agreement of two operations\<close>

definition io_sim :: "('s \<Rightarrow> 't \<Rightarrow> bool) \<Rightarrow> ('s, 'a) io \<Rightarrow> ('t, 'a) io \<Rightarrow> bool" where
  "io_sim R m k \<longleftrightarrow> (\<forall>s t. R s t \<longrightarrow> fst (m s) = fst (k t) \<and> R (snd (m s)) (snd (k t)))"

named_theorems sim_intros

lemma io_simI:
  "(\<And>s t. R s t \<Longrightarrow> \<exists>r s' t'. m s = (r, s') \<and> k t = (r, t') \<and> R s' t') \<Longrightarrow> io_sim R m k"
  unfolding io_sim_def by (metis fst_conv snd_conv)

lemma io_simD: "io_sim R m k \<Longrightarrow> R s t \<Longrightarrow> \<exists>r s' t'. m s = (r, s') \<and> k t = (r, t') \<and> R s' t'"
  unfolding io_sim_def by (metis prod.collapse)

lemma io_sim_return [sim_intros]: "io_sim R (io_return a) (io_return a)"
  and io_sim_raise [sim_intros]: "io_sim R (io_raise e) (io_raise e)"
  and io_sim_res [sim_intros]: "io_sim R (io_res r) (io_res r)"
  by (simp_all add: io_sim_def io_defs)

lemma io_sim_bind [sim_intros]:
  assumes "io_sim R m k" and "\<And>a. io_sim R (f a) (g a)"
  shows "io_sim R (io_bind m f) (io_bind k g)"
proof (rule io_simI)
  fix s t
  assume "R s t"
  with assms(1) obtain r s' t' where mk: "m s = (r, s')" "k t = (r, t')" "R s' t'" by (blast dest: io_simD)
  show "\<exists>r s' t'. io_bind m f s = (r, s') \<and> io_bind k g t = (r, t') \<and> R s' t'"
  proof (cases r)
    case (Inl e)
    with mk show ?thesis by (simp add: io_bind_def)
  next
    case (Inr a)
    with mk io_simD [OF assms(2), of s' t' a] show ?thesis by (auto simp: io_bind_def)
  qed
qed

lemma io_sim_seq [sim_intros]: "io_sim R m k \<Longrightarrow> io_sim R f g \<Longrightarrow> io_sim R (io_seq m f) (io_seq k g)"
  unfolding io_seq_def by (rule io_sim_bind)

lemma io_sim_if [sim_intros]:
  "io_sim R m k \<Longrightarrow> io_sim R f g \<Longrightarrow> io_sim R (if b then m else f) (if b then k else g)"
  by simp

text \<open>Handlers that match the same exceptions and agree on them.\<close>

lemma io_sim_catch:
  assumes "io_sim R m k" and "\<And>e. rel_option (io_sim R) (h e) (h' e)"
  shows "io_sim R (io_catch m h) (io_catch k h')"
proof (rule io_simI)
  fix s t
  assume "R s t"
  with assms(1) obtain r s' t' where mk: "m s = (r, s')" "k t = (r, t')" "R s' t'" by (blast dest: io_simD)
  show "\<exists>r s' t'. io_catch m h s = (r, s') \<and> io_catch k h' t = (r, t') \<and> R s' t'"
  proof (cases r)
    case (Inl e)
    with mk assms(2) [of e] show ?thesis
      by (cases "h e"; cases "h' e") (auto simp: io_catch_def dest: io_simD)
  next
    case (Inr a)
    with mk show ?thesis by (simp add: io_catch_def)
  qed
qed

section \<open>The procedures and the commands\<close>

locale transports_agree =
  fixes req1 :: "'s transport_ops" and req2 :: "'t transport_ops" and R :: "'s \<Rightarrow> 't \<Rightarrow> bool" and a :: int
  assumes req_agree: "m \<noteq> [] \<Longrightarrow> uint (hd m) \<notin> set INDICATION_CODES \<Longrightarrow> proc_timeout \<le> t
    \<Longrightarrow> io_sim R (req1 a m t) (req2 a m t)"
begin

lemma agree_proc:
  assumes "r_addr r = a" and "c \<notin> set INDICATION_CODES" and "proc_timeout \<le> t"
  shows "io_sim R (proc req1 r c d t) (proc req2 r c d t)"
proof (cases "proc_message (r_antenna r) c d")
  case (Inl e)
  then show ?thesis unfolding proc_def by (simp add: sim_intros)
next
  case (Inr msg)
  then have "msg \<noteq> [] \<and> uint (hd msg) = c"
    by (auto simp: proc_message_def py_bytes_def pack_H_def uint_word_of_int_byte split: if_splits option.splits)
  then have "io_sim R (req1 (r_addr r) msg t) (req2 (r_addr r) msg t)"
    unfolding assms(1) using assms(2,3) by (intro req_agree) simp_all
  then show ?thesis
    unfolding proc_def using Inr by (simp add: sim_intros)
qed

lemma request_codes [simp]:
  "GET_INFORMATION \<notin> set INDICATION_CODES" "ALARM_SUBSCRIBE \<notin> set INDICATION_CODES"
  "SELF_TEST \<notin> set INDICATION_CODES" "RESET_SOFTWARE \<notin> set INDICATION_CODES"
  "code_for r ANT_GET_ALARM_STATUS GET_ALARM_STATUS \<notin> set INDICATION_CODES"
  "code_for r ANT_CLEAR_ACTIVE_ALARMS CLEAR_ACTIVE_ALARMS \<notin> set INDICATION_CODES"
  "code_for r ANT_CALIBRATE CALIBRATE \<notin> set INDICATION_CODES"
  "code_for r ANT_SET_TILT SET_TILT \<notin> set INDICATION_CODES" "code_for r ANT_GET_TILT GET_TILT \<notin> set INDICATION_CODES"
  "code_for r ANT_GET_DEVICE_DATA GET_DEVICE_DATA \<notin> set INDICATION_CODES"
  "code_for r ANT_SEND_CONFIG_DATA SEND_CONFIG_DATA \<notin> set INDICATION_CODES"
  by (simp_all add: code_for_def procedure_codes INDICATION_CODES_def)

lemma agree_procedures:
  assumes "r_addr r = a"
  shows "io_sim R (get_information req1 r) (get_information req2 r)"
    and "io_sim R (get_alarm_status req1 r) (get_alarm_status req2 r)"
    and "io_sim R (clear_alarms req1 r) (clear_alarms req2 r)"
    and "io_sim R (alarm_subscribe req1 r) (alarm_subscribe req2 r)"
    and "io_sim R (self_test req1 r) (self_test req2 r)"
    and "io_sim R (reset_software req1 r) (reset_software req2 r)"
    and "io_sim R (calibrate req1 r) (calibrate req2 r)"
    and "io_sim R (set_tilt req1 r x) (set_tilt req2 r x)"
    and "io_sim R (get_tilt req1 r) (get_tilt req2 r)"
    and "io_sim R (get_device_data req1 r f) (get_device_data req2 r f)"
    and "io_sim R (send_config_data req1 r b) (send_config_data req2 r b)"
  unfolding get_information_def get_alarm_status_def clear_alarms_def alarm_subscribe_def self_test_def
    reset_software_def calibrate_def set_tilt_def get_tilt_def get_device_data_def send_config_data_def
  by (auto intro!: sim_intros agree_proc assms) (simp_all add: proc_timeout_def)

lemma agree_sweep: "r_addr r = a \<Longrightarrow> io_sim R (sweep_loop req1 r n f) (sweep_loop req2 r n f)"
  by (induction n arbitrary: f) (auto intro!: sim_intros io_sim_catch agree_procedures(10))

lemma agree_set_tilt_command:
  "r_addr r = a \<Longrightarrow> io_sim R (set_tilt_command req1 r x) (set_tilt_command req2 r x)"
  unfolding set_tilt_command_def by (intro sim_intros agree_procedures)

lemma agree_no_args: "io_sim R m k \<Longrightarrow> io_sim R (no_args args m) (no_args args k)"
  by (simp add: no_args_def sim_intros)

lemma agree_command: "r_addr r = a \<Longrightarrow> io_sim R (call_command req1 r name args) (call_command req2 r name args)"
  unfolding call_command_def sweep_device_data_def
  by (intro io_sim_if agree_no_args)
    (simp_all add: sim_intros agree_procedures agree_sweep agree_set_tilt_command split: option.split pyval.split)

end

end
