(* ===== verification/Secondary_Calls.thy ===== *)
theory Secondary_Calls
  imports Secondary_Link Client_Agreement
begin

text \<open>
  The client over the link over the secondary, against the client over an ideal device, which answers
  each message by its table and keeps the list of those it has taken.

  Property: a session of any command with the secondary returns what it returns with the ideal device,
  and puts exactly the ideal device's messages on the line, each once and in order.
\<close>

section \<open>The ideal device\<close>

definition answer :: "(int \<times> bytes) list \<Rightarrow> bytes \<Rightarrow> bytes" where
  "answer rs m =
     (case map_of rs (uint (hd m)) of Some r \<Rightarrow> r | None \<Rightarrow> retap_response (uint (hd m)) [] 0x19)"

definition ideal_device :: "(bytes \<Rightarrow> bytes) \<Rightarrow> bytes list transport_ops" where
  "ideal_device ans addr m t taken = (Inr (ans m), taken @ [m])"

text \<open>Every entry of the table answers under its own code.\<close>

definition speaks :: "(int \<times> bytes) list \<Rightarrow> bool" where
  "speaks rs \<longleftrightarrow> (\<forall>(code, r) \<in> set rs. r \<noteq> [] \<and> uint (hd r) = code)"

lemma answer_code: "speaks rs \<Longrightarrow> answer rs m \<noteq> [] \<and> uint (hd (answer rs m)) = uint (hd m)"
  by (auto simp: answer_def speaks_def retap_response_def dest!: map_of_SomeD split: option.split)

text \<open>
  A secondary that answers by the table \<open>rs\<close>, of one address, and is not slower than the shortest
  budget of a procedure allows: it may say that it is still working up to 59 times.
\<close>

definition serves :: "(int \<times> bytes) list \<Rightarrow> secondary \<Rightarrow> bool" where
  "serves rs s \<longleftrightarrow> sc_responses s = Some rs \<and> speaks rs \<and> 0 \<le> sc_i_frames_seen s \<and> sc_rr_before_response s < 60"

text \<open>The messages of the I-frames among a list of frames.\<close>

definition is_command :: "frame \<Rightarrow> bool" where
  "is_command f \<longleftrightarrow> kind (fst (snd f)) = Inr I_FRAME"

definition commands_in :: "frame list \<Rightarrow> bytes list" where
  "commands_in fs = map (\<lambda>f. snd (snd f)) (filter is_command fs)"

lemma commands_in_append [simp]: "commands_in (xs @ ys) = commands_in xs @ commands_in ys"
  by (simp add: commands_in_def)

lemma commands_transcript: "seq_no (sc_vs s) \<Longrightarrow> seq_no (sc_vr s) \<Longrightarrow> commands_in (transcript a m s) = [m]"
  by (simp add: commands_in_def transcript_def is_command_def)

text \<open>
  The link keeps up with the ideal device: it is in step with a secondary that serves the table, and
  since some moment, when the line had carried \<open>fs\<close> and the secondary had taken \<open>n\<close> commands and refused
  those with the numbers \<open>ns\<close>, it has sent exactly the messages the ideal device has taken.
\<close>

definition keeps_up :: "('w \<Rightarrow> fake) \<Rightarrow> int \<Rightarrow> (int \<times> bytes) list \<Rightarrow> bytes list \<Rightarrow> int \<Rightarrow> int list \<Rightarrow> 'w link \<Rightarrow> bytes list \<Rightarrow> bool" where
  "keeps_up dev a rs ms n ns l taken \<longleftrightarrow> (\<exists>s. in_step dev a s l \<and> serves rs s
     \<and> commands_in (frames_sent dev l) = ms @ taken
     \<and> sc_i_frames_seen s = n + int (length taken) \<and> sc_rejected_ns s = ns)"

lemma serves_simps [simp]:
  "serves rs s \<Longrightarrow> serves rs (took p s)" "serves rs (served s) = serves rs s" "serves rs (reset_by_snrm s) = serves rs s"
  "sc_i_frames_seen (served s) = sc_i_frames_seen s" "sc_i_frames_seen (took p s) = sc_i_frames_seen s + 1"
  "sc_rejected_ns (served s) = sc_rejected_ns s" "sc_rejected_ns (took p s) = sc_rejected_ns s"
  "sc_i_frames_seen (reset_by_snrm s) = sc_i_frames_seen s" "sc_rejected_ns (reset_by_snrm s) = sc_rejected_ns s"
  by (simp_all add: serves_def took_def served_def reset_by_snrm_def)

lemma serves_response: "serves rs s \<Longrightarrow> m \<noteq> [] \<Longrightarrow> response_for m s = Some (answer rs m)"
  by (cases m) (simp_all add: serves_def response_for_def answer_def split: option.split)

lemma request_opts [simp]:
  "opt_timeout (transport_opts m t h g) = t" "opt_poll_interval (transport_opts m t h g) = 50000"
  "opt_on_poll (transport_opts m t h g) = g"
  by (simp_all add: transport_opts_def xdefaults_def)

lemma router_accepts:
  "speaks rs \<Longrightarrow> m \<noteq> [] \<Longrightarrow> uint (hd m) \<notin> set INDICATION_CODES
    \<Longrightarrow> opt_router (transport_opts m t h g) (answer rs m) = ACCEPT"
  using answer_code [of rs m]
  by (cases m; cases "answer rs m") (simp_all add: transport_opts_def xdefaults_def retap_router_def)

section \<open>Agreement\<close>

context fake_line
begin

lemma request_keeps_up:
  assumes "calm_polls dev g" and "60 \<le> fuel" and "m \<noteq> []" and "uint (hd m) \<notin> set INDICATION_CODES"
    and "proc_timeout \<le> t"
  shows "io_sim (keeps_up dev a rs ms n ns) (transport_request P fuel h g a m t) (ideal_device (answer rs) a m t)"
proof (rule io_simI)
  fix l taken
  assume "keeps_up dev a rs ms n ns l taken"
  then obtain s where s: "in_step dev a s l" "serves rs s" "commands_in (frames_sent dev l) = ms @ taken"
    "sc_i_frames_seen s = n + int (length taken)" "sc_rejected_ns s = ns" by (auto simp: keeps_up_def)
  have sv: "speaks rs" "0 \<le> sc_i_frames_seen s" "sc_rr_before_response s < 60"
    using s(2) by (simp_all add: serves_def)
  from exchange_served [OF s(1) serves_response [OF s(2) assms(3)] sv(2), of "transport_opts m t h g" fuel]
    router_accepts [OF sv(1) assms(3,4)] assms(1,2,5) sv(3)
  obtain l' where l': "exchange P fuel a m (transport_opts m t h g) l = (Inr (answer rs m), l')"
    "in_step dev a (served (took (answer rs m) s)) l'"
    "frames_sent dev l' = frames_sent dev l @ transcript a m s"
    by (auto simp: proc_timeout_def)
  have "commands_in (transcript a m s) = [m]"
    using s(1) by (intro commands_transcript) (simp_all add: in_step_def ready_def)
  with l' s have "keeps_up dev a rs ms n ns l' (taken @ [m])" by (auto simp: keeps_up_def)
  with l'(1) show "\<exists>r s' t'. transport_request P fuel h g a m t l = (r, s')
      \<and> ideal_device (answer rs) a m t taken = (r, t') \<and> keeps_up dev a rs ms n ns s' t'"
    by (simp add: transport_request_def ideal_device_def)
qed

end

interpretation link_agrees:
  transports_agree "transport_request fake_port (fuel + 60) None None" "ideal_device (answer rs)"
    "keeps_up (\<lambda>w. w) a rs ms n ns" a for fuel rs a ms n ns
  by unfold_locales (simp add: alone.request_keeps_up calm_polls_def)

text \<open>
  C3: the protocol's two sides composed, refining an ideal device. From a link to the strict secondary
  that is not in the middle of a frame, whatever their sequence numbers and what is still unread,
  connecting and then any command of the session return what the command returns with the ideal device
  (its result or its exception), and the secondary has taken exactly the ideal device's messages, each
  once, in order, and refused none.
\<close>

theorem secondary_serves:
  assumes "at_rest (\<lambda>w. w) s l" and "ready a s" and "serves rs s" and "60 \<le> fuel"
    and "call_command (ideal_device (answer rs)) \<lparr>r_addr = a, r_antenna = None\<rparr> name args [] = (x, taken)"
  shows "\<exists>l'. io_seq (connect_link fake_port fuel a)
        (call_command (transport_request fake_port fuel None None) \<lparr>r_addr = a, r_antenna = None\<rparr> name args) l = (x, l')
      \<and> commands_in (fk_sent (world l')) = commands_in (fk_sent (world l)) @ taken
      \<and> sc_i_frames_seen (fk_sec (world l')) = sc_i_frames_seen s + int (length taken)
      \<and> sc_rejected_ns (fk_sec (world l')) = sc_rejected_ns s"
proof -
  from alone.connect_in_step [OF assms(1,2), of fuel] assms(4) obtain l1 where l1:
    "connect_link fake_port fuel a l = (Inr (), l1)" "in_step (\<lambda>w. w) a (reset_by_snrm s) l1"
    "frames_sent (\<lambda>w. w) l1 = frames_sent (\<lambda>w. w) l @ [(a, CTRL_SNRM OR PF, [])]" by auto
  let ?ms = "commands_in (fk_sent (world l))"
  have "commands_in [(a, CTRL_SNRM OR PF, [])] = []"
    by (simp add: commands_in_def is_command_def kind_def ctrl_consts PF_def)
  with l1 assms(3) have ku: "keeps_up (\<lambda>w. w) a rs ?ms (sc_i_frames_seen s) (sc_rejected_ns s) l1 []"
    by (auto simp: keeps_up_def frames_sent_def)
  obtain k where k: "fuel = k + 60" using assms(4) by (metis le_add_diff_inverse2)
  have "r_addr \<lparr>r_addr = a, r_antenna = None\<rparr> = a" by simp
  from io_simD [OF link_agrees.agree_command [OF this] ku, of k name args] assms(5) obtain l2 where
    "call_command (transport_request fake_port fuel None None) \<lparr>r_addr = a, r_antenna = None\<rparr> name args l1 = (x, l2)"
    "keeps_up (\<lambda>w. w) a rs ?ms (sc_i_frames_seen s) (sc_rejected_ns s) l2 taken" by (auto simp: k)
  with l1(1) show ?thesis
    by (auto simp: io_defs keeps_up_def frames_sent_def in_step_def line_def Let_def)
qed

theorem secondary_serves_witness:
  "\<exists>l'. io_seq (connect_link fake_port 60 1)
      (call_command (transport_request fake_port 60 None None) \<lparr>r_addr = 1, r_antenna = None\<rparr> ''set_tilt''
        [(''degrees'', PyFloat 3)]) (new_link 1000000 (new_fake (new_secondary 1 default_responses))) = (Inr (RTilt 3), l')
    \<and> commands_in (fk_sent (world l')) = [[0x33, 2, 0, 30, 0], [0x34, 0, 0]]"
proof -
  have c: "call_command (ideal_device (answer default_responses)) \<lparr>r_addr = 1, r_antenna = None\<rparr> ''set_tilt''
      [(''degrees'', PyFloat 3)] [] = (Inr (RTilt 3), [[0x33, 2, 0, 30, 0], [0x34, 0, 0]])"
    by code_simp
  have s: "at_rest (\<lambda>w. w) (new_secondary 1 default_responses)
      (new_link 1000000 (new_fake (new_secondary 1 default_responses)))"
    by (simp add: at_rest_def new_link_def new_fake_def)
  have r: "ready 1 (new_secondary 1 default_responses)" by (simp add: ready_def new_secondary_def octet_def)
  have "speaks default_responses"
    by (simp add: speaks_def default_responses_def retap_response_def procedure_codes)
  then have "serves default_responses (new_secondary 1 default_responses)" by (simp add: serves_def new_secondary_def)
  from secondary_serves [OF s r this _ c, of 60] show ?thesis
    by (auto simp: new_link_def new_fake_def commands_in_def)
qed

end
