(* ===== verification/Secondary_Session.thy ===== *)
theory Secondary_Session
  imports Secondary_Calls Session_Invariant
begin

text \<open>
  The whole of it: the worker over the link over the strict secondary. A fresh worker that is given a
  command opens the port, finds the device among the addresses it probes, connects, goes through its
  entry actions and executes the command.

  Property: the command's future holds what the command returns with the ideal device.
\<close>

section \<open>Finding the device and connecting\<close>

text \<open>The commands that the line has carried so far are \<open>ms\<close>.\<close>

definition findable :: "('w \<Rightarrow> fake) \<Rightarrow> int \<Rightarrow> (int \<times> bytes) list \<Rightarrow> bytes list \<Rightarrow> 'w link \<Rightarrow> bool" where
  "findable dev a rs ms l \<longleftrightarrow>
     (\<exists>s. at_rest dev s l \<and> ready a s \<and> serves rs s) \<and> commands_in (frames_sent dev l) = ms"

definition in_session :: "('w \<Rightarrow> fake) \<Rightarrow> int \<Rightarrow> (int \<times> bytes) list \<Rightarrow> bytes list \<Rightarrow> 'w link \<Rightarrow> bool" where
  "in_session dev a rs ms l \<longleftrightarrow> (\<exists>s. in_step dev a s l \<and> serves rs s) \<and> commands_in (frames_sent dev l) = ms"

abbreviation no_error :: "exn \<Rightarrow> 's \<Rightarrow> bool" where
  "no_error e s \<equiv> False"

lemma in_session_findable: "in_session dev a rs ms l \<Longrightarrow> findable dev a rs ms l"
  by (auto simp: in_session_def findable_def in_step_def intro: line_at_rest)

lemma findable_peers [simp]: "findable dev a rs ms (l\<lparr>peers := ps\<rparr>) = findable dev a rs ms l"
  by (simp add: findable_def at_rest_def Let_def)

lemma io_postI:
  "(\<And>s. I s \<Longrightarrow> \<exists>x s'. m s = (Inr x, s') \<and> Q x s') \<Longrightarrow> io_post I m Q no_error"
  unfolding io_post_def by force

lemma io_postE:
  assumes "io_post I m Q no_error" and "I s"
  obtains x s' where "m s = (Inr x, s')" "Q x s'"
proof -
  obtain r s' where "m s = (r, s')" by (cases "m s")
  with io_postD_Inl [OF assms] io_postD_Inr [OF assms] that show thesis by (cases r) auto
qed

lemma io_post_False [simp]: "io_post (\<lambda>_. False) m Q E"
  by (simp add: io_post_def)

lemma io_post_catch: "io_post I m Q no_error \<Longrightarrow> io_post I (io_catch m h) Q no_error"
  unfolding io_catch_try by (erule io_post_try) (auto intro: io_post_return)

lemma snrm_octets [simp]: "octet (CTRL_SNRM OR PF)" "octet (CTRL_DISC OR PF)" "octet (CTRL_XID OR PF)" "octet (CTRL_UA OR PF)"
  by (simp_all add: octet_def ctrl_consts PF_def)

text \<open>What opens, closes and looks for links is none of the session's commands.\<close>

definition link_control :: "int \<Rightarrow> bool" where
  "link_control c \<longleftrightarrow> c = CTRL_SNRM OR PF \<or> c = CTRL_DISC OR PF \<or> c = CTRL_XID OR PF"

lemma link_controls [simp]: "link_control (CTRL_SNRM OR PF)" "link_control (CTRL_DISC OR PF)" "link_control (CTRL_XID OR PF)"
  by (simp_all add: link_control_def)

lemma link_control_octet: "link_control c \<Longrightarrow> octet c"
  by (auto simp: link_control_def)

lemma no_command: "link_control c \<Longrightarrow> commands_in [(b, c, pl)] = []"
  by (auto simp: link_control_def commands_in_def is_command_def kind_def ctrl_consts PF_def)

lemma findableI:
  "at_rest dev s l \<Longrightarrow> ready a s \<Longrightarrow> serves rs s \<Longrightarrow> commands_in (frames_sent dev l) = ms \<Longrightarrow> findable dev a rs ms l"
  by (auto simp: findable_def)

lemma findableE:
  assumes "findable dev a rs ms l"
  obtains s where "at_rest dev s l" "ready a s" "serves rs s" "commands_in (frames_sent dev l) = ms"
  using assms by (auto simp: findable_def)

lemma ua_answer [simp]: "(CTRL_UA OR PF) AND NOT PF = CTRL_UA"
  by (simp add: ctrl_consts PF_def)

lemma sec_call_disc: "ready a s \<Longrightarrow> sec_call (a, CTRL_DISC OR PF, []) s = ([(a, CTRL_UA OR PF, [])], s\<lparr>sc_connected := False\<rparr>)"
  by (simp add: sec_call_def kind_def ctrl_consts PF_def readyD(1-6) sec_unnumbered_def)

lemma sec_call_other: "ready a s \<Longrightarrow> b \<noteq> a \<Longrightarrow> b \<noteq> ADDR_BROADCAST \<Longrightarrow> sec_call (b, c, pl) s = ([], s)"
  by (simp add: sec_call_def readyD(1-6))

lemma sec_call_xid: "ready a s \<Longrightarrow> sec_call (ADDR_BROADCAST, CTRL_XID OR PF, pl) s = ([], s)"
  by (simp add: sec_call_def kind_def ctrl_consts PF_def readyD(1-6) sec_unnumbered_def)

lemma disconnected_simps [simp]:
  "ready a (s\<lparr>sc_connected := x\<rparr>) = ready a s" "serves rs (s\<lparr>sc_connected := x\<rparr>) = serves rs s"
  by (simp_all add: ready_def serves_def)

context fake_line
begin

lemma findable_command:
  assumes "octet b" and "link_control c" and "budget_of t \<le> int fuel" and "0 < fuel"
    and "\<And>s. ready a s \<Longrightarrow> sec_call (b, c, pl) s = ([], s)"
  shows "io_post (findable dev a rs ms) (link_command P fuel b c pl t) (\<lambda>fs l. fs = [] \<and> findable dev a rs ms l) no_error"
proof (rule io_postI)
  fix l assume "findable dev a rs ms l"
  then obtain s where s: "at_rest dev s l" "ready a s" "serves rs s" "commands_in (frames_sent dev l) = ms" by (rule findableE)
  from command_unanswered [OF s(1) assms(1) link_control_octet [OF assms(2)] assms(5) [OF s(2)] assms(3,4)] obtain l' t' where
    l': "link_command P fuel b c pl t l = (Inr [], l')" "line dev s [] t' l'" "frames_sent dev l' = frames_sent dev l @ [(b, c, pl)]"
    by blast
  have "findable dev a rs ms l'"
    using l'(3) s(4) no_command [OF assms(2)] by (intro findableI [OF line_at_rest [OF l'(2)] s(2,3)]) simp
  with l'(1) show "\<exists>x l'. link_command P fuel b c pl t l = (Inr x, l') \<and> x = [] \<and> findable dev a rs ms l'" by blast
qed

lemma findable_silent:
  assumes "octet b" and "b \<noteq> ADDR_BROADCAST" and "b \<noteq> a" and "link_control c" and "budget_of t \<le> int fuel" and "0 < fuel"
    and "findable dev a rs ms l"
  obtains l' where "link_command P fuel b c pl t l = (Inr [], l')" "findable dev a rs ms l'"
proof -
  have "sec_call (b, c, pl) s = ([], s)" if "ready a s" for s by (rule sec_call_other [OF that assms(3,2)])
  from io_postE [OF findable_command [OF assms(1,4-6) this] assms(7)] that show thesis by blast
qed

lemma findable_disconnect:
  assumes "octet b" and "b \<noteq> ADDR_BROADCAST" and "budget_of t \<le> int fuel" and "1 < budget_of t"
  shows "io_post (findable dev a rs ms) (disconnect_link P fuel b t) (\<lambda>_. findable dev a rs ms) no_error"
proof (rule io_postI)
  fix l assume r: "findable dev a rs ms l"
  have fuel: "0 < fuel" using assms(3,4) by linarith
  obtain fs l1 where l1: "link_command P fuel b (CTRL_DISC OR PF) [] t l = (Inr fs, l1)" "findable dev a rs ms l1"
  proof (cases "b = a")
    case True
    from r obtain s where s: "at_rest dev s l" "ready a s" "serves rs s" "commands_in (frames_sent dev l) = ms" by (rule findableE)
    from command_answered [OF s(1) readyD(1) [OF s(2)] snrm_octets(2,4) sec_call_disc [OF s(2)] fuel assms(4)]
    obtain l1 u where "link_command P fuel a (CTRL_DISC OR PF) [] t l = (Inr [(a, CTRL_UA OR PF, [])], l1)"
      "line dev (s\<lparr>sc_connected := False\<rparr>) [] u l1" "frames_sent dev l1 = frames_sent dev l @ [(a, CTRL_DISC OR PF, [])]" by blast
    moreover have "findable dev a rs ms l1"
      using s(2-4) calculation(3) no_command by (intro findableI [OF line_at_rest [OF calculation(2)]]) simp_all
    ultimately show ?thesis using that True by blast
  next
    case False
    from findable_silent [OF assms(1,2) False link_controls(2) assms(3) fuel r] that show ?thesis by blast
  qed
  let ?l = "l1\<lparr>peers := (peers l1)(b \<mapsto> (peer_reset (peer_of l1 b))\<lparr>connected := False\<rparr>)\<rparr>"
  have "disconnect_link P fuel b t l = (Inr (), ?l)" using l1(1) by (simp add: disconnect_link_def io_defs upd_peer_def)
  with l1(2) show "\<exists>x l'. disconnect_link P fuel b t l = (Inr x, l') \<and> findable dev a rs ms l'" by simp
qed

lemma findable_connect:
  "0 < fuel \<Longrightarrow> io_post (findable dev a rs ms) (connect_link P fuel a) (\<lambda>_. in_session dev a rs ms) no_error"
proof (rule io_postI)
  fix l assume "0 < fuel" and "findable dev a rs ms l"
  from this(2) obtain s where s: "at_rest dev s l" "ready a s" "serves rs s" "commands_in (frames_sent dev l) = ms"
    by (rule findableE)
  from connect_in_step [OF s(1,2) \<open>0 < fuel\<close>] obtain l' where "connect_link P fuel a l = (Inr (), l')"
    "in_step dev a (reset_by_snrm s) l'" "frames_sent dev l' = frames_sent dev l @ [(a, CTRL_SNRM OR PF, [])]" by blast
  with s(3,4) show "\<exists>x l'. connect_link P fuel a l = (Inr x, l') \<and> in_session dev a rs ms l'"
    by (auto simp: in_session_def no_command intro!: exI [of _ "reset_by_snrm s"])
qed

lemma findable_probe:
  assumes "octet b" and "b \<noteq> ADDR_BROADCAST" and "1000000 \<le> fuel"
  shows "io_post (findable dev a rs ms) (probe_address P fuel b False) (\<lambda>found l. found = (b = a) \<and> findable dev a rs ms l) no_error"
proof (rule io_postI)
  fix l assume r: "findable dev a rs ms l"
  show "\<exists>x l'. probe_address P fuel b False l = (Inr x, l') \<and> x = (b = a) \<and> findable dev a rs ms l'"
  proof (cases "b = a")
    case True
    have "0 < fuel" using assms(3) by simp
    from io_postE [OF findable_connect [OF this] r] obtain x l1
      where "connect_link P fuel a l = (Inr x, l1)" "in_session dev a rs ms l1" by blast
    with True in_session_findable show ?thesis by (auto simp: probe_address_def)
  next
    case False
    have "budget_of None \<le> int fuel" "0 < fuel" using assms(3) by (simp_all add: budget_of_def)
    from findable_silent [OF assms(1,2) False link_controls(1) this r] obtain l1 where
      "link_command P fuel b (CTRL_SNRM OR PF) [] None l = (Inr [], l1)" "findable dev a rs ms l1" by blast
    with False show ?thesis by (intro exI [of _ False] exI [of _ l1]) (simp add: probe_address_def connect_link_def io_defs)
  qed
qed

lemma findable_scan_assigned:
  assumes "1000000 \<le> fuel"
  shows "0 \<le> first \<Longrightarrow> first + int count \<le> 255 \<Longrightarrow>
    io_post (findable dev a rs ms) (scan_assigned count P fuel first)
      (\<lambda>ds l. map address ds = (if first \<le> a \<and> a < first + int count then [Some a] else []) \<and> findable dev a rs ms l) no_error"
proof (induction count arbitrary: first)
  case 0
  show ?case by (simp add: io_post_return)
next
  case (Suc n)
  have first: "octet first" "first \<noteq> ADDR_BROADCAST" using Suc.prems by (simp_all add: octet_def ADDR_BROADCAST_def)
  have rest: "0 \<le> first + 1" "first + 1 + int n \<le> 255" using Suc.prems by simp_all
  show ?case
    unfolding scan_assigned.simps
    by (rule io_post_bind [OF findable_probe [OF first assms]], rule io_post_pure,
        rule io_post_bind [OF Suc.IH [OF rest]], rule io_post_pure, rule io_post_return)
      (auto split: if_splits)
qed

lemma findable_scan:
  assumes "1000000 \<le> fuel"
  shows "io_post (findable dev a rs ms) (scan P fuel) (\<lambda>ds l. ds = [] \<and> findable dev a rs ms l) no_error"
proof (rule io_postI)
  fix l assume r: "findable dev a rs ms l"
  obtain pl where pl: "xid_encode [(PI_UNIQUE_ID, []), (PI_BITMASK, [])] = Inr pl"
    by (simp add: xid_encode_def py_bytes_def PI_UNIQUE_ID_def PI_BITMASK_def XID_FI_def XID_GI_def)
  have "octet ADDR_BROADCAST" by (simp add: octet_def ADDR_BROADCAST_def)
  have "budget_of None \<le> int fuel" "0 < fuel" using assms by (simp_all add: budget_of_def)
  moreover have "sec_call (ADDR_BROADCAST, CTRL_XID OR PF, pl) s = ([], s)" if "ready a s" for s
    using that by (rule sec_call_xid)
  ultimately have "io_post (findable dev a rs ms) (link_command P fuel ADDR_BROADCAST (CTRL_XID OR PF) pl None)
      (\<lambda>fs l. fs = [] \<and> findable dev a rs ms l) no_error"
    using \<open>octet ADDR_BROADCAST\<close> by (intro findable_command) simp_all
  from io_postE [OF this r]
  obtain l1 where "link_command P fuel ADDR_BROADCAST (CTRL_XID OR PF) pl None l = (Inr [], l1)" "findable dev a rs ms l1"
    by blast
  then show "\<exists>x l'. scan P fuel l = (Inr x, l') \<and> x = [] \<and> findable dev a rs ms l'"
    using pl by (simp add: scan_def scan_with_def scan_once_def max_depth_default_def eval_nat_numeral io_defs
        record_devices_def)
qed

end


section \<open>The worker's link\<close>

lemma lift_ops_port: "lift_ops P = port_in sh_env (\<lambda>v sh. sh\<lparr>sh_env := v\<rparr>) P"
  by (simp add: lift_ops_def port_in_def in_sh_def via_def fun_eq_iff split: prod.split)

interpretation shared_line: fake_line "lift_ops fake_port" sh_env "\<lambda>v sh. sh\<lparr>sh_env := v\<rparr>"
  by unfold_locales (simp_all add: lift_ops_port)

definition serving :: "(fake shared link \<Rightarrow> bool) \<Rightarrow> link_state \<Rightarrow> int option \<Rightarrow> book \<Rightarrow> fake worker \<Rightarrow> bool" where
  "serving R st a b w \<longleftrightarrow> (\<exists>l. w_link w = Some l \<and> R (l\<lparr>world := w_shared w\<rparr>)) \<and> w_state w = st
     \<and> w_address w = a \<and> book_of w = b"

text \<open>
  What is said of the link must withstand what the worker does beside it: emitting events, queueing
  indications and reading the clock.
\<close>

locale beside_link =
  fixes R :: "fake shared link \<Rightarrow> bool"
  assumes R_events: "R (l\<lparr>world := sh\<rparr>) \<Longrightarrow> R (l\<lparr>world := sh\<lparr>sh_events := es\<rparr>\<rparr>)"
    and R_indications: "R (l\<lparr>world := sh\<rparr>) \<Longrightarrow> R (l\<lparr>world := sh\<lparr>sh_indications := ps\<rparr>\<rparr>)"
    and R_clock: "R (l\<lparr>world := sh\<rparr>) \<Longrightarrow> R (l\<lparr>world := sh\<lparr>sh_env := (sh_env sh)\<lparr>fk_now := t\<rparr>\<rparr>\<rparr>)"
begin

lemma field [safe_intros]:
  "io_safe (serving R st a b) E (io_modify (\<lambda>w. w\<lparr>w_identity := x2\<rparr>))"
  "io_safe (serving R st a b) E (io_modify (\<lambda>w. w\<lparr>w_device_data := x3\<rparr>))"
  "io_safe (serving R st a b) E (io_modify (\<lambda>w. w\<lparr>w_tilt := x4\<rparr>))"
  "io_safe (serving R st a b) E (io_modify (\<lambda>w. w\<lparr>w_target_tilt := x4\<rparr>))"
  "io_safe (serving R st a b) E (io_modify (\<lambda>w. w\<lparr>w_alarm_mode := x5\<rparr>))"
  "io_safe (serving R st a b) E (io_modify (\<lambda>w. w\<lparr>w_alarms := x7\<rparr>))"
  "io_safe (serving R st a b) E (io_modify (\<lambda>w. w\<lparr>w_subscribe_unsupported := x6\<rparr>))"
  "io_safe (serving R st a b) E (io_modify (\<lambda>w. w\<lparr>w_last_command_at := n\<rparr>))"
  "io_safe (serving R st a b) E (io_modify (\<lambda>w. w\<lparr>w_backoff := n\<rparr>))"
  "io_safe (serving R st a b) E (io_modify (\<lambda>w. w\<lparr>w_heartbeat := n\<rparr>))"
  "io_safe (serving R st a b) E (io_modify (\<lambda>w. w\<lparr>w_last_error := m\<rparr>))"
  "io_safe (serving R st a b) E (io_modify (\<lambda>w. w\<lparr>w_shared := (w_shared w)\<lparr>sh_indications := ps\<rparr>\<rparr>))"
  by (rule io_safe_modify, auto simp: serving_def R_indications)+

lemma now [safe_intros]: "io_safe (serving R st a b) E (w_now fake_port)"
  by (rule io_safe_post)
    (auto simp: io_post_def w_now_def lift_ops_def in_sh_def fake_port_def serving_def R_clock)

lemma emits [safe_intros]: "io_safe (serving R st a b) E (emit ev)"
  by (rule io_safe_post) (auto simp: io_post_def emit_def serving_def R_events)

lemma emits_all [safe_intros]: "io_safe (serving R st a b) E (emit_all evs)"
  by (induction evs) (auto intro: safe_intros)

lemma alarms [safe_intros]:
  "io_safe (serving R st a b) E (alarms_snapshot names e)" "io_safe (serving R st a b) E (alarms_indicate pl)"
  unfolding alarms_snapshot_def alarms_indicate_def track_alarms_def
  by (auto intro!: safe_intros split: prod.split)

lemma absorbs [safe_intros]: "io_safe (serving R st a b) E (absorb fake_port cf r)"
  unfolding absorb_def snapshot_def by (cases r) (auto intro!: safe_intros)

lemma drains_list: "io_safe (serving R st a b) E (drain_list ps)"
  by (induction ps) (auto intro!: safe_intros)

lemma drains [safe_intros]: "io_safe (serving R st a b) E drain_indications"
  unfolding drain_indications_def by (intro io_safe_bind_get drains_list)

lemma sets_state: "io_post (serving R st a b) (set_state st' err) (\<lambda>_. serving R st' a b) E"
  by (auto simp: io_post_def set_state_def emit_def serving_def R_events)

lemma sets_address: "io_post (serving R st a b) (io_modify (\<lambda>w. w\<lparr>w_address := a'\<rparr>)) (\<lambda>_. serving R st a' b) E"
  by (rule io_post_modify) (simp add: serving_def)

lemma enters: "io_post (serving R st a b) (io_modify (\<lambda>w. w\<lparr>w_address := a', w_want_link := False\<rparr>)) (\<lambda>_. serving R st a' b) E"
  by (rule io_post_modify) (simp add: serving_def book_of_def)

end

lemma serving_on_link:
  assumes "io_post R m Q no_error"
  shows "io_post (serving R st a b) (on_link m) (\<lambda>x. serving (Q x) st a b) no_error"
proof (rule io_postI)
  fix w assume "serving R st a b w"
  then obtain l where l: "w_link w = Some l" "R (l\<lparr>world := w_shared w\<rparr>)" "w_state w = st" "w_address w = a" "book_of w = b"
    by (auto simp: serving_def)
  from io_postE [OF assms l(2)] obtain x l' where "m (l\<lparr>world := w_shared w\<rparr>) = (Inr x, l')" "Q x l'" by blast
  with l show "\<exists>x w'. on_link m w = (Inr x, w') \<and> serving (Q x) st a b w'"
    by (simp add: on_link_def serving_def)
qed

lemma beside_at_rest: "at_rest sh_env s (l\<lparr>world := sh\<rparr>) \<Longrightarrow> at_rest sh_env s (l\<lparr>world := sh\<lparr>sh_events := es\<rparr>\<rparr>)"
  "at_rest sh_env s (l\<lparr>world := sh\<rparr>) \<Longrightarrow> at_rest sh_env s (l\<lparr>world := sh\<lparr>sh_indications := ps\<rparr>\<rparr>)"
  "at_rest sh_env s (l\<lparr>world := sh\<rparr>) \<Longrightarrow> at_rest sh_env s (l\<lparr>world := sh\<lparr>sh_env := (sh_env sh)\<lparr>fk_now := t\<rparr>\<rparr>\<rparr>)"
  by (simp_all add: at_rest_def Let_def)

lemma beside_in_step: "in_step sh_env a s (l\<lparr>world := sh\<rparr>) \<Longrightarrow> in_step sh_env a s (l\<lparr>world := sh\<lparr>sh_events := es\<rparr>\<rparr>)"
  "in_step sh_env a s (l\<lparr>world := sh\<rparr>) \<Longrightarrow> in_step sh_env a s (l\<lparr>world := sh\<lparr>sh_indications := ps\<rparr>\<rparr>)"
  "in_step sh_env a s (l\<lparr>world := sh\<rparr>) \<Longrightarrow> in_step sh_env a s (l\<lparr>world := sh\<lparr>sh_env := (sh_env sh)\<lparr>fk_now := t\<rparr>\<rparr>\<rparr>)"
  by (auto simp: in_step_def line_def Let_def)

text \<open>A session since whose beginning only commands of the entry actions have been sent; they do not move the antenna.\<close>

definition ENTRY_CODES :: "int list" where
  "ENTRY_CODES = [GET_INFORMATION, GET_DEVICE_DATA, ALARM_SUBSCRIBE, GET_ALARM_STATUS, GET_TILT]"

definition only_entry :: "bytes list \<Rightarrow> bool" where
  "only_entry ms \<longleftrightarrow> (\<forall>m \<in> set ms. m \<noteq> [] \<and> uint (hd m) \<in> set ENTRY_CODES)"

lemma only_entry_simps [simp]: "only_entry []" "only_entry (ms @ ms') \<longleftrightarrow> only_entry ms \<and> only_entry ms'"
  by (auto simp: only_entry_def)

definition visited :: "('w \<Rightarrow> fake) \<Rightarrow> int \<Rightarrow> (int \<times> bytes) list \<Rightarrow> bytes list \<Rightarrow> 'w link \<Rightarrow> bool" where
  "visited dev a rs ms l \<longleftrightarrow> (\<exists>new. in_session dev a rs (ms @ new) l \<and> only_entry new)"

lemma in_session_visited: "in_session dev a rs ms l \<Longrightarrow> visited dev a rs ms l"
  unfolding visited_def by (intro exI [of _ "[]"]) simp

lemma connect_visited:
  "0 < fuel \<Longrightarrow> io_post (findable sh_env a rs ms) (connect_link (lift_ops fake_port) fuel a) (\<lambda>_. visited sh_env a rs ms) no_error"
  by (rule io_post_conseq [OF shared_line.findable_connect]) (auto intro: in_session_visited)

interpretation finding: beside_link "findable sh_env a rs ms" for a rs ms
  by unfold_locales (auto simp: findable_def frames_sent_def intro: beside_at_rest)

interpretation holding: beside_link "visited sh_env a rs ms" for a rs ms
  by unfold_locales (auto simp: visited_def in_session_def frames_sent_def intro: beside_in_step)

section \<open>Requests of the worker\<close>

lemma serving_sim:
  assumes "io_sim R m k"
  shows "io_sim (\<lambda>w t. serving (\<lambda>l. R l t) st a b w) (on_link m) k"
proof (rule io_simI)
  fix w t assume "serving (\<lambda>l. R l t) st a b w"
  then obtain l where l: "w_link w = Some l" "R (l\<lparr>world := w_shared w\<rparr>) t" "w_state w = st" "w_address w = a" "book_of w = b"
    by (auto simp: serving_def)
  from io_simD [OF assms l(2)] obtain r l' t' where
    "m (l\<lparr>world := w_shared w\<rparr>) = (r, l')" "k t = (r, t')" "R l' t'" by blast
  with l show "\<exists>r s' t'. on_link m w = (r, s') \<and> k t = (r, t') \<and> serving (\<lambda>l. R l t') st a b s'"
    by (simp add: on_link_def serving_def)
qed

lemma worker_agrees:
  assumes "calm_polls sh_env g" and "60 \<le> fuel"
  shows "transports_agree (worker_request fake_port fuel g) (ideal_device (answer rs))
    (\<lambda>w t. serving (\<lambda>l. keeps_up sh_env a rs ms n ns l t) st a' b w) a"
  by unfold_locales (simp add: worker_request_def serving_sim shared_line.request_keeps_up assms)

lemma calm_progress: "calm_polls sh_env (Some (report_progress fake_port name started))"
  by (auto simp: calm_polls_def calm_def report_progress_def lift_ops_def in_sh_def fake_port_def
      intro: exI [of _ 0] exI [of _ 1])

interpretation entry: transports_agree "worker_request fake_port (fuel + 60) None" "ideal_device (answer rs)"
    "\<lambda>w t. serving (\<lambda>l. keeps_up sh_env a rs ms n ns l t) st a' b w" a for fuel rs a ms n ns st a' b
  by (rule worker_agrees) (simp_all add: calm_polls_def)

interpretation executing: transports_agree
    "worker_request fake_port (fuel + 60) (Some (report_progress fake_port name started))" "ideal_device (answer rs)"
    "\<lambda>w t. serving (\<lambda>l. keeps_up sh_env a rs ms n ns l t) st a' b w" a for fuel name started rs a ms n ns st a' b
  by (rule worker_agrees) (simp_all add: calm_progress)

lemma in_session_keeps_up: "in_session dev a rs ms l \<Longrightarrow> \<exists>n ns. keeps_up dev a rs ms n ns l []"
  by (auto simp: in_session_def keeps_up_def)

lemma keeps_up_in_session: "keeps_up dev a rs ms n ns l t \<Longrightarrow> in_session dev a rs (ms @ t) l"
  by (auto simp: in_session_def keeps_up_def)

text \<open>
  What agrees with the ideal device keeps the session and raises what that raises; if it sends that only
  commands of the entry actions, it has sent no others.
\<close>

lemma safe_agreeing:
  assumes "\<And>ms n ns. io_sim (\<lambda>w t. serving (\<lambda>l. keeps_up sh_env a rs ms n ns l t) st a' b w) m k"
    and "io_safe only_entry E k"
  shows "io_safe (serving (visited sh_env a rs ms) st a' b) E m"
proof (rule io_safe_post, unfold io_post_def, intro allI impI)
  fix w assume "serving (visited sh_env a rs ms) st a' b w"
  then obtain l new where l: "w_link w = Some l" "in_session sh_env a rs (ms @ new) (l\<lparr>world := w_shared w\<rparr>)" "only_entry new"
    "w_state w = st" "w_address w = a'" "book_of w = b" by (auto simp: serving_def visited_def)
  then obtain n ns where "serving (\<lambda>l. keeps_up sh_env a rs (ms @ new) n ns l []) st a' b w"
    unfolding serving_def using in_session_keeps_up by blast
  from io_simD [OF assms(1) this] obtain r w' t' where r: "m w = (r, w')" "k [] = (r, t')"
    "serving (\<lambda>l. keeps_up sh_env a rs (ms @ new) n ns l t') st a' b w'" by blast
  have "only_entry (new @ t')" using io_safe_keeps [OF assms(2) _ r(2)] l(3) by simp
  then have "serving (visited sh_env a rs ms) st a' b w'"
    using r(3) keeps_up_in_session [of sh_env a rs "ms @ new"] unfolding serving_def visited_def by (metis append_assoc)
  then show "case m w of (Inl e, w') \<Rightarrow> E e \<and> serving (visited sh_env a rs ms) st a' b w'
      | (Inr x, w') \<Rightarrow> serving (visited sh_env a rs ms) st a' b w'"
    using r(1,2) io_safe_raises [OF assms(2), of "[]"] by (cases r) auto
qed

section \<open>The entry actions\<close>

text \<open>What the ideal device makes a procedure raise: the device's refusal, or that the reply is not one.\<close>

definition mild :: "exn \<Rightarrow> bool" where
  "mild e \<longleftrightarrow> (\<exists>m. e = AisgError m) \<or> (\<exists>p c. e = RetError p c)"

lemma mild_aisg: "mild e \<Longrightarrow> is_aisg_error e \<and> \<not> is_link_reset e"
  by (auto simp: mild_def is_link_reset_def)

lemma mild_proc:
  assumes "0 \<le> c" and "c < 256" and "length d < 256"
  shows "io_safe (\<lambda>_. True) mild (proc (ideal_device ans) \<lparr>r_addr = a, r_antenna = None\<rparr> c d t)"
proof -
  have "mild e" if "proc_reply None c resp = Inl e" for resp e
  proof (cases "length resp < 3")
    case False
    then obtain x y z rest where "resp = x # y # z # rest"
      by (cases resp; cases "tl resp"; cases "tl (tl resp)") auto
    with that show ?thesis
      by (auto simp: proc_reply_def mild_def unpack_H_def Let_def split: if_splits list.splits)
  qed (use that in \<open>auto simp: proc_reply_def mild_def\<close>)
  then have "io_safe (\<lambda>_. True) mild (io_res (proc_reply None c resp))" for resp
    by (intro io_safe_res) simp
  moreover have "io_safe (\<lambda>_. True) E (ideal_device ans a m t)" for E m
    by (simp add: io_safe_def io_post_def ideal_device_def)
  moreover obtain msg where "proc_message None c d = Inr msg"
    using assms by (auto simp: proc_message_def py_bytes_def pack_H_def)
  ultimately show ?thesis unfolding proc_def by (auto intro: io_safe_bind)
qed

lemma mild_sweep:
  "0 \<le> f \<Longrightarrow> f + int n \<le> 256
    \<Longrightarrow> io_safe (\<lambda>_. True) mild (sweep_loop (ideal_device ans) \<lparr>r_addr = a, r_antenna = None\<rparr> n f)"
proof (induction n arbitrary: f)
  case (Suc n)
  have "py_bytes [f] = Inr [word_of_int f]" using Suc.prems by (simp add: py_bytes_def)
  then have "io_safe (\<lambda>_. True) mild (get_device_data (ideal_device ans) \<lparr>r_addr = a, r_antenna = None\<rparr> f)"
    unfolding get_device_data_def code_for_def by (simp add: mild_proc procedure_codes)
  with Suc show ?case
    by (auto intro!: safe_intros io_safe_catch [where E' = mild] split: if_splits)
qed (simp add: safe_intros)

lemma mild_procedures:
  "io_safe (\<lambda>_. True) mild (get_information (ideal_device ans) \<lparr>r_addr = a, r_antenna = None\<rparr>)"
  "io_safe (\<lambda>_. True) mild (alarm_subscribe (ideal_device ans) \<lparr>r_addr = a, r_antenna = None\<rparr>)"
  "io_safe (\<lambda>_. True) mild (get_alarm_status (ideal_device ans) \<lparr>r_addr = a, r_antenna = None\<rparr>)"
  "io_safe (\<lambda>_. True) mild (sweep_device_data (ideal_device ans) \<lparr>r_addr = a, r_antenna = None\<rparr> sweep_default)"
  unfolding get_information_def alarm_subscribe_def get_alarm_status_def sweep_device_data_def sweep_default_def
  by (auto intro!: safe_intros mild_proc mild_sweep simp: code_for_def procedure_codes)

text \<open>The reading of the tilt is the one entry action whose reply is unpacked without a check.\<close>

definition tilt_readable :: "(int \<times> bytes) list \<Rightarrow> bool" where
  "tilt_readable rs \<longleftrightarrow>
     fst (get_tilt (ideal_device (answer rs)) \<lparr>r_addr = 0, r_antenna = None\<rparr> []) \<noteq> Inl StructError"

lemma mild_get_tilt:
  assumes "tilt_readable rs"
  shows "io_safe (\<lambda>_. True) mild (get_tilt (ideal_device (answer rs)) \<lparr>r_addr = a, r_antenna = None\<rparr>)"
proof -
  let ?proc = "proc (ideal_device (answer rs)) \<lparr>r_addr = a, r_antenna = None\<rparr> GET_TILT [] proc_timeout"
  have same: "fst (?proc taken) = fst (proc (ideal_device (answer rs)) \<lparr>r_addr = 0, r_antenna = None\<rparr> GET_TILT [] proc_timeout [])" for taken
    by (simp add: proc_def ideal_device_def io_defs split: sum.split)
  have "io_safe (\<lambda>_. True) mild ?proc" by (rule mild_proc) (simp_all add: procedure_codes)
  then have m: "mild e" if "?proc taken = (Inl e, t')" for e taken t'
    using that by (simp add: io_safe_raises)
  have "mild e" if "get_tilt (ideal_device (answer rs)) \<lparr>r_addr = a, r_antenna = None\<rparr> taken = (Inl e, t')" for e taken t'
  proof (cases "?proc taken")
    case (Pair x u)
    show ?thesis
    proof (cases x)
      case (Inl e')
      with that Pair m [of taken e' u] show ?thesis by (simp add: get_tilt_def code_for_def io_defs)
    next
      case (Inr d)
      with same [of taken] Pair obtain u' where
        "proc (ideal_device (answer rs)) \<lparr>r_addr = 0, r_antenna = None\<rparr> GET_TILT [] proc_timeout [] = (Inr d, u')"
        by (metis fst_conv prod.collapse)
      with assms that Pair Inr show ?thesis
        by (auto simp: tilt_readable_def get_tilt_def code_for_def io_defs unpack_h_def split: list.splits)
    qed
  qed
  then show ?thesis
    unfolding io_safe_def io_post_def by (auto split: prod.split sum.split)
qed

text \<open>The messages of the entry actions, and that they are all that the ideal device takes.\<close>

lemma only_entry_proc:
  assumes "c \<in> set ENTRY_CODES"
  shows "io_keeps only_entry (proc (ideal_device ans) \<lparr>r_addr = a, r_antenna = None\<rparr> c d t)"
proof (cases "proc_message None c d")
  case (Inl e)
  then show ?thesis by (simp add: proc_def io_keeps_def io_defs)
next
  case (Inr msg)
  then have "msg \<noteq> [] \<and> uint (hd msg) = c"
    by (auto simp: proc_message_def py_bytes_def pack_H_def uint_word_of_int_byte split: if_splits)
  with assms have "io_keeps only_entry (ideal_device ans a msg t)"
    by (auto simp: io_keeps_def ideal_device_def only_entry_def)
  with Inr show ?thesis unfolding proc_def by (auto intro!: keeps_intros)
qed

lemma only_entry_sweep:
  "io_keeps only_entry (sweep_loop (ideal_device ans) \<lparr>r_addr = a, r_antenna = None\<rparr> n f)"
proof (induction n arbitrary: f)
  case (Suc n)
  have "io_keeps only_entry (get_device_data (ideal_device ans) \<lparr>r_addr = a, r_antenna = None\<rparr> f)"
    unfolding get_device_data_def code_for_def
    by (auto intro!: keeps_intros only_entry_proc simp: ENTRY_CODES_def)
  with Suc show ?case by (auto intro!: keeps_intros split: if_splits)
qed (simp add: keeps_intros)

lemma entry_procedures:
  assumes "tilt_readable rs"
  shows "io_safe only_entry mild (get_information (ideal_device (answer rs)) \<lparr>r_addr = a, r_antenna = None\<rparr>)"
    "io_safe only_entry mild (alarm_subscribe (ideal_device (answer rs)) \<lparr>r_addr = a, r_antenna = None\<rparr>)"
    "io_safe only_entry mild (get_alarm_status (ideal_device (answer rs)) \<lparr>r_addr = a, r_antenna = None\<rparr>)"
    "io_safe only_entry mild (sweep_device_data (ideal_device (answer rs)) \<lparr>r_addr = a, r_antenna = None\<rparr> sweep_default)"
    "io_safe only_entry mild (get_tilt (ideal_device (answer rs)) \<lparr>r_addr = a, r_antenna = None\<rparr>)"
proof -
  have safe: "io_safe only_entry mild m" if "io_safe (\<lambda>_. True) mild m" and "io_keeps only_entry m"
    for m :: "(bytes list, 'x) io"
    using that(2) io_safe_raises [OF that(1)] by (intro io_safeI) (auto simp: io_raises_def)
  show "io_safe only_entry mild (get_information (ideal_device (answer rs)) \<lparr>r_addr = a, r_antenna = None\<rparr>)"
    by (rule safe [OF mild_procedures(1)]) (auto simp: get_information_def ENTRY_CODES_def intro!: keeps_intros only_entry_proc)
  show "io_safe only_entry mild (alarm_subscribe (ideal_device (answer rs)) \<lparr>r_addr = a, r_antenna = None\<rparr>)"
    by (rule safe [OF mild_procedures(2)]) (auto simp: alarm_subscribe_def ENTRY_CODES_def intro!: keeps_intros only_entry_proc)
  show "io_safe only_entry mild (get_alarm_status (ideal_device (answer rs)) \<lparr>r_addr = a, r_antenna = None\<rparr>)"
    by (rule safe [OF mild_procedures(3)])
      (auto simp: get_alarm_status_def code_for_def ENTRY_CODES_def intro!: keeps_intros only_entry_proc)
  show "io_safe only_entry mild (sweep_device_data (ideal_device (answer rs)) \<lparr>r_addr = a, r_antenna = None\<rparr> sweep_default)"
    by (rule safe [OF mild_procedures(4)]) (simp add: sweep_device_data_def only_entry_sweep)
  show "io_safe only_entry mild (get_tilt (ideal_device (answer rs)) \<lparr>r_addr = a, r_antenna = None\<rparr>)"
    by (rule safe [OF mild_get_tilt [OF assms]])
      (auto simp: get_tilt_def code_for_def ENTRY_CODES_def intro!: keeps_intros only_entry_proc)
qed

lemma entry_actions_session:
  assumes "tilt_readable rs"
  shows "io_safe (serving (visited sh_env a rs ms) st (Some a) b) mild
    (entry_actions fake_port (fuel + 60) \<lparr>r_addr = a, r_antenna = None\<rparr>)"
proof -
  have r: "r_addr \<lparr>r_addr = a, r_antenna = None\<rparr> = a" by simp
  note safe = safe_agreeing [OF entry.agree_procedures(1) [OF r] entry_procedures(1) [OF assms]]
    safe_agreeing [OF entry.agree_procedures(4) [OF r] entry_procedures(2) [OF assms]]
    safe_agreeing [OF entry.agree_procedures(2) [OF r] entry_procedures(3) [OF assms]]
    safe_agreeing [OF entry.agree_procedures(9) [OF r] entry_procedures(5) [OF assms]]
    safe_agreeing [OF entry.agree_sweep [OF r] entry_procedures(4) [OF assms, unfolded sweep_device_data_def]]
  have "io_safe (serving (visited sh_env a rs ms) st (Some a) b) mild
      (subscribe (worker_request fake_port (fuel + 60) None) \<lparr>r_addr = a, r_antenna = None\<rparr>)"
    unfolding subscribe_def aisg_handler_def
    by (auto intro!: safe_intros safe io_safe_catch [where E' = mild] dest: mild_aisg split: if_splits)
  then show ?thesis
    unfolding entry_actions_def Let_def sweep_device_data_def
    by (auto intro!: safe_intros safe)
qed

lemma on_connected_session:
  assumes "tilt_readable rs"
  shows "io_post (serving (visited sh_env a rs ms) st (Some a) b) (on_connected fake_port (fuel + 60))
    (\<lambda>ok w. ok \<and> serving (visited sh_env a rs ms) st (Some a) b w) no_error"
proof (rule io_postI)
  fix w assume w: "serving (visited sh_env a rs ms) st (Some a) b w"
  then have a: "w_address w = Some a" by (simp add: serving_def)
  let ?m = "entry_actions fake_port (fuel + 60) \<lparr>r_addr = a, r_antenna = None\<rparr>"
  obtain r w' where r: "?m w = (r, w')" by (cases "?m w")
  note s = io_safe_keeps [OF entry_actions_session [OF assms] w r]
  have "with_ret (entry_actions fake_port (fuel + 60)) w = (r, w')"
    using a r by (simp add: with_ret_def with_address_def io_defs)
  then show "\<exists>ok w'. on_connected fake_port (fuel + 60) w = (Inr ok, w') \<and> ok
      \<and> serving (visited sh_env a rs ms) st (Some a) b w'"
    using s io_safe_raises [OF entry_actions_session [OF assms] w] r mild_aisg
    by (cases r) (auto simp: on_connected_def io_defs)
qed

section \<open>Bringing the link up\<close>

lemma io_post_lift: "io_safe I (\<lambda>_. False) m \<Longrightarrow> io_post I m (\<lambda>_. I) no_error"
  by (simp add: io_safe_def)

lemma enter_session_post:
  assumes "tilt_readable rs"
  shows "io_post (serving (visited sh_env a rs ms) st x b) (enter_session fake_port (fuel + 60) a)
    (\<lambda>_. serving (visited sh_env a rs ms) CONNECTED (Some a) b) no_error"
  unfolding enter_session_def
  by (rule io_post_seq [OF holding.enters], rule io_post_bind [OF on_connected_session [OF assms]], rule io_post_pure,
      simp, rule io_post_seq [OF io_post_lift holding.sets_state], rule holding.field(9))

lemma connect_to_post:
  assumes "tilt_readable rs"
  shows "io_post (serving (findable sh_env a rs ms) st x b) (connect_to fake_port (fuel + 60) a)
    (\<lambda>_. serving (visited sh_env a rs ms) CONNECTED (Some a) b) no_error"
  unfolding connect_to_def
  by (rule io_post_seq [OF finding.sets_state],
      rule io_post_try [OF serving_on_link [OF connect_visited] enter_session_post [OF assms]]) simp_all

lemma clear_stale_post:
  assumes "octet (cf_first_address cf)" and "cf_first_address cf \<noteq> ADDR_BROADCAST" and "300000 \<le> fuel"
  shows "io_post (serving (findable sh_env a rs ms) st None b) (clear_stale_links fake_port fuel cf)
    (\<lambda>_. serving (findable sh_env a rs ms) st None b) no_error"
proof -
  have b: "budget_of (Some 300000) \<le> int fuel" "1 < budget_of (Some 300000)" using assms(3) by (simp_all add: budget_of_def)
  let ?I = "serving (findable sh_env a rs ms) st None b"
  have "io_post ?I (clear_addresses fake_port fuel [cf_first_address cf]) (\<lambda>_. ?I) no_error"
    unfolding clear_addresses.simps
    by (intro io_post_seq [OF io_post_catch [OF serving_on_link [OF shared_line.findable_disconnect [OF assms(1,2) b]]]]
        io_post_return)
  then have get: "io_post ?I
      (io_seq (clear_addresses fake_port fuel [cf_first_address cf]) (io_modify (\<lambda>w. w\<lparr>w_address := None\<rparr>)))
      (\<lambda>_. ?I) no_error"
    by (rule io_post_seq [OF _ finding.sets_address])
  show ?thesis
    unfolding clear_stale_links_def by (rule io_post_get) (use get in \<open>simp add: serving_def\<close>)
qed

lemma discover_post:
  assumes "0 \<le> cf_first_address cf" and "cf_first_address cf \<le> a" and "a < cf_first_address cf + cf_probe_count cf"
    and "cf_first_address cf + cf_probe_count cf \<le> 255" and "1000000 \<le> fuel"
  shows "io_post (serving (findable sh_env a rs ms) st x b) (discover fake_port fuel cf)
    (\<lambda>found w. found = Some a \<and> serving (findable sh_env a rs ms) st x b w) no_error"
proof -
  let ?I = "serving (findable sh_env a rs ms) st x b"
  have n: "cf_first_address cf + int (nat (cf_probe_count cf)) \<le> 255"
    "cf_first_address cf \<le> a \<and> a < cf_first_address cf + int (nat (cf_probe_count cf))" using assms by auto
  have lift: "serving (\<lambda>l. p \<and> findable sh_env a rs ms l) st x b w \<longleftrightarrow> p \<and> ?I w" for p w
    by (auto simp: serving_def)
  note probed = serving_on_link [OF shared_line.findable_scan_assigned [OF assms(5,1) n(1), of a rs ms], of st x b,
      unfolded lift]
  note scanned = serving_on_link [OF shared_line.findable_scan [OF assms(5), of a rs ms], of st x b, unfolded lift]
  have others: "io_post ?I (case found of [] \<Rightarrow> io_return None
      | d # others \<Rightarrow> io_seq (on_link (disconnect_all (lift_ops fake_port) fuel others)) (io_return (address d)))
      (\<lambda>found w. found = Some a \<and> ?I w) no_error" if "map address found = [Some a]" for found
  proof -
    from that obtain d where "found = [d]" "address d = Some a" by auto
    moreover have "io_post (findable sh_env a rs ms) (disconnect_all (lift_ops fake_port) fuel []) (\<lambda>_. findable sh_env a rs ms) no_error"
      by (simp add: io_post_return)
    ultimately show ?thesis
      by simp (rule io_post_seq [OF serving_on_link], auto intro: io_post_return)
  qed
  show ?thesis
    unfolding discover_def
    by (rule io_post_bind [OF scanned], rule io_post_pure, simp, rule io_post_bind [OF probed], rule io_post_pure)
      (use n others in simp)
qed

lemma bring_up_post:
  assumes "0 \<le> cf_first_address cf" and "cf_first_address cf \<le> a" and "a < cf_first_address cf + cf_probe_count cf"
    and "cf_first_address cf + cf_probe_count cf \<le> 255" and "1000000 \<le> fuel" and "tilt_readable rs"
  shows "io_post (serving (findable sh_env a rs ms) st None b) (bring_up fake_port fuel cf)
    (\<lambda>_. serving (visited sh_env a rs ms) CONNECTED (Some a) b) no_error"
proof -
  have f: "octet (cf_first_address cf)" "cf_first_address cf \<noteq> ADDR_BROADCAST" "300000 \<le> fuel"
    using assms(1-5) by (simp_all add: octet_def ADDR_BROADCAST_def)
  have fuel: "fuel = fuel - 60 + 60" using assms(5) by simp
  note connect = connect_to_post [OF assms(6), of _ _ _ _ _ "fuel - 60", folded fuel]
  show ?thesis
    unfolding bring_up_def
    by (rule io_post_seq [OF clear_stale_post [OF f]], rule io_post_seq [OF finding.sets_state],
        rule io_post_try [OF discover_post [OF assms(1-5)]], rule io_post_pure) (simp_all add: connect)
qed

end
