(* ===== verification/Whole_System.thy ===== *)
theory Whole_System
  imports Secondary_Session
begin

text \<open>
  The program from a client's call to the answer, over the strict secondary: a fresh worker, one
  submitted command, five turns of the thread.
\<close>

lemma book_of_fields:
  "bk_queue (book_of w) = w_queue w" "bk_next_seq (book_of w) = w_next_seq w" "bk_futures (book_of w) = w_futures w"
  "bk_lease_until (book_of w) = w_lease_until w" "bk_stopping (book_of w) = w_stopping w"
  by (simp_all add: book_of_def)

section \<open>Opening\<close>

definition unopened :: "link_state \<Rightarrow> int \<Rightarrow> (int \<times> bytes) list \<Rightarrow> bytes list \<Rightarrow> time \<Rightarrow> book \<Rightarrow> fake worker \<Rightarrow> bool" where
  "unopened st a rs cs t b w \<longleftrightarrow> w_link w = None \<and> w_state w = st \<and> w_address w = None \<and> book_of w = b
     \<and> (let v = sh_env (w_shared w) in ready a (fk_sec v) \<and> serves rs (fk_sec v) \<and> idle (fk_deframer v)
         \<and> 0 \<le> fk_timeout v \<and> fk_now v = t \<and> commands_in (fk_sent v) = cs)"

lemma unopened_now: "unopened st a rs cs t b w \<Longrightarrow> \<exists>w'. w_now fake_port w = (Inr t, w') \<and> unopened st a rs cs (t + 1) b w'"
  by (simp add: unopened_def w_now_def lift_ops_def in_sh_def fake_port_def Let_def)

lemma unopened_state: "io_post (unopened st a rs cs t b) (set_state st' err) (\<lambda>_. unopened st' a rs cs t b) no_error"
  by (auto simp: io_post_def unopened_def set_state_def emit_def Let_def)

lemma unopened_open:
  "io_post (unopened st a rs cs t b) (open_port fake_port cf) (\<lambda>_. serving (findable sh_env a rs cs) st None b) no_error"
  by (auto simp: io_post_def unopened_def open_port_def open_link_def lift_ops_def in_sh_def fake_port_def Let_def
      serving_def findable_def frames_sent_def at_rest_def new_link_def)

text \<open>The addresses the worker probes, of which the device's is one.\<close>

definition probes :: "config \<Rightarrow> int \<Rightarrow> bool" where
  "probes cf a \<longleftrightarrow> 0 \<le> cf_first_address cf \<and> cf_first_address cf \<le> a
     \<and> a < cf_first_address cf + cf_probe_count cf \<and> cf_first_address cf + cf_probe_count cf \<le> 255"

lemma open_and_connect_post:
  assumes "probes cf a" and "1000000 \<le> fuel" and "tilt_readable rs"
  shows "io_post (unopened st a rs cs t b) (open_and_connect fake_port fuel cf)
    (\<lambda>_. serving (visited sh_env a rs cs) CONNECTED (Some a) b) no_error"
  unfolding open_and_connect_def
  by (rule io_post_seq [OF unopened_state], rule io_post_try [OF unopened_open bring_up_post])
    (use assms in \<open>simp_all add: probes_def\<close>)

lemma first_serve:
  assumes "unopened CLOSED a rs cs t b w" and "bk_lease_until b \<le> t + 1" and "t \<le> link_deadline c"
    and "probes cf a" and "1000000 \<le> fuel" and "tilt_readable rs"
  shows "\<exists>w'. serve fake_port fuel cf (Some c) w = (Inr False, w') \<and> serving (visited sh_env a rs cs) CONNECTED (Some a) b w'"
proof -
  from unopened_now [OF assms(1)] obtain w1 where w1: "w_now fake_port w = (Inr t, w1)" "unopened CLOSED a rs cs (t + 1) b w1"
    by blast
  define w2 where "w2 = w1\<lparr>w_want_link := True\<rparr>"
  have w2: "unopened CLOSED a rs cs (t + 1) b w2" using w1(2) by (simp add: unopened_def w2_def)
  have st: "w_state w = CLOSED" using assms(1) by (simp add: unopened_def)
  then have "try_execute fake_port fuel cf c w = (Inr False, w2)"
    using w1(1) assms(3) by (simp add: try_execute_def refresh_lease_def attempt_def FAIL_FAST_def io_defs w2_def)
  moreover from unopened_now [OF w2] obtain w3 where w3: "w_now fake_port w2 = (Inr (t + 1), w3)"
    "unopened CLOSED a rs cs (t + 1 + 1) b w3" by blast
  moreover have "w_want_link w3" using w3(1) by (simp add: w_now_def w2_def split: prod.splits) auto
  moreover have "w_state w3 = CLOSED" "w_lease_until w3 = bk_lease_until b"
    using w3(2) by (auto simp: unopened_def book_of_def)
  moreover from io_postE [OF open_and_connect_post [OF assms(4-6)] w3(2)] obtain x w4 where
    "open_and_connect fake_port fuel cf w3 = (Inr x, w4)" "serving (visited sh_env a rs cs) CONNECTED (Some a) b w4"
    by blast
  ultimately show ?thesis
    using assms(2) by (simp add: serve_def step_def should_open_def io_defs)
qed

section \<open>Executing\<close>

interpretation kept: beside_link "\<lambda>l. keeps_up sh_env a rs ms n ns l taken" for a rs ms n ns taken
  by unfold_locales (auto simp: keeps_up_def frames_sent_def intro: beside_in_step)

interpretation ideal: transport "ideal_device ans" "\<lambda>_. True" "\<lambda>_. False" for ans
  by unfold_locales (simp add: io_safe_def io_post_def ideal_device_def)

definition settled_as :: "cmd_result res \<Rightarrow> future" where
  "settled_as x = (case x of Inl e \<Rightarrow> EXCEPTION e | Inr y \<Rightarrow> RESULT y)"

definition answered :: "command \<Rightarrow> future \<Rightarrow> book \<Rightarrow> book" where
  "answered c f b = b\<lparr>bk_futures := (bk_futures b)(cmd_id c \<mapsto> f)\<rparr>"

lemma resolve_post:
  "bk_futures b (cmd_id c) = Some RUNNING
    \<Longrightarrow> io_post (serving R st a b) (resolve c x) (\<lambda>_. serving R st a (answered c (settled_as x) b)) no_error"
  by (auto simp: io_post_def resolve_def future_of_def put_future_def set_outcome_def io_defs serving_def book_of_def
      answered_def settled_as_def split: sum.split)

lemma claim_post:
  "bk_futures b (cmd_id c) = Some PENDING
    \<Longrightarrow> io_post (serving R st a b) (claim c) (\<lambda>ok w. ok \<and> serving R st a (answered c RUNNING b) w) no_error"
  by (auto simp: io_post_def claim_def future_of_def put_future_def set_running_or_notify_cancel_def io_defs serving_def
      book_of_def answered_def)

text \<open>What a command may leave in the future: all but the exceptions that no clause of \<open>_execute\<close> expects.\<close>

lemma ideal_command_mild:
  assumes "call_command (ideal_device ans) r name args taken = (Inl e, t')" and "is_aisg_error e"
  shows "mild e"
proof -
  have "command_error (\<lambda>_. False) e" using io_safe_raises [OF ideal.safe_call_command _ assms(1)] by simp
  with assms(2) show ?thesis by (auto simp: command_error_def proc_error_def mild_def)
qed

lemma target_of_set_tilt:
  "call_command req r ''set_tilt'' args s = (x, s') \<Longrightarrow> x \<noteq> Inl TypeError \<Longrightarrow> \<exists>d. target_degrees args = Inr d"
  by (auto simp: call_command_def only_arg_def target_degrees_def io_defs split: list.splits if_splits pyval.splits)

lemma io_post_finally_then:
  "io_post P m (\<lambda>_. R) no_error \<Longrightarrow> io_post R f (\<lambda>_. F) no_error \<Longrightarrow> io_post P (io_finally m f) (\<lambda>_. F) no_error"
  unfolding io_post_def io_finally_def by (fastforce split: sum.splits prod.splits)

text \<open>
  The contract of \<open>_execute\<close>, from those of its parts: the procedure runs in step with the ideal device
  (\<open>R\<close>), what follows it settles the future (\<open>D\<close>), and the \<open>finally\<close> clause ends in \<open>F\<close>.
\<close>

lemma execute_contract:
  assumes sim: "\<And>started. io_sim R
      (call_command (worker_request fake_port fuel (Some (report_progress fake_port (cmd_name c) started)))
        \<lparr>r_addr = a, r_antenna = None\<rparr> (cmd_name c) (cmd_args c))
      (call_command (ideal_device (answer rs)) \<lparr>r_addr = a, r_antenna = None\<rparr> (cmd_name c) (cmd_args c))"
    and start: "\<And>w. I w \<Longrightarrow> R w [] \<and> w_address w = Some a" "io_post I (w_now fake_port) (\<lambda>_. I) no_error"
      "\<And>t. io_post I (io_modify (\<lambda>w. w\<lparr>w_target_tilt := t\<rparr>)) (\<lambda>_. I) no_error"
    and ideal: "call_command (ideal_device (answer rs)) \<lparr>r_addr = a, r_antenna = None\<rparr> (cmd_name c) (cmd_args c) [] = (x, taken)"
    and x: "\<forall>e. x = Inl e \<longrightarrow> is_aisg_error e"
    and err: "\<And>e. x = Inl e \<Longrightarrow> io_post (\<lambda>w. R w taken) (io_seq (set_last_error (exn_text e)) (resolve c x)) (\<lambda>_. D) no_error"
    and ok: "\<And>y. x = Inr y \<Longrightarrow> io_post (\<lambda>w. R w taken) (io_seq (absorb fake_port cf y) (resolve c x)) (\<lambda>_. D) no_error"
    and finish: "io_post D (io_seq (io_bind (w_now fake_port) (\<lambda>now. io_modify (\<lambda>w. w\<lparr>w_last_command_at := now\<rparr>))) drain_indications)
      (\<lambda>_. F) no_error"
  shows "io_post I (execute fake_port fuel cf c) (\<lambda>_. F) no_error"
proof -
  let ?call = "\<lambda>started. with_ret (\<lambda>r. call_command (worker_request fake_port fuel
    (Some (report_progress fake_port (cmd_name c) started))) r (cmd_name c) (cmd_args c))"
  let ?ok = "\<lambda>result. io_seq (absorb fake_port cf result) (resolve c (Inr result))"
  have body: "io_post I (io_try (?call started) (execute_error fake_port fuel c) ?ok) (\<lambda>_. D) no_error" for started
  proof (rule io_postI)
    fix w assume w: "I w"
    from io_simD [OF sim conjunct1 [OF start(1) [OF w]], of started] ideal obtain w1 where
      w1: "call_command (worker_request fake_port fuel (Some (report_progress fake_port (cmd_name c) started)))
        \<lparr>r_addr = a, r_antenna = None\<rparr> (cmd_name c) (cmd_args c) w = (x, w1)" "R w1 taken" by auto
    with start(1) [OF w] have call: "?call started w = (x, w1)" by (simp add: with_ret_def with_address_def io_defs)
    show "\<exists>u w'. io_try (?call started) (execute_error fake_port fuel c) ?ok w = (Inr u, w') \<and> D w'"
    proof (cases x)
      case (Inl e)
      have "mild e" using ideal_command_mild [OF ideal [unfolded Inl]] x Inl by blast
      then have "execute_error fake_port fuel c e = Some (io_seq (set_last_error (exn_text e)) (resolve c (Inl e)))"
        by (auto simp: execute_error_def mild_def is_link_reset_def)
      then show ?thesis using io_postE [OF err [OF Inl] w1(2)] call by (simp add: io_try_def Inl) metis
    next
      case (Inr y)
      then show ?thesis using io_postE [OF ok [OF Inr] w1(2)] call by (simp add: io_try_def Inr) metis
    qed
  qed
  have "x \<noteq> Inl TypeError" using x by force
  then have target: "\<exists>d. target_degrees (cmd_args c) = Inr d" if "cmd_name c = ''set_tilt''"
    using target_of_set_tilt [of _ _ "cmd_args c"] ideal that by metis
  have first: "io_post I (if cmd_name c = ''set_tilt''
      then io_bind (io_res (target_degrees (cmd_args c))) (\<lambda>t. io_modify (\<lambda>w. w\<lparr>w_target_tilt := Some t\<rparr>)) else io_return ())
      (\<lambda>_. I) no_error"
    using target start(3) by (auto simp: io_post_return)
  show ?thesis
    unfolding execute_def
    by (rule io_post_bind [OF start(2)], rule io_post_seq [OF first], rule io_post_finally_then [OF body finish])
qed

lemma execute_post:
  fixes a rs ms n ns b cf c fuel
  defines "K \<equiv> \<lambda>b taken. serving (\<lambda>l. keeps_up sh_env a rs ms n ns l taken) CONNECTED (Some a) b"
  assumes run: "bk_futures b (cmd_id c) = Some RUNNING"
    and ideal: "call_command (ideal_device (answer rs)) \<lparr>r_addr = a, r_antenna = None\<rparr> (cmd_name c) (cmd_args c) [] = (x, taken)"
    and x: "\<forall>e. x = Inl e \<longrightarrow> is_aisg_error e"
  shows "io_post (K b []) (execute fake_port (fuel + 60) cf c) (\<lambda>_. K (answered c (settled_as x) b) taken) no_error"
proof (rule execute_contract [where R = "\<lambda>w t. K b t w" and D = "K (answered c (settled_as x) b) taken" and a = a and rs = rs])
  let ?after = "answered c (settled_as x) b"
  have settle: "io_post (K b taken) (io_seq m (resolve c x)) (\<lambda>_. K ?after taken) no_error"
    if "io_safe (K b taken) (\<lambda>_. False) m" for m :: "(fake, unit) wio"
    unfolding K_def by (rule io_post_seq [OF io_post_lift [OF that [unfolded K_def]] resolve_post [OF run]])
  have safe: "io_safe (K b' t) (\<lambda>_. False) (w_now fake_port)" "io_safe (K b' t) (\<lambda>_. False) drain_indications"
    "io_safe (K b' t) (\<lambda>_. False) (io_modify (\<lambda>w. w\<lparr>w_last_command_at := k\<rparr>))"
    "io_safe (K b' t) (\<lambda>_. False) (io_modify (\<lambda>w. w\<lparr>w_target_tilt := q\<rparr>))"
    "io_safe (K b' t) (\<lambda>_. False) (set_last_error m)" "io_safe (K b' t) (\<lambda>_. False) (absorb fake_port cf y)" for t b' k q m y
    unfolding K_def set_last_error_def by (rule kept.now kept.drains kept.field kept.absorbs)+
  show "io_sim (\<lambda>w t. K b t w) (call_command (worker_request fake_port (fuel + 60) (Some (report_progress fake_port (cmd_name c) started)))
      \<lparr>r_addr = a, r_antenna = None\<rparr> (cmd_name c) (cmd_args c))
    (call_command (ideal_device (answer rs)) \<lparr>r_addr = a, r_antenna = None\<rparr> (cmd_name c) (cmd_args c))" for started
    unfolding K_def by (rule executing.agree_command) simp
  show "K b [] w \<Longrightarrow> K b [] w \<and> w_address w = Some a" for w by (simp add: K_def serving_def)
  show "io_post (K b []) (w_now fake_port) (\<lambda>_. K b []) no_error"
    "io_post (K b []) (io_modify (\<lambda>w. w\<lparr>w_target_tilt := t\<rparr>)) (\<lambda>_. K b []) no_error" for t
    by (rule io_post_lift [OF safe(1)] io_post_lift [OF safe(4)])+
  show "io_post (K b taken) (io_seq (set_last_error (exn_text e)) (resolve c x)) (\<lambda>_. K ?after taken) no_error"
    "io_post (K b taken) (io_seq (absorb fake_port cf y) (resolve c x)) (\<lambda>_. K ?after taken) no_error" for e y
    by (rule settle [OF safe(5)] settle [OF safe(6)])+
  show "io_post (K ?after taken) (io_seq (io_bind (w_now fake_port) (\<lambda>now. io_modify (\<lambda>w. w\<lparr>w_last_command_at := now\<rparr>))) drain_indications)
      (\<lambda>_. K ?after taken) no_error"
    by (intro io_post_lift io_safe_seq io_safe_bind safe)
qed (use ideal x in simp_all)

lemma second_serve:
  assumes w: "serving (visited sh_env a rs cs) CONNECTED (Some a) b w" and pending: "bk_futures b (cmd_id c) = Some PENDING"
    and ideal: "call_command (ideal_device (answer rs)) \<lparr>r_addr = a, r_antenna = None\<rparr> (cmd_name c) (cmd_args c) [] = (x, taken)"
    and x: "\<forall>e. x = Inl e \<longrightarrow> is_aisg_error e"
  shows "\<exists>w' new n ns. serve fake_port (fuel + 60) cf (Some c) w = (Inr True, w') \<and> only_entry new
    \<and> serving (\<lambda>l. keeps_up sh_env a rs (cs @ new) n ns l taken) CONNECTED (Some a) (answered c (settled_as x) (answered c RUNNING b)) w'"
proof -
  from w obtain new n ns where new: "only_entry new"
    and k: "serving (\<lambda>l. keeps_up sh_env a rs (cs @ new) n ns l []) CONNECTED (Some a) b w"
    unfolding serving_def visited_def using in_session_keeps_up by blast
  from io_postE [OF claim_post [OF pending] k] obtain w1 where w1: "claim c w = (Inr True, w1)"
    "serving (\<lambda>l. keeps_up sh_env a rs (cs @ new) n ns l []) CONNECTED (Some a) (answered c RUNNING b) w1" by metis
  have "bk_futures (answered c RUNNING b) (cmd_id c) = Some RUNNING" by (simp add: answered_def)
  from io_postE [OF execute_post [OF this ideal x] w1(2)] obtain w2 where
    "execute fake_port (fuel + 60) cf c w1 = (Inr (), w2)"
    "serving (\<lambda>l. keeps_up sh_env a rs (cs @ new) n ns l taken) CONNECTED (Some a) (answered c (settled_as x) (answered c RUNNING b)) w2"
    by (metis unit.exhaust)
  moreover have "w_state w = CONNECTED" using w by (simp add: serving_def)
  ultimately show ?thesis
    using w1(1) new by (auto simp: serve_def try_execute_def refresh_lease_def attempt_def io_defs)
qed

section \<open>The turns\<close>

lemma first_turns:
  fixes fuel cf args prio wait v
  assumes "ready a (fk_sec v)" "serves rs (fk_sec v)" "idle (fk_deframer v)" "0 \<le> fk_timeout v"
    and "name \<in> set ALL_COMMANDS"
  defines "cs \<equiv> commands_in (fk_sent v)"
    and "r \<equiv> turn fake_port fuel cf (turn fake_port fuel cf (call (submit fake_port name args prio wait) (new_runner fake_port v)))"
  shows "\<exists>c b. rn_phase r = SERVE \<and> rn_head r = Some c \<and> unopened CLOSED a rs cs (fk_now v + 4) b (rn_worker r)
    \<and> cmd_id c = 0 \<and> cmd_name c = name \<and> cmd_args c = args \<and> link_deadline c = fk_now v + 2 + wait
    \<and> bk_futures b = [0 \<mapsto> PENDING] \<and> bk_lease_until b = 0 \<and> \<not> bk_stopping b"
proof -
  define sh where "sh k = \<lparr>sh_env = v\<lparr>fk_now := fk_now v + k\<rparr>, sh_indications = [], sh_events = []\<rparr>" for k
  define c where "c = \<lparr>cmd_key = Key prio 0, cmd_name = name, cmd_args = args, submitted_at = fk_now v + 1,
    link_deadline = fk_now v + 2 + wait\<rparr>"
  have tick: "w_now fake_port w = (Inr (fk_now v + k), w\<lparr>w_shared := sh (k + 1)\<rparr>)" if "w_shared w = sh k" for w k
    using that by (simp add: w_now_def lift_ops_def in_sh_def fake_port_def sh_def)
  define w0 where "w0 = (new_worker fake_port v)\<lparr>w_shared := sh 3, w_next_seq := 1, w_queue := [c], w_futures := [0 \<mapsto> PENDING]\<rparr>"
  have nw: "w_shared (new_worker fake_port v) = sh 1" "w_next_seq (new_worker fake_port v) = 0"
    "w_queue (new_worker fake_port v) = []" "w_futures (new_worker fake_port v) = Map.empty"
    by (simp_all add: new_worker_def fake_port_def sh_def)
  then have "submit fake_port name args prio wait (new_worker fake_port v) = (Inr 0, w0)"
    using assms(5) by (simp add: submit_def io_defs tick Let_def q_put_def w0_def c_def)
  then have r0: "call (submit fake_port name args prio wait) (new_runner fake_port v) = \<lparr>rn_worker = w0, rn_head = None, rn_phase = TOP\<rparr>"
    by (simp add: call_def new_runner_def)
  define w1 where "w1 = w0\<lparr>w_shared := sh 4, w_heartbeat := fk_now v + 3\<rparr>"
  have st: "w_state w0 = CLOSED" "\<not> w_stopping w0" "w_shared w0 = sh 3"
    by (simp_all add: w0_def new_worker_def fake_port_def)
  then have r1: "turn fake_port fuel cf \<lparr>rn_worker = w0, rn_head = None, rn_phase = TOP\<rparr>
      = \<lparr>rn_worker = w1, rn_head = None, rn_phase = WAIT\<rparr>"
    by (simp add: turn_def turn_top_def io_defs tick refresh_lease_def w1_def)
  have r: "r = \<lparr>rn_worker = w1\<lparr>w_queue := []\<rparr>, rn_head = Some c, rn_phase = SERVE\<rparr>"
    unfolding r_def r0 r1 by (simp add: turn_def turn_wait_def q_get_def w1_def w0_def)
  have "unopened CLOSED a rs cs (fk_now v + 4) (book_of (w1\<lparr>w_queue := []\<rparr>)) (w1\<lparr>w_queue := []\<rparr>)"
    using assms(1-4) by (simp add: unopened_def w1_def w0_def new_worker_def fake_port_def sh_def cs_def)
  moreover have "cmd_id c = 0" by (simp add: cmd_id_def c_def)
  ultimately show ?thesis
    unfolding r by (intro exI [of _ c] exI [of _ "book_of (w1\<lparr>w_queue := []\<rparr>)"])
      (simp add: c_def book_of_def w1_def w0_def new_worker_def fake_port_def)
qed

lemma turn_serving:
  assumes "rn_phase r = TOP" and "rn_head r = Some c" and "serving (visited sh_env a rs cs) CONNECTED (Some a) b (rn_worker r)"
    and "\<not> bk_stopping b"
  shows "\<exists>w'. turn fake_port fuel cf r = r\<lparr>rn_worker := w', rn_phase := SERVE\<rparr>
    \<and> serving (visited sh_env a rs cs) CONNECTED (Some a) b w'"
proof -
  have beat: "io_post (serving (visited sh_env a rs cs) CONNECTED (Some a) b)
      (io_bind (w_now fake_port) (\<lambda>now. io_modify (\<lambda>w. w\<lparr>w_heartbeat := now\<rparr>)))
      (\<lambda>_. serving (visited sh_env a rs cs) CONNECTED (Some a) b) no_error"
    by (intro io_post_lift safe_intros)
  from io_postE [OF beat assms(3)] obtain u w1 where w1:
    "io_bind (w_now fake_port) (\<lambda>now. io_modify (\<lambda>w. w\<lparr>w_heartbeat := now\<rparr>)) (rn_worker r) = (Inr u, w1)"
    "serving (visited sh_env a rs cs) CONNECTED (Some a) b w1" by blast
  have "w_state w1 = CONNECTED" using w1(2) by (simp add: serving_def)
  then have "io_seq (io_bind (w_now fake_port) (\<lambda>now. io_modify (\<lambda>w. w\<lparr>w_heartbeat := now\<rparr>))) (refresh_lease fake_port)
      (rn_worker r) = (Inr (), w1)"
    using w1(1) by (simp add: io_seq_def io_bind_def [of _ "\<lambda>_. refresh_lease fake_port"] refresh_lease_def)
      (simp add: io_defs)
  moreover have "\<not> w_stopping (rn_worker r)" using assms(3,4) by (auto simp: serving_def book_of_def)
  ultimately show ?thesis using w1(2) assms(1,2) by (intro exI [of _ w1]) (simp add: turn_def turn_top_def)
qed

lemma fifth_turn:
  assumes device: "ready a (fk_sec v)" "serves rs (fk_sec v)" "tilt_readable rs"
    and port: "idle (fk_deframer v)" "0 \<le> fk_timeout v" "0 \<le> fk_now v"
    and worker: "probes cf a" "1000060 \<le> fuel" "2 \<le> wait"
    and name: "name \<in> set ALL_COMMANDS"
    and ideal: "call_command (ideal_device (answer rs)) \<lparr>r_addr = a, r_antenna = None\<rparr> name args [] = (x, taken)"
    and x: "\<forall>e. x = Inl e \<longrightarrow> is_aisg_error e"
  shows "let r = (turn fake_port fuel cf ^^ 4) (call (submit fake_port name args prio wait) (new_runner fake_port v));
      r' = turn fake_port fuel cf r in
    w_futures (rn_worker r) = [0 \<mapsto> PENDING]
    \<and> rn_phase r' = TOP \<and> rn_head r' = None \<and> w_state (rn_worker r') = CONNECTED \<and> w_address (rn_worker r') = Some a
    \<and> w_futures (rn_worker r') 0 = Some (case x of Inl e \<Rightarrow> EXCEPTION e | Inr y \<Rightarrow> RESULT y)
    \<and> (\<exists>entry. only_entry entry
        \<and> commands_in (fk_sent (sh_env (w_shared (rn_worker r')))) = commands_in (fk_sent v) @ entry @ taken)"
proof -
  let ?turn = "turn fake_port fuel cf"
  define cs where "cs = commands_in (fk_sent v)"
  define r2 where "r2 = ?turn (?turn (call (submit fake_port name args prio wait) (new_runner fake_port v)))"
  from first_turns [OF device(1,2) port(1,2) name, of fuel cf args prio wait, folded r2_def cs_def] obtain c b where
    r2: "rn_phase r2 = SERVE" "rn_head r2 = Some c" "unopened CLOSED a rs cs (fk_now v + 4) b (rn_worker r2)"
    and c: "cmd_id c = 0" "cmd_name c = name" "cmd_args c = args" "link_deadline c = fk_now v + 2 + wait"
    and b: "bk_futures b = [0 \<mapsto> PENDING]" "bk_lease_until b = 0" "\<not> bk_stopping b" by blast
  have "bk_lease_until b \<le> fk_now v + 4 + 1" "fk_now v + 4 \<le> link_deadline c" "1000000 \<le> fuel"
    using b c port(3) worker(2,3) by simp_all
  from first_serve [OF r2(3) this(1,2) worker(1) this(3) device(3)] obtain w3 where
    w3: "serve fake_port fuel cf (Some c) (rn_worker r2) = (Inr False, w3)"
    "serving (visited sh_env a rs cs) CONNECTED (Some a) b w3" by blast
  define r3 where "r3 = r2\<lparr>rn_worker := w3, rn_phase := TOP\<rparr>"
  have t3: "?turn r2 = r3" using r2 w3(1) by (cases r2) (simp add: turn_def turn_serve_def r3_def)
  from turn_serving [of r3 c a rs cs b fuel cf] w3(2) r2(2) b(3) obtain w4 where
    t4: "?turn r3 = r3\<lparr>rn_worker := w4, rn_phase := SERVE\<rparr>"
    and w4: "serving (visited sh_env a rs cs) CONNECTED (Some a) b w4" by (auto simp: r3_def)
  have fuel: "fuel - 60 + 60 = fuel" using worker(2) by simp
  from second_serve [OF w4 _ _ x, of c taken "fuel - 60" cf] b(1) c ideal fuel obtain w5 new n ns where
    w5: "serve fake_port fuel cf (Some c) w4 = (Inr True, w5)"
    "serving (\<lambda>l. keeps_up sh_env a rs (cs @ new) n ns l taken) CONNECTED (Some a) (answered c (settled_as x) (answered c RUNNING b)) w5"
    "only_entry new"
    by auto
  have t5: "?turn (r3\<lparr>rn_worker := w4, rn_phase := SERVE\<rparr>) = r3\<lparr>rn_worker := w5, rn_head := None, rn_phase := TOP\<rparr>"
    using r2(2) w5(1) by (simp add: turn_def turn_serve_def r3_def)
  have r: "(?turn ^^ 4) (call (submit fake_port name args prio wait) (new_runner fake_port v)) = r3\<lparr>rn_worker := w4, rn_phase := SERVE\<rparr>"
    by (simp add: eval_nat_numeral t3 t4 flip: r2_def)
  have "w_futures w4 = [0 \<mapsto> PENDING]" using w4 b(1) by (auto simp: serving_def simp flip: book_of_fields(3))
  moreover have "w_futures w5 = bk_futures (answered c (settled_as x) (answered c RUNNING b))"
    using w5(2) by (auto simp: serving_def simp flip: book_of_fields(3))
  moreover have "commands_in (fk_sent (sh_env (w_shared w5))) = cs @ new @ taken"
    using w5(2) by (auto simp: serving_def keeps_up_def frames_sent_def)
  ultimately show ?thesis
    using w5(2,3) by (auto simp: Let_def r t5 serving_def answered_def c(1) settled_as_def cs_def)
qed

lemma tilt_scenario:
  defines "v \<equiv> new_fake (new_secondary 1 default_responses)"
  shows "ready 1 (fk_sec v)" "serves default_responses (fk_sec v)" "tilt_readable default_responses"
    "idle (fk_deframer v)" "0 \<le> fk_timeout v" "0 \<le> fk_now v" "probes test_config 1" "''set_tilt'' \<in> set ALL_COMMANDS"
    "call_command (ideal_device (answer default_responses)) \<lparr>r_addr = 1, r_antenna = None\<rparr> ''set_tilt''
      [(''degrees'', PyFloat 3)] [] = (Inr (RTilt 3), [[0x33, 2, 0, 30, 0], [0x34, 0, 0]])"
proof -
  show "call_command (ideal_device (answer default_responses)) \<lparr>r_addr = 1, r_antenna = None\<rparr> ''set_tilt''
      [(''degrees'', PyFloat 3)] [] = (Inr (RTilt 3), [[0x33, 2, 0, 30, 0], [0x34, 0, 0]])"
    by code_simp
  show "tilt_readable default_responses" unfolding tilt_readable_def by code_simp
  have "speaks default_responses"
    by (simp add: speaks_def default_responses_def retap_response_def procedure_codes)
  then show "serves default_responses (fk_sec v)" by (simp add: v_def serves_def new_fake_def new_secondary_def)
qed (simp_all add: v_def ready_def new_fake_def new_secondary_def octet_def probes_def test_config_def
    ALL_COMMANDS_def READ_COMMANDS_def WRITE_COMMANDS_def)

text \<open>
  C2: a client gets its answer, end to end. A fresh worker whose port leads to the strict secondary (of
  any address it probes, any answers under their own codes, up to 59 polls of delay a command) is given
  any one command: five turns of the thread later the link is connected, and the command's future holds
  exactly the result or the refusal that the command has with the ideal device. On the line there were the
  procedures of the entry actions, none of which moves the antenna, and then the command's own messages,
  each once.
\<close>

theorem client_is_answered:
  assumes device: "ready a (fk_sec v)" "serves rs (fk_sec v)" "tilt_readable rs"
    and port: "idle (fk_deframer v)" "0 \<le> fk_timeout v" "0 \<le> fk_now v"
    and worker: "probes cf a" "1000060 \<le> fuel" "2 \<le> wait"
    and name: "name \<in> set ALL_COMMANDS"
    and ideal: "call_command (ideal_device (answer rs)) \<lparr>r_addr = a, r_antenna = None\<rparr> name args [] = (x, taken)"
    and x: "\<forall>e. x = Inl e \<longrightarrow> is_aisg_error e"
  shows "let r = (turn fake_port fuel cf ^^ 5) (call (submit fake_port name args prio wait) (new_runner fake_port v)) in
    rn_phase r = TOP \<and> rn_head r = None \<and> w_state (rn_worker r) = CONNECTED \<and> w_address (rn_worker r) = Some a
    \<and> w_futures (rn_worker r) 0 = Some (case x of Inl e \<Rightarrow> EXCEPTION e | Inr y \<Rightarrow> RESULT y)
    \<and> (\<exists>entry. (\<forall>m \<in> set entry. m \<noteq> [] \<and> uint (hd m) \<in> {GET_INFORMATION, GET_DEVICE_DATA, ALARM_SUBSCRIBE, GET_ALARM_STATUS, GET_TILT})
        \<and> commands_in (fk_sent (sh_env (w_shared (rn_worker r)))) = commands_in (fk_sent v) @ entry @ taken)"
proof -
  have "(turn fake_port fuel cf ^^ 5) r = turn fake_port fuel cf ((turn fake_port fuel cf ^^ 4) r)" for r
    by (simp add: eval_nat_numeral)
  with fifth_turn [OF assms] show ?thesis by (simp add: Let_def only_entry_def ENTRY_CODES_def)
qed

theorem client_is_answered_witness:
  "let r = (turn fake_port 1000060 test_config ^^ 5) (call (submit fake_port ''set_tilt'' [(''degrees'', PyFloat 3)] 5 20000000)
       (new_runner fake_port (new_fake (new_secondary 1 default_responses)))) in
   w_state (rn_worker r) = CONNECTED \<and> w_futures (rn_worker r) 0 = Some (RESULT (RTilt 3))
   \<and> (\<exists>entry. (\<forall>m \<in> set entry. uint (hd m) \<noteq> SET_TILT)
       \<and> commands_in (fk_sent (sh_env (w_shared (rn_worker r)))) = entry @ [[0x33, 2, 0, 30, 0], [0x34, 0, 0]])"
proof -
  have fresh: "commands_in (fk_sent (new_fake (new_secondary 1 default_responses))) = []"
    by (simp add: new_fake_def commands_in_def)
  have codes: "uint (hd m) \<noteq> SET_TILT"
    if "uint (hd m) \<in> {GET_INFORMATION, GET_DEVICE_DATA, ALARM_SUBSCRIBE, GET_ALARM_STATUS, GET_TILT}" for m :: bytes
    using that by (auto simp: procedure_codes)
  from client_is_answered [OF tilt_scenario(1-7) _ _ tilt_scenario(8,9), of 1000060 20000000 5] codes fresh show ?thesis
    by (simp add: Let_def) blast
qed

end
