(* ===== verification/Session_Types.thy ===== *)
theory Session_Types
  imports Whole_System
begin

text \<open>
  What the values are that the worker holds and hands out: the caches and the results of commands,
  whatever the device says.

  Property: in every reachable state a tilt is a whole number of tenths in 16 bits, an identity has the
  four keys in their order and printable text, device data is the hexadecimal text of octets under the
  names of fields, and an alarm is the name of a return code, never \<open>OK\<close>.
\<close>

section \<open>Types of values\<close>

definition tilt_typed :: "rat \<Rightarrow> bool" where
  "tilt_typed t \<longleftrightarrow> (\<exists>n. - 32768 \<le> n \<and> n < 32768 \<and> t = of_int n / 10)"

definition identity_typed :: "identity \<Rightarrow> bool" where
  "identity_typed i \<longleftrightarrow> map fst i = take (length i) information_keys
     \<and> (\<forall>(k, text) \<in> set i. \<forall>c \<in> set text. c < 128 \<or> c = 0xFFFD)"

definition data_typed :: "device_data \<Rightarrow> bool" where
  "data_typed d \<longleftrightarrow> (\<forall>(k, v) \<in> set d. (\<exists>f. k = show_0x f) \<and> (\<exists>bs. v = hex_sp bs))"

definition alarm_typed :: "string \<Rightarrow> bool" where
  "alarm_typed n \<longleftrightarrow> (\<exists>b :: byte. n = rc_name (uint b))"

fun result_typed :: "cmd_result \<Rightarrow> bool" where
  "result_typed RNone = True"
| "result_typed (RTilt t) = tilt_typed t"
| "result_typed (RIdentity i) = identity_typed i"
| "result_typed (RDeviceData d) = data_typed d"
| "result_typed (RAlarms a) = (\<forall>n \<in> set a. alarm_typed n)"

text \<open>Which command returns which kind of value.\<close>

fun result_kind :: "cmd_result \<Rightarrow> string list" where
  "result_kind RNone = [''clear_alarms'', ''calibrate'', ''self_test'', ''reset'']"
| "result_kind (RTilt t) = [''get_tilt'', ''set_tilt'']"
| "result_kind (RIdentity i) = [''get_information'']"
| "result_kind (RDeviceData d) = [''get_device_data'']"
| "result_kind (RAlarms a) = [''get_alarm_status'']"

section \<open>What the procedures give, over any transport\<close>

definition io_gives :: "('a \<Rightarrow> bool) \<Rightarrow> ('s, 'a) io \<Rightarrow> bool" where
  "io_gives T m \<longleftrightarrow> (\<forall>s a s'. m s = (Inr a, s') \<longrightarrow> T a)"

lemma io_givesD: "io_gives T m \<Longrightarrow> m s = (Inr a, s') \<Longrightarrow> T a"
  by (auto simp: io_gives_def)

named_theorems gives_intros

lemma gives_return: "T a \<Longrightarrow> io_gives T (io_return a)"
  and gives_raise [gives_intros]: "io_gives T (io_raise e)"
  by (simp_all add: io_gives_def io_defs)

lemma gives_bind: "io_gives S m \<Longrightarrow> (\<And>a. S a \<Longrightarrow> io_gives T (f a)) \<Longrightarrow> io_gives T (io_bind m f)"
  unfolding io_gives_def by (fastforce simp: io_bind_def split: prod.splits sum.splits)

lemma gives_bind_any: "(\<And>a. io_gives T (f a)) \<Longrightarrow> io_gives T (io_bind m f)"
  by (rule gives_bind [where S = "\<lambda>_. True"]) (simp_all add: io_gives_def)

lemma gives_seq [gives_intros]: "io_gives T k \<Longrightarrow> io_gives T (io_seq m k)"
  unfolding io_seq_def by (rule gives_bind_any)

lemma gives_catch: "io_gives T m \<Longrightarrow> (\<And>e k. h e = Some k \<Longrightarrow> io_gives T k) \<Longrightarrow> io_gives T (io_catch m h)"
  unfolding io_gives_def by (fastforce simp: io_catch_def split: prod.splits sum.splits option.splits)

lemma gives_no_args: "io_gives T m \<Longrightarrow> io_gives T (no_args args m)"
  by (simp add: no_args_def gives_raise)

lemma gives_tilt: "io_gives tilt_typed (get_tilt req r)"
  unfolding get_tilt_def
proof (rule gives_bind_any)
  fix d :: bytes
  have "io_gives (\<lambda>n. - 32768 \<le> n \<and> n < 32768) (io_res (unpack_h (take 2 d)))"
  proof -
    have "- 32768 \<le> uint lo + 256 * sint hi \<and> uint lo + 256 * sint hi < 32768" for lo hi :: byte
    proof -
      have "sint hi < 128" "- 128 \<le> sint hi" using sint_lt [of hi] sint_ge [of hi] by simp_all
      with uint_byte_range [of lo] show ?thesis by linarith
    qed
    then show ?thesis by (auto simp: io_gives_def io_defs unpack_h_def split: list.splits)
  qed
  then show "io_gives tilt_typed (io_bind (io_res (unpack_h (take 2 d))) (\<lambda>n. io_return (of_int n / 10)))"
    by (rule gives_bind) (auto intro!: gives_return simp: tilt_typed_def)
qed

lemma information_typed: "identity_typed (information_fields keys d)" if "keys = drop n information_keys" "n = 0"
proof -
  have "map fst (information_fields ks d) = take (length (information_fields ks d)) ks" for ks d
    by (induction ks d rule: information_fields.induct) auto
  moreover have "\<forall>(k, text) \<in> set (information_fields ks d). \<forall>c \<in> set text. c < 128 \<or> c = 0xFFFD" for ks d
    by (induction ks d rule: information_fields.induct) (auto simp: decode_ascii_def)
  ultimately show ?thesis using that unfolding identity_typed_def by simp
qed

lemma gives_information: "io_gives identity_typed (get_information req r)"
  unfolding get_information_def by (intro gives_bind_any gives_return information_typed) simp_all

lemma gives_alarms: "io_gives (\<lambda>a. \<forall>n \<in> set a. alarm_typed n) (get_alarm_status req r)"
  unfolding get_alarm_status_def by (intro gives_bind_any gives_return) (auto simp: alarm_typed_def)

lemma gives_sweep: "io_gives data_typed (sweep_device_data req r n)"
proof -
  have "io_gives data_typed (sweep_loop req r k f)" for k f
  proof (induction k arbitrary: f)
    case (Suc k)
    have "io_gives data_typed (io_catch (io_bind (get_device_data req r f) (\<lambda>d. io_return [(show_0x f, hex_sp d)]))
        (\<lambda>e. if is_aisg_error e then Some (io_return []) else None))"
      by (rule gives_catch)
        (auto intro!: gives_bind_any gives_return simp: data_typed_def split: if_splits)
    then show ?case
      unfolding sweep_loop.simps
      by (rule gives_bind) (auto intro!: gives_bind [OF Suc.IH] gives_return simp: data_typed_def)
  qed (simp add: gives_return data_typed_def)
  then show ?thesis unfolding sweep_device_data_def .
qed

definition returns_typed :: "string \<Rightarrow> cmd_result \<Rightarrow> bool" where
  "returns_typed name x \<longleftrightarrow> result_typed x \<and> name \<in> set (result_kind x)"

lemma gives_if: "(b \<Longrightarrow> io_gives T m) \<Longrightarrow> (\<not> b \<Longrightarrow> io_gives T k) \<Longrightarrow> io_gives T (if b then m else k)"
  by simp

lemma gives_bodies:
  "io_gives (returns_typed ''get_information'') (io_bind (get_information req r) (\<lambda>i. io_return (RIdentity i)))"
  "io_gives (returns_typed ''get_tilt'') (io_bind (get_tilt req r) (\<lambda>t. io_return (RTilt t)))"
  "io_gives (returns_typed ''get_alarm_status'') (io_bind (get_alarm_status req r) (\<lambda>a. io_return (RAlarms a)))"
  "io_gives (returns_typed ''get_device_data'') (io_bind (sweep_device_data req r n) (\<lambda>d. io_return (RDeviceData d)))"
  "io_gives (returns_typed ''set_tilt'') (set_tilt_command req r x)"
  "name \<in> {''clear_alarms'', ''calibrate'', ''self_test'', ''reset''} \<Longrightarrow> io_gives (returns_typed name) (io_seq m (io_return RNone))"
proof -
  show "io_gives (returns_typed ''get_information'') (io_bind (get_information req r) (\<lambda>i. io_return (RIdentity i)))"
    by (rule gives_bind [OF gives_information]) (simp add: gives_return returns_typed_def)
  show "io_gives (returns_typed ''get_tilt'') (io_bind (get_tilt req r) (\<lambda>t. io_return (RTilt t)))"
    by (rule gives_bind [OF gives_tilt]) (simp add: gives_return returns_typed_def)
  show "io_gives (returns_typed ''get_alarm_status'') (io_bind (get_alarm_status req r) (\<lambda>a. io_return (RAlarms a)))"
    by (rule gives_bind [OF gives_alarms]) (simp add: gives_return returns_typed_def)
  show "io_gives (returns_typed ''get_device_data'') (io_bind (sweep_device_data req r n) (\<lambda>d. io_return (RDeviceData d)))"
    by (rule gives_bind [OF gives_sweep]) (simp add: gives_return returns_typed_def)
  show "io_gives (returns_typed ''set_tilt'') (set_tilt_command req r x)"
    unfolding set_tilt_command_def
    by (rule gives_seq, rule gives_bind [OF gives_tilt]) (simp add: gives_return returns_typed_def)
  show "name \<in> {''clear_alarms'', ''calibrate'', ''self_test'', ''reset''}
      \<Longrightarrow> io_gives (returns_typed name) (io_seq m (io_return RNone))"
    by (rule gives_seq) (auto intro: gives_return simp: returns_typed_def)
qed

lemma gives_command: "io_gives (returns_typed name) (call_command req r name args)"
  unfolding call_command_def
  by (intro gives_if gives_no_args)
    (simp_all add: gives_bodies gives_raise split: option.split pyval.split)

section \<open>The worker\<close>

text \<open>\<open>F\<close> says which results the future of a command may hold.\<close>

definition values_typed :: "(nat \<Rightarrow> cmd_result \<Rightarrow> bool) \<Rightarrow> 'v worker \<Rightarrow> bool" where
  "values_typed F w \<longleftrightarrow> (\<forall>t. w_tilt w = Some t \<longrightarrow> tilt_typed t) \<and> identity_typed (w_identity w)
     \<and> data_typed (w_device_data w) \<and> (\<forall>n \<in> w_alarms w. alarm_typed n \<and> n \<noteq> ''OK'')
     \<and> (\<forall>k x. w_futures w k = Some (RESULT x) \<longrightarrow> result_typed x \<and> F k x)"

lemma typed_simps [simp]:
  "values_typed F (w\<lparr>w_state := st\<rparr>) = values_typed F w" "values_typed F (w\<lparr>w_link := l\<rparr>) = values_typed F w"
  "values_typed F (w\<lparr>w_shared := sh\<rparr>) = values_typed F w" "values_typed F (w\<lparr>w_device := d\<rparr>) = values_typed F w"
  "values_typed F (w\<lparr>w_address := a\<rparr>) = values_typed F w" "values_typed F (w\<lparr>w_target_tilt := tt\<rparr>) = values_typed F w"
  "values_typed F (w\<lparr>w_alarm_mode := m\<rparr>) = values_typed F w" "values_typed F (w\<lparr>w_subscribe_unsupported := b\<rparr>) = values_typed F w"
  "values_typed F (w\<lparr>w_last_error := er\<rparr>) = values_typed F w" "values_typed F (w\<lparr>w_last_command_at := n\<rparr>) = values_typed F w"
  "values_typed F (w\<lparr>w_last_monitor_at := n\<rparr>) = values_typed F w" "values_typed F (w\<lparr>w_last_keepalive_at := n\<rparr>) = values_typed F w"
  "values_typed F (w\<lparr>w_backoff := n\<rparr>) = values_typed F w" "values_typed F (w\<lparr>w_backoff_until := n\<rparr>) = values_typed F w"
  "values_typed F (w\<lparr>w_lease_until := n\<rparr>) = values_typed F w" "values_typed F (w\<lparr>w_heartbeat := n\<rparr>) = values_typed F w"
  "values_typed F (w\<lparr>w_want_link := b\<rparr>) = values_typed F w" "values_typed F (w\<lparr>w_queue := q\<rparr>) = values_typed F w"
  "values_typed F (w\<lparr>w_next_seq := k\<rparr>) = values_typed F w" "values_typed F (w\<lparr>w_stopping := b\<rparr>) = values_typed F w"
  by (simp_all add: values_typed_def)

abbreviation keeps_types :: "(nat \<Rightarrow> cmd_result \<Rightarrow> bool) \<Rightarrow> ('v, 'a) wio \<Rightarrow> bool" where
  "keeps_types F m \<equiv> io_keeps (values_typed F) m"

lemma keeps_gives: "io_keeps P m \<Longrightarrow> io_gives T m \<Longrightarrow> (\<And>a. T a \<Longrightarrow> io_keeps P (f a)) \<Longrightarrow> io_keeps P (io_bind m f)"
  unfolding io_keeps_def io_gives_def io_bind_def by (force split: sum.split prod.split)

lemma io_keeps_get [keeps_intros]: "io_keeps P (io_get f)"
  by (simp add: io_keeps_def io_defs)

lemma io_keeps_try:
  "io_keeps P m \<Longrightarrow> (\<And>e k'. h e = Some k' \<Longrightarrow> io_keeps P k') \<Longrightarrow> (\<And>a. io_keeps P (k a)) \<Longrightarrow> io_keeps P (io_try m h k)"
  unfolding io_keeps_def io_try_def by (auto split: sum.split prod.split option.split)

lemma keeps_try_gives:
  assumes "io_keeps P m" and "io_gives T m" and h: "\<And>e k'. h e = Some k' \<Longrightarrow> io_keeps P k'"
    and k: "\<And>a. T a \<Longrightarrow> io_keeps P (k a)"
  shows "io_keeps P (io_try m h k)"
proof (rule io_keepsI)
  fix s assume "P s"
  obtain r s' where m: "m s = (r, s')" by (cases "m s")
  from assms(1) \<open>P s\<close> m have s': "P s'" unfolding io_keeps_def by (metis snd_conv)
  show "P (snd (io_try m h k s))"
  proof (cases r)
    case (Inl e)
    show ?thesis
    proof (cases "h e")
      case (Some k')
      with io_keepsD [OF h [OF Some] s'] Inl m show ?thesis by (simp add: io_try_def)
    qed (use Inl m s' in \<open>simp add: io_try_def\<close>)
  next
    case (Inr a)
    with m have "T a" using io_givesD [OF assms(2)] by blast
    with io_keepsD [OF k s'] Inr m show ?thesis by (simp add: io_try_def)
  qed
qed

lemma io_keeps_finally [keeps_intros]: "io_keeps P m \<Longrightarrow> io_keeps P f \<Longrightarrow> io_keeps P (io_finally m f)"
  unfolding io_keeps_def io_finally_def by (auto split: sum.split prod.split)

lemma keeps_on_link_types [keeps_intros]: "keeps_types F (on_link m)"
  by (rule io_keepsI) (auto simp: on_link_def split: option.split prod.split)

lemma keeps_basic_types [keeps_intros]:
  "keeps_types F (w_now P)" "keeps_types F (emit ev)" "keeps_types F (set_state st err)" "keeps_types F (set_last_error m)"
  by (auto simp: io_keeps_def w_now_def emit_def set_state_def set_last_error_def io_defs split: prod.split)

lemma keeps_emit_all_types [keeps_intros]: "keeps_types F (emit_all evs)"
  by (induction evs) (auto intro: keeps_intros)

text \<open>What puts values into the caches.\<close>

lemma keeps_caches:
  "tilt_typed t \<Longrightarrow> keeps_types F (io_modify (\<lambda>w. w\<lparr>w_tilt := Some t\<rparr>))"
  "identity_typed i \<Longrightarrow> keeps_types F (io_modify (\<lambda>w. w\<lparr>w_identity := i\<rparr>))"
  "data_typed d \<Longrightarrow> keeps_types F (io_modify (\<lambda>w. w\<lparr>w_device_data := d\<rparr>))"
  by (auto intro!: io_keeps_modify simp: values_typed_def)

lemma keeps_track:
  assumes "\<forall>n \<in> new. alarm_typed n \<and> n \<noteq> ''OK''"
  shows "keeps_types F (track_alarms (evs, new))"
  unfolding track_alarms_def
  by simp (intro keeps_intros io_keeps_modify, use assms in \<open>auto simp: values_typed_def\<close>)

lemma keeps_alarms_snapshot: "\<forall>n \<in> set names. alarm_typed n \<Longrightarrow> keeps_types F (alarms_snapshot names e)"
  unfolding alarms_snapshot_def
proof (rule io_keeps_bind [OF io_keeps_get])
  fix a
  let ?r = "alarm_snapshot (set names) e a"
  assume "\<forall>n \<in> set names. alarm_typed n"
  then have "\<forall>n \<in> snd ?r. alarm_typed n \<and> n \<noteq> ''OK''"
    by (simp add: alarm_snapshot_def real_alarms_def Let_def)
  then show "keeps_types F (track_alarms ?r :: ('v, unit) wio)" using keeps_track [where new = "snd ?r" and evs = "fst ?r"] by simp
qed

lemma keeps_alarms [keeps_intros]: "keeps_types F (alarms_indicate pl)"
proof (rule io_keepsI)
  fix w :: "'v worker" assume w: "values_typed F w"
  let ?r = "alarm_indicate pl (w_alarms w)"
  have "\<forall>n \<in> snd ?r. alarm_typed n \<and> n \<noteq> ''OK''"
    using w by (auto simp: alarm_indicate_def alarm_snapshot_def real_alarms_def values_typed_def alarm_typed_def Let_def)
  then have "keeps_types F (track_alarms ?r :: ('v, unit) wio)" using keeps_track [where new = "snd ?r" and evs = "fst ?r"] by simp
  with w show "values_typed F (snd (alarms_indicate pl w))" by (simp add: alarms_indicate_def io_defs io_keeps_def)
qed

text \<open>What the device is asked, over any port.\<close>

interpretation typed: transport "worker_request P fuel on_poll" "values_typed F" "\<lambda>_. True"
  for P :: "'v port_ops" and fuel on_poll F
  by unfold_locales (simp add: io_safeI worker_request_def keeps_on_link_types io_raises_def)

lemma keeps_safe: "io_safe I E m \<Longrightarrow> io_keeps I m"
  by (rule io_keepsI, erule io_safe_keeps, assumption) (rule prod.collapse [symmetric])

lemma keeps_procedures [keeps_intros]:
  "keeps_types F (get_information (worker_request P fuel g) r)" "keeps_types F (get_alarm_status (worker_request P fuel g) r)"
  "keeps_types F (alarm_subscribe (worker_request P fuel g) r)" "keeps_types F (get_tilt (worker_request P fuel g) r)"
  "keeps_types F (sweep_device_data (worker_request P fuel g) r n)"
  "keeps_types F (call_command (worker_request P fuel g) r name args)"
  by (rule keeps_safe [OF typed.safe_procedures(1)] keeps_safe [OF typed.safe_procedures(2)]
    keeps_safe [OF typed.safe_procedures(4)] keeps_safe [OF typed.safe_procedures(9)]
    keeps_safe [OF typed.safe_sweep] keeps_safe [OF typed.safe_call_command])+

lemma keeps_fields [keeps_intros]:
  "keeps_types F (io_modify (\<lambda>w. w\<lparr>w_link := l\<rparr>))" "keeps_types F (io_modify (\<lambda>w. w\<lparr>w_device := d\<rparr>))"
  "keeps_types F (io_modify (\<lambda>w. w\<lparr>w_address := a\<rparr>))" "keeps_types F (io_modify (\<lambda>w. w\<lparr>w_target_tilt := tt\<rparr>))"
  "keeps_types F (io_modify (\<lambda>w. w\<lparr>w_alarm_mode := m\<rparr>))" "keeps_types F (io_modify (\<lambda>w. w\<lparr>w_subscribe_unsupported := b\<rparr>))"
  "keeps_types F (io_modify (\<lambda>w. w\<lparr>w_last_command_at := n\<rparr>))" "keeps_types F (io_modify (\<lambda>w. w\<lparr>w_last_monitor_at := n\<rparr>))"
  "keeps_types F (io_modify (\<lambda>w. w\<lparr>w_last_keepalive_at := n\<rparr>))" "keeps_types F (io_modify (\<lambda>w. w\<lparr>w_backoff := f w\<rparr>))"
  "keeps_types F (io_modify (\<lambda>w. w\<lparr>w_backoff_until := f w\<rparr>))" "keeps_types F (io_modify (\<lambda>w. w\<lparr>w_heartbeat := n\<rparr>))"
  "keeps_types F (io_modify (\<lambda>w. w\<lparr>w_want_link := b\<rparr>))" "keeps_types F (io_modify (\<lambda>w. w\<lparr>w_queue := q\<rparr>))"
  "keeps_types F (io_modify (\<lambda>w. w\<lparr>w_address := a, w_want_link := b\<rparr>))" "keeps_types F (io_modify (\<lambda>w. w\<lparr>w_shared := g w\<rparr>))"
  by (auto intro!: io_keeps_modify)

lemma keeps_with_address [keeps_intros]: "(\<And>a. keeps_types F (f a)) \<Longrightarrow> keeps_types F (with_address f)"
  and keeps_with_ret [keeps_intros]: "(\<And>r. keeps_types F (g r)) \<Longrightarrow> keeps_types F (with_ret g)"
  unfolding with_ret_def with_address_def by (auto intro!: keeps_intros split: option.split)

lemma keeps_drain_indications [keeps_intros]: "keeps_types F drain_indications"
proof -
  have "keeps_types F (drain_list ps)" for ps by (induction ps) (auto intro!: keeps_intros)
  then show ?thesis unfolding drain_indications_def by (intro keeps_intros)
qed

lemma keeps_absorb: "result_typed x \<Longrightarrow> keeps_types F (absorb P cf x)"
  unfolding absorb_def snapshot_def
  by (cases x) (auto intro!: keeps_intros keeps_caches keeps_alarms_snapshot)

section \<open>The state machine\<close>

lemma keeps_release [keeps_intros]: "keeps_types F (release P fuel)"
  unfolding release_def release_link_def os_or_aisg_handler_def
  by (auto intro!: keeps_intros split: option.split if_splits)

lemma keeps_give_up [keeps_intros]: "keeps_types F (give_up P fuel st err)" "keeps_types F (settle P st err)"
  unfolding give_up_def settle_def arm_backoff_def by (auto intro!: keeps_intros)

lemma keeps_fail_link [keeps_intros]: "keeps_types F (fail_link P fuel why)"
  unfolding fail_link_def by (rule keeps_give_up)

lemma keeps_entry_actions: "keeps_types F (entry_actions P fuel r)"
proof -
  have "keeps_types F (subscribe (worker_request P fuel None) r)"
    unfolding subscribe_def aisg_handler_def by (auto intro!: keeps_intros split: if_splits)
  then show ?thesis
    unfolding entry_actions_def Let_def
    by (intro keeps_intros keeps_caches keeps_gives [OF keeps_procedures(1) gives_information]
        keeps_gives [OF keeps_procedures(5) gives_sweep] keeps_gives [OF keeps_procedures(2) gives_alarms]
        keeps_gives [OF keeps_procedures(4) gives_tilt] keeps_alarms_snapshot)
qed

lemma keeps_on_connected [keeps_intros]: "keeps_types F (on_connected P fuel)"
  unfolding on_connected_def by (auto intro!: keeps_intros keeps_entry_actions split: if_splits)

lemma keeps_open_port: "keeps_types F (open_port P cf)"
  by (rule io_keepsI) (auto simp: open_port_def split: prod.split sum.split)

lemma keeps_discover: "keeps_types F (discover P fuel cf)" "keeps_types F (clear_stale_links P fuel cf)"
proof -
  have "keeps_types F (clear_addresses P fuel as)" for as
    by (induction as) (auto intro!: keeps_intros simp: aisg_handler_def split: if_splits)
  then show "keeps_types F (clear_stale_links P fuel cf)" unfolding clear_stale_links_def by (intro keeps_intros)
  show "keeps_types F (discover P fuel cf)" unfolding discover_def by (auto intro!: keeps_intros split: list.split)
qed

lemma keeps_open_and_connect [keeps_intros]: "keeps_types F (open_and_connect P fuel cf)"
proof -
  have connect: "keeps_types F (connect_to P fuel a)" for a
    unfolding connect_to_def enter_session_def aisg_handler_def
    by (auto intro!: keeps_intros io_keeps_try split: if_splits)
  have "keeps_types F (bring_up P fuel cf)"
    unfolding bring_up_def aisg_handler_def
    by (auto intro!: keeps_intros io_keeps_try keeps_discover connect split: if_splits option.split)
  then show ?thesis
    unfolding open_and_connect_def
    by (auto intro!: keeps_intros io_keeps_try keeps_open_port simp: open_handler_def split: exn.splits if_splits)
qed

lemma keeps_housekeeping [keeps_intros]: "keeps_types F (connected_housekeeping P fuel cf now)"
proof -
  have poll: "keeps_types F (poll_alarms P fuel)"
    unfolding poll_alarms_def
    by (auto intro!: keeps_intros keeps_caches keeps_gives [OF keeps_procedures(2) gives_alarms]
        keeps_gives [OF keeps_procedures(4) gives_tilt] keeps_alarms_snapshot split: if_splits)
  have "keeps_types F (keepalive_frame P fuel addr f)" for addr f
    unfolding keepalive_frame_def by (auto intro!: keeps_intros split: prod.split)
  then have "keeps_types F (keepalive_frames P fuel addr fs)" for addr fs
    by (induction fs) (auto intro!: keeps_intros)
  then have "keeps_types F (keepalive_poll P fuel)"
    unfolding keepalive_poll_def os_or_aisg_handler_def by (auto intro!: keeps_intros split: if_splits)
  with poll show ?thesis unfolding connected_housekeeping_def by (auto intro!: keeps_intros)
qed

lemma keeps_drain [keeps_intros]: "keeps_types F (drain P fuel)"
proof -
  have "keeps_types F (drain_frame P a f)" for a f
    unfolding drain_frame_def by (auto intro!: keeps_intros split: prod.split)
  then have "keeps_types F (drain_frames P a fs)" for a fs by (induction fs) (auto intro!: keeps_intros)
  then have "keeps_types F (drain_loop P fuel end_at n)" for end_at n by (induction n) (auto intro!: keeps_intros)
  then show ?thesis
    unfolding drain_def os_or_aisg_handler_def by (auto intro!: keeps_intros io_keeps_try split: if_splits)
qed

lemma keeps_refresh_lease [keeps_intros]: "keeps_types F (refresh_lease P)"
  unfolding refresh_lease_def by (auto intro!: keeps_intros)

lemma keeps_step [keeps_intros]: "keeps_types F (step P fuel cf)"
  unfolding step_def by (auto intro!: keeps_intros)

section \<open>Commands\<close>

lemma keeps_put_future: "(\<And>x. f = RESULT x \<Longrightarrow> result_typed x \<and> F (cmd_id c) x) \<Longrightarrow> keeps_types F (put_future c f)"
  unfolding put_future_def by (rule io_keeps_modify) (auto simp: values_typed_def)

lemma keeps_claim [keeps_intros]: "keeps_types F (claim c)"
  unfolding claim_def
proof (rule io_keeps_bind [OF io_keeps_get])
  fix f
  show "keeps_types F (io_bind (io_res (set_running_or_notify_cancel f)) (\<lambda>(ok, f'). io_seq (put_future c f') (io_return ok)))"
    by (cases f) (auto simp: set_running_or_notify_cancel_def intro!: keeps_intros keeps_put_future)
qed

lemma keeps_resolve: "(\<And>y. x = Inr y \<Longrightarrow> result_typed y \<and> F (cmd_id c) y) \<Longrightarrow> keeps_types F (resolve c x)"
  unfolding resolve_def
proof (rule io_keeps_bind [OF io_keeps_get])
  fix f
  assume x: "\<And>y. x = Inr y \<Longrightarrow> result_typed y \<and> F (cmd_id c) y"
  show "keeps_types F (io_bind (io_res (set_outcome x f)) (put_future c))"
    using x by (cases f; cases x) (auto simp: set_outcome_def intro!: keeps_intros keeps_put_future)
qed

lemma keeps_abandon [keeps_intros]: "keeps_types F (abandon c e)"
  unfolding abandon_def by (auto intro!: keeps_intros keeps_resolve)

lemma keeps_execute:
  assumes "\<And>x. returns_typed (cmd_name c) x \<Longrightarrow> F (cmd_id c) x"
  shows "keeps_types F (execute P fuel cf c)"
proof -
  have err: "keeps_types F k" if "execute_error P fuel c e = Some k" for e k
    using that by (auto simp: execute_error_def intro!: keeps_intros keeps_resolve split: if_splits exn.splits)
  have ok: "keeps_types F (io_seq (absorb P cf y) (resolve c (Inr y)))" if "returns_typed (cmd_name c) y" for y
    using that assms by (auto simp: returns_typed_def intro!: keeps_intros keeps_absorb keeps_resolve)
  have gives: "io_gives (returns_typed (cmd_name c)) (with_ret (\<lambda>r. call_command req r (cmd_name c) (cmd_args c)))"
    for req :: "'v worker transport_ops"
    unfolding with_ret_def with_address_def
    by (intro gives_bind_any) (auto intro: gives_command gives_raise split: option.split)
  have tried: "keeps_types F (io_try
      (with_ret (\<lambda>r. call_command (worker_request P fuel g) r (cmd_name c) (cmd_args c)))
      (execute_error P fuel c) (\<lambda>y. io_seq (absorb P cf y) (resolve c (Inr y))))" for g
    by (rule keeps_try_gives [OF _ gives err ok]) (auto intro!: keeps_intros)
  show ?thesis unfolding execute_def by (intro keeps_intros tried)
qed

lemma keeps_try_execute:
  assumes "\<And>x. returns_typed (cmd_name c) x \<Longrightarrow> F (cmd_id c) x"
  shows "keeps_types F (try_execute P fuel cf c)"
  unfolding try_execute_def attempt_def
  by (intro keeps_intros io_keeps_if keeps_execute assms) simp_all

lemma keeps_serve:
  assumes "\<And>c x. h = Some c \<Longrightarrow> returns_typed (cmd_name c) x \<Longrightarrow> F (cmd_id c) x"
  shows "keeps_types F (serve P fuel cf h)"
  unfolding serve_def using assms by (cases h) (auto intro!: keeps_intros keeps_try_execute)

lemma keeps_teardown [keeps_intros]: "keeps_types F (teardown P fuel)"
proof -
  have "keeps_types F (teardown_queue cs)" for cs by (induction cs) (auto intro!: keeps_intros)
  then show ?thesis unfolding teardown_def by (intro keeps_intros)
qed

section \<open>The loop and its callers\<close>

lemma keeps_pause [keeps_intros]: "keeps_types F (pause P t)"
  unfolding pause_def by (intro keeps_intros)

lemma typed_recover: "values_typed F (rn_worker r) \<Longrightarrow> values_typed F (rn_worker (recover P fuel e r))"
proof -
  assume w: "values_typed F (rn_worker r)"
  have "keeps_types F (io_seq (fail_link P fuel ''internal error'') (pause P 500000))" by (intro keeps_intros)
  from io_keepsD [OF this w] w show ?thesis
    unfolding recover_def by (auto split: prod.split sum.split)
qed

lemma typed_turn:
  assumes w: "values_typed F (rn_worker r)"
    and F: "\<And>c x. rn_head r = Some c \<Longrightarrow> returns_typed (cmd_name c) x \<Longrightarrow> F (cmd_id c) x"
  shows "values_typed F (rn_worker (turn P fuel cf r))"
proof (cases "rn_phase r")
  case TOP
  have a: "keeps_types F (io_seq (teardown P fuel) (set_state SHUTDOWN []))" by (intro keeps_intros)
  have b: "keeps_types F (io_seq (io_bind (w_now P) (\<lambda>now. io_modify (\<lambda>w. w\<lparr>w_heartbeat := now\<rparr>))) (refresh_lease P))"
    by (intro keeps_intros)
  from io_keepsD [OF a w] io_keepsD [OF b w] TOP show ?thesis
    by (auto simp: turn_def turn_top_def split: prod.split sum.split intro!: typed_recover)
next
  case WAIT
  from io_keepsD [OF keeps_pause w] w WAIT show ?thesis
    by (auto simp: turn_def turn_wait_def split: option.split)
next
  case SERVE
  have "keeps_types F (serve P fuel cf (rn_head r))" by (rule keeps_serve) (rule F)
  from io_keepsD [OF this w] SERVE show ?thesis
    by (auto simp: turn_def turn_serve_def split: prod.split sum.split intro!: typed_recover)
qed (simp_all add: turn_def w)

lemma keeps_public:
  "keeps_types F (submit P name args prio link_wait)" "keeps_types F (cancel n)" "keeps_types F (lease P seconds)"
  "keeps_types F unlease" "keeps_types F (snapshot P cf)" "keeps_types F stop"
proof -
  have "values_typed F (w\<lparr>w_next_seq := k, w_queue := q, w_futures := (w_futures w)(i \<mapsto> PENDING)\<rparr>)"
    if "values_typed F w" for w :: "'v worker" and k q i
    using that by (auto simp: values_typed_def)
  then show "keeps_types F (submit P name args prio link_wait)"
    unfolding submit_def Let_def by (intro keeps_intros io_keeps_modify) simp
  have *: "cancel_future f = RESULT x \<Longrightarrow> f = RESULT x" for f x by (cases f) (auto simp: cancel_future_def)
  show "keeps_types F (cancel n)"
    unfolding cancel_def by (intro io_keeps_modify) (auto simp: values_typed_def split: if_splits dest!: *)
  show "keeps_types F (lease P seconds)" "keeps_types F unlease" "keeps_types F (snapshot P cf)" "keeps_types F stop"
    unfolding lease_def unlease_def snapshot_def stop_def by (auto intro!: keeps_intros io_keeps_modify)
qed

lemma typed_step:
  assumes "session_step P fuel cf r r'" and w: "values_typed F (rn_worker r)"
    and F: "\<And>c x. rn_head r = Some c \<Longrightarrow> returns_typed (cmd_name c) x \<Longrightarrow> F (cmd_id c) x"
  shows "values_typed F (rn_worker r')"
  using assms(1)
  by cases (auto simp: call_def intro: typed_turn [OF w F] io_keepsD [OF keeps_public(1) w]
      io_keepsD [OF keeps_public(2) w] io_keepsD [OF keeps_public(3) w] io_keepsD [OF keeps_public(4) w]
      io_keepsD [OF keeps_public(5) w] io_keepsD [OF keeps_public(6) w])

lemma typed_reachable: "reachable P fuel cf r \<Longrightarrow> values_typed (\<lambda>_ _. True) (rn_worker r)"
proof (induction rule: reachable.induct)
  case (start v)
  show ?case
    by (auto simp: new_runner_def new_worker_def values_typed_def identity_typed_def data_typed_def split: prod.split)
next
  case (more r r')
  from more.hyps(2) more.IH show ?case by (rule typed_step) simp
qed

text \<open>
  C16: the values are of their types, whatever the port delivers and whatever other threads call. In
  every reachable state a cached tilt is a whole number of tenths of a degree in 16 bits, the identity
  has the keys of the procedure in their order and text of ASCII octets (\<open>U+FFFD\<close> for others), device data
  is the hexadecimal text of octets by the name of its field, an alarm is the name of a return code but
  never \<open>OK\<close>, and every future that has a result has one of such a type. What a step newly puts into a
  future is a value of the kind that the command in hand returns, by its name.
\<close>

theorem values_have_their_types:
  assumes "reachable P fuel cf r" and "session_step P fuel cf r r'"
  shows "values_typed (\<lambda>_ _. True) (rn_worker r')
    \<and> (\<forall>k x. w_futures (rn_worker r') k = Some (RESULT x) \<and> w_futures (rn_worker r) k \<noteq> Some (RESULT x)
         \<longrightarrow> (\<exists>c. rn_head r = Some c \<and> cmd_id c = k \<and> returns_typed (cmd_name c) x))"
proof -
  define F where "F k x \<longleftrightarrow> w_futures (rn_worker r) k = Some (RESULT x)
    \<or> (\<exists>c. rn_head r = Some c \<and> cmd_id c = k \<and> returns_typed (cmd_name c) x)" for k x
  have "values_typed F (rn_worker r)"
    using typed_reachable [OF assms(1)] by (simp add: values_typed_def F_def)
  from typed_step [OF assms(2) this] have "values_typed F (rn_worker r')" by (auto simp: F_def)
  then show ?thesis by (auto simp: values_typed_def F_def)
qed

theorem values_have_their_types_witness:
  "let r = (turn fake_port 1000060 test_config ^^ 4) (call (submit fake_port ''set_tilt'' [(''degrees'', PyFloat 3)] 5 20000000)
       (new_runner fake_port (new_fake (new_secondary 1 default_responses))));
     r' = turn fake_port 1000060 test_config r in
   w_futures (rn_worker r) 0 = Some PENDING \<and> w_futures (rn_worker r') 0 = Some (RESULT (RTilt 3))
   \<and> (\<exists>c. rn_head r = Some c \<and> returns_typed (cmd_name c) (RTilt 3))"
proof -
  let ?begun = "call (submit fake_port ''set_tilt'' [(''degrees'', PyFloat 3)] 5 20000000)
       (new_runner fake_port (new_fake (new_secondary 1 default_responses)))"
  have "reachable fake_port 1000060 test_config ?begun" by (rule reachable.more [OF reachable.start session_step.submit])
  then have r: "reachable fake_port 1000060 test_config ((turn fake_port 1000060 test_config ^^ n) ?begun)" for n
    by (induction n) (auto intro: reachable.more session_step.turn)
  have "w_futures (rn_worker ((turn fake_port 1000060 test_config ^^ 4) ?begun)) = [0 \<mapsto> PENDING]"
    "w_futures (rn_worker (turn fake_port 1000060 test_config ((turn fake_port 1000060 test_config ^^ 4) ?begun))) 0
      = Some (RESULT (RTilt 3))"
    using fifth_turn [OF tilt_scenario(1-7) _ _ tilt_scenario(8,9), of 1000060 20000000 5] by (simp_all add: Let_def)
  with values_have_their_types [OF r [of 4] session_step.turn, THEN conjunct2, rule_format, of 0 "RTilt 3"]
  show ?thesis unfolding Let_def by auto
qed

end
