(* ===== verification/Events.thy ===== *)
theory Events
  imports Session_State
begin

text \<open>
  \<open>api/events.py\<close>: the fan-out of worker events. \<open>EventBus\<close> numbers each event, keeps the last ones in
  a ring and offers it to every subscriber's bounded queue, dropping the oldest when that is full;
  \<open>WorkerBridge\<close> carries an event from the worker's thread into the event loop.

  A subscriber is an object, named by the number of subscribers created before it. The set of
  subscribers is a list of named objects, in no order that matters: each is offered the event on its
  own. The numbers of the dictionary are fields; the events that are published have no \<open>seq\<close> or \<open>ts\<close> of
  their own that would replace them.

  Properties: the ring and each queue are always the newest part of what was published, in order and
  without a hole, so that a client can be resynchronised from the ring.
\<close>

section \<open>State\<close>

definition QUEUE_DEPTH :: nat where "QUEUE_DEPTH = 256"
definition REPLAY :: nat where "REPLAY = 500"

record 'e stamped =
  ev_seq :: int
  ev_ts :: int
  ev_body :: 'e

record 'e subscriber =
  sub_q :: "'e stamped list"
  sub_dropped :: int

definition new_subscriber :: "'e subscriber" where
  "new_subscriber = \<lparr>sub_q = [], sub_dropped = 0\<rparr>"

record 'e bus =
  bus_subs :: "(nat \<times> 'e subscriber) list"
  bus_ring :: "'e stamped list"
  bus_replay :: nat
  bus_seq :: int
  bus_objects :: nat

definition new_bus :: "nat \<Rightarrow> 'e bus" where
  "new_bus replay = \<lparr>bus_subs = [], bus_ring = [], bus_replay = replay, bus_seq = 1, bus_objects = 0\<rparr>"

section \<open>Operations\<close>

text \<open>\<open>asyncio.Queue\<close> with its bound: \<open>None\<close> is \<open>QueueFull\<close> and \<open>QueueEmpty\<close>.\<close>

definition put_nowait :: "'a \<Rightarrow> 'a list \<Rightarrow> 'a list option" where
  "put_nowait x q = (if QUEUE_DEPTH \<le> length q then None else Some (q @ [x]))"

definition get_nowait :: "'a list \<Rightarrow> ('a \<times> 'a list) option" where
  "get_nowait q = (case q of [] \<Rightarrow> None | x # q' \<Rightarrow> Some (x, q'))"

text \<open>The body of the loop of \<open>publish_nowait\<close>.\<close>

definition offer :: "'e stamped \<Rightarrow> 'e subscriber \<Rightarrow> 'e subscriber" where
  "offer e s =
     (case put_nowait e (sub_q s) of
        Some q \<Rightarrow> s\<lparr>sub_q := q\<rparr>
      | None \<Rightarrow>
          let s1 = (case get_nowait (sub_q s) of Some (_, q) \<Rightarrow> s\<lparr>sub_q := q\<rparr> | None \<Rightarrow> s);
              s2 = s1\<lparr>sub_dropped := sub_dropped s1 + 1\<rparr>
          in (case put_nowait e (sub_q s2) of Some q \<Rightarrow> s2\<lparr>sub_q := q\<rparr> | None \<Rightarrow> s2))"

text \<open>A \<open>deque\<close> with \<open>maxlen\<close>: appending discards from the left.\<close>

definition newest :: "nat \<Rightarrow> 'a list \<Rightarrow> 'a list" where
  "newest n xs = drop (length xs - n) xs"

definition stamp :: "time \<Rightarrow> 'e \<Rightarrow> 'e bus \<Rightarrow> 'e stamped" where
  "stamp now e b = \<lparr>ev_seq = bus_seq b, ev_ts = round_time 1000 now, ev_body = e\<rparr>"

definition publish_nowait :: "time \<Rightarrow> 'e \<Rightarrow> 'e bus \<Rightarrow> 'e bus" where
  "publish_nowait now e b =
     (let ev = stamp now e b in
      b\<lparr>bus_seq := bus_seq b + 1, bus_ring := newest (bus_replay b) (bus_ring b @ [ev]),
        bus_subs := map (\<lambda>(i, s). (i, offer ev s)) (bus_subs b)\<rparr>)"

definition replay_since :: "int \<Rightarrow> 'e bus \<Rightarrow> 'e stamped list" where
  "replay_since n b = filter (\<lambda>e. ev_seq e > n) (bus_ring b)"

definition subscriber_count :: "'e bus \<Rightarrow> nat" where
  "subscriber_count b = length (bus_subs b)"

definition bus_subscribe :: "'e bus \<Rightarrow> nat \<times> 'e bus" where
  "bus_subscribe b =
     (bus_objects b, b\<lparr>bus_objects := bus_objects b + 1,
        bus_subs := (bus_objects b, new_subscriber) # bus_subs b\<rparr>)"

definition bus_unsubscribe :: "nat \<Rightarrow> 'e bus \<Rightarrow> 'e bus" where
  "bus_unsubscribe i b = b\<lparr>bus_subs := filter (\<lambda>(j, _). j \<noteq> i) (bus_subs b)\<rparr>"

text \<open>What the holder of a subscriber does with it.\<close>

definition with_subscriber :: "nat \<Rightarrow> ('e subscriber \<Rightarrow> 'e subscriber) \<Rightarrow> 'e bus \<Rightarrow> 'e bus" where
  "with_subscriber i f b = b\<lparr>bus_subs := map (\<lambda>(j, s). (j, if j = i then f s else s)) (bus_subs b)\<rparr>"

definition take_event :: "'e subscriber \<Rightarrow> 'e subscriber" where
  "take_event s = (case get_nowait (sub_q s) of None \<Rightarrow> s | Some (_, q) \<Rightarrow> s\<lparr>sub_q := q\<rparr>)"

definition forget_dropped :: "'e subscriber \<Rightarrow> 'e subscriber" where
  "forget_dropped s = s\<lparr>sub_dropped := 0\<rparr>"

text \<open>
  \<open>WorkerBridge\<close>: \<open>call_soon_threadsafe\<close> appends a callback to those that the loop has still to run, and
  raises \<open>RuntimeError\<close> on a closed loop.
\<close>

datatype loop_state = LOOP_NONE | LOOP_RUNNING | LOOP_CLOSED

record 'e bridge =
  br_loop :: loop_state
  br_callbacks :: "'e list"

definition new_bridge :: "'e bridge" where
  "new_bridge = \<lparr>br_loop = LOOP_NONE, br_callbacks = []\<rparr>"

definition bridge_bind :: "'e bridge \<Rightarrow> 'e bridge" where
  "bridge_bind br = br\<lparr>br_loop := LOOP_RUNNING\<rparr>"

definition call_soon_threadsafe :: "'e \<Rightarrow> 'e bridge \<Rightarrow> 'e bridge res" where
  "call_soon_threadsafe e br =
     (if br_loop br = LOOP_CLOSED then Inl RuntimeError
      else Inr (br\<lparr>br_callbacks := br_callbacks br @ [e]\<rparr>))"

definition bridge_emit :: "'e \<Rightarrow> 'e bridge \<Rightarrow> 'e bridge" where
  "bridge_emit e br =
     (if br_loop br = LOOP_NONE then br
      else case call_soon_threadsafe e br of Inl _ \<Rightarrow> br | Inr br' \<Rightarrow> br')"

text \<open>The loop runs the callbacks one by one.\<close>

definition bridge_hop :: "time \<Rightarrow> 'e bridge \<times> 'e bus \<Rightarrow> 'e bridge \<times> 'e bus" where
  "bridge_hop now = (\<lambda>(br, b). case br_callbacks br of
     [] \<Rightarrow> (br, b)
   | e # es \<Rightarrow> (br\<lparr>br_callbacks := es\<rparr>, publish_nowait now e b))"

section \<open>The newest part of a list\<close>

lemma length_newest [simp]: "length (newest n xs) = min n (length xs)"
  by (simp add: newest_def)

lemma newest_Nil [simp]: "newest n [] = []" "newest 0 xs = []"
  by (simp_all add: newest_def)

lemma newest_all: "length xs \<le> n \<Longrightarrow> newest n xs = xs"
  by (simp add: newest_def)

lemma newest_snoc: "newest (Suc n) (xs @ [x]) = newest n xs @ [x]"
  by (simp add: newest_def)

lemma newest_newest_snoc: "newest n (newest n xs @ [x]) = newest n (xs @ [x])"
proof (cases n)
  case (Suc k)
  have "length xs - (length xs - Suc k + k) + (length xs - Suc k) = length xs - k" by simp
  with Suc show ?thesis by (simp add: newest_snoc) (simp add: newest_def)
qed simp

lemma newest_Cons:
  assumes "newest n xs = y # ys" and "n \<le> length xs"
  shows "ys = newest (n - 1) xs"
proof -
  have "ys = drop 1 (newest n xs)" using assms(1) by simp
  moreover have "n \<noteq> 0" using assms(1) by (cases n) simp_all
  moreover have "Suc (length xs - n) = length xs - (n - 1)" using assms(2) \<open>n \<noteq> 0\<close> by simp
  ultimately show ?thesis by (simp add: newest_def)
qed

lemma newest_in: "x \<in> set xs \<Longrightarrow> x \<notin> set (newest n xs) \<Longrightarrow> x \<in> set (take (length xs - n) xs)"
  unfolding newest_def by (metis Un_iff append_take_drop_id set_append)

section \<open>The bus in any use\<close>

text \<open>
  One use of the bus, with the list of everything published so far, its history, beside it: an event is published, a
  client comes or goes, or the holder of a subscriber takes an event or resets its counter.
\<close>

datatype 'e bus_op =
    Publish time 'e
  | Subscribe
  | Unsubscribe nat
  | Take nat
  | Forget nat

fun bus_step :: "'e stamped list \<times> 'e bus \<Rightarrow> 'e bus_op \<Rightarrow> 'e stamped list \<times> 'e bus" where
  "bus_step (hist, b) (Publish now e) = (hist @ [stamp now e b], publish_nowait now e b)"
| "bus_step (hist, b) Subscribe = (hist, snd (bus_subscribe b))"
| "bus_step (hist, b) (Unsubscribe i) = (hist, bus_unsubscribe i b)"
| "bus_step (hist, b) (Take i) = (hist, with_subscriber i take_event b)"
| "bus_step (hist, b) (Forget i) = (hist, with_subscriber i forget_dropped b)"

text \<open>What a subscriber holds of the history.\<close>

definition holds_newest :: "'e stamped list \<Rightarrow> 'e subscriber \<Rightarrow> bool" where
  "holds_newest hist s \<longleftrightarrow> sub_q s = newest (length (sub_q s)) hist
     \<and> length (sub_q s) \<le> length hist \<and> length (sub_q s) \<le> QUEUE_DEPTH \<and> 0 \<le> sub_dropped s"

definition bus_ok :: "nat \<Rightarrow> 'e stamped list \<times> 'e bus \<Rightarrow> bool" where
  "bus_ok replay st \<longleftrightarrow> (case st of (hist, b) \<Rightarrow>
     bus_replay b = replay \<and> bus_seq b = int (length hist) + 1
     \<and> map ev_seq hist = map int [1..<Suc (length hist)] \<and> bus_ring b = newest replay hist
     \<and> (\<forall>(i, s) \<in> set (bus_subs b). i < bus_objects b \<and> holds_newest hist s)
     \<and> distinct (map fst (bus_subs b)))"

lemma holds_newest_new [simp]: "holds_newest hist new_subscriber"
  by (simp add: holds_newest_def new_subscriber_def)

lemma sub_q_offer:
  "sub_q (offer e s) = (if length (sub_q s) < QUEUE_DEPTH then sub_q s @ [e]
     else if length (sub_q s) = QUEUE_DEPTH then tl (sub_q s) @ [e] else tl (sub_q s))"
  by (cases "sub_q s") (auto simp: offer_def put_nowait_def get_nowait_def Let_def QUEUE_DEPTH_def)

lemma sub_dropped_offer:
  "sub_dropped (offer e s) = (if length (sub_q s) < QUEUE_DEPTH then sub_dropped s else sub_dropped s + 1)"
  by (cases "sub_q s") (auto simp: offer_def put_nowait_def get_nowait_def Let_def QUEUE_DEPTH_def)

lemma holds_newest_offer:
  assumes "holds_newest hist s"
  shows "holds_newest (hist @ [e]) (offer e s)"
proof (cases "length (sub_q s) < QUEUE_DEPTH")
  case True
  then show ?thesis
    using assms by (auto simp: holds_newest_def sub_q_offer sub_dropped_offer newest_snoc)
next
  case False
  then have l: "length (sub_q s) = QUEUE_DEPTH" using assms by (simp add: holds_newest_def)
  then obtain y ys where q: "sub_q s = y # ys" by (cases "sub_q s") (auto simp: QUEUE_DEPTH_def)
  then have "newest QUEUE_DEPTH hist = y # ys" "QUEUE_DEPTH \<le> length hist"
    using assms l by (auto simp: holds_newest_def)
  from newest_Cons [OF this] have ys: "ys = newest (QUEUE_DEPTH - 1) hist" .
  have "newest QUEUE_DEPTH (hist @ [e]) = ys @ [e]"
    unfolding ys using newest_snoc [of "QUEUE_DEPTH - 1" hist e] by (simp add: QUEUE_DEPTH_def)
  moreover have "tl (sub_q s) = ys" and "length (ys @ [e]) = QUEUE_DEPTH" using q l by simp_all
  moreover have "QUEUE_DEPTH \<le> length hist + 1" using l assms by (simp add: holds_newest_def)
  moreover have "sub_q (offer e s) = tl (sub_q s) @ [e]" using l by (simp add: sub_q_offer)
  ultimately show ?thesis
    using assms unfolding holds_newest_def by (simp add: sub_dropped_offer)
qed

lemma holds_newest_take:
  assumes "holds_newest hist s"
  shows "holds_newest hist (take_event s)"
proof (cases "sub_q s")
  case (Cons e q)
  then have "newest (length (sub_q s)) hist = e # q" "length (sub_q s) \<le> length hist"
    using assms by (auto simp: holds_newest_def)
  from newest_Cons [OF this] Cons have "q = newest (length q) hist" by simp
  moreover have "take_event s = s\<lparr>sub_q := q\<rparr>" using Cons by (simp add: take_event_def get_nowait_def)
  moreover have "length (sub_q s) = length q + 1" using Cons by simp
  ultimately show ?thesis using assms by (simp add: holds_newest_def)
qed (use assms in \<open>simp add: take_event_def get_nowait_def\<close>)

lemma holds_newest_forget: "holds_newest hist s \<Longrightarrow> holds_newest hist (forget_dropped s)"
  by (simp add: holds_newest_def forget_dropped_def)

lemma map_fst_subs [simp]: "map (fst \<circ> (\<lambda>(i, s). (i, f i s))) xs = map fst xs"
  by (induction xs) auto

lemma bus_ok_new [simp]: "bus_ok replay ([], new_bus replay)"
  by (simp add: bus_ok_def new_bus_def)

lemma bus_ok_publish:
  assumes "bus_ok replay (hist, b)"
  shows "bus_ok replay (hist @ [stamp now e b], publish_nowait now e b)"
  using assms
  by (auto simp: bus_ok_def publish_nowait_def Let_def newest_newest_snoc stamp_def holds_newest_offer)

lemma bus_ok_with:
  "bus_ok replay (hist, b) \<Longrightarrow> (\<And>s. holds_newest hist s \<Longrightarrow> holds_newest hist (f s))
    \<Longrightarrow> bus_ok replay (hist, with_subscriber i f b)"
  by (auto simp: bus_ok_def with_subscriber_def)

lemma bus_ok_step: "bus_ok replay st \<Longrightarrow> bus_ok replay (bus_step st oper)"
proof (induction st oper rule: bus_step.induct)
  case (1 hist b now e)
  then show ?case using bus_ok_publish by simp
next
  case (2 hist b)
  then show ?case
    by (auto simp: bus_ok_def bus_subscribe_def less_Suc_eq)
next
  case (3 hist b i)
  then show ?case by (auto simp: bus_ok_def bus_unsubscribe_def distinct_map_filter)
next
  case (4 hist b i)
  then show ?case by (simp add: bus_ok_with holds_newest_take)
next
  case (5 hist b i)
  then show ?case by (simp add: bus_ok_with holds_newest_forget)
qed

interpretation bus_run: stepper bus_step "bus_ok replay" for replay :: nat
  by unfold_locales (rule bus_ok_step)

lemma replay_since_hist:
  assumes "bus_ok replay (hist, b)" and "length hist \<le> n + replay"
  shows "replay_since (int n) b = drop n hist"
proof -
  have m: "map ev_seq hist = map int [1..<Suc (length hist)]" using assms(1) by (simp add: bus_ok_def)
  have seq: "ev_seq (hist ! k) = int k + 1" if "k < length hist" for k
  proof -
    have "ev_seq (hist ! k) = map ev_seq hist ! k" using that by simp
    also have "\<dots> = int k + 1" unfolding m using that by (simp del: upt_Suc)
    finally show ?thesis .
  qed
  let ?m = "length hist - replay"
  have ring: "bus_ring b = drop ?m hist" using assms(1) by (simp add: bus_ok_def newest_def)
  have "filter (\<lambda>e. ev_seq e > int n) (take (n - ?m) (drop ?m hist)) = []"
    using assms(2) seq by (auto simp: filter_empty_conv in_set_conv_nth)
  moreover have "filter (\<lambda>e. ev_seq e > int n) (drop (n - ?m) (drop ?m hist)) = drop (n - ?m) (drop ?m hist)"
    using assms(2) seq by (auto simp: filter_id_conv in_set_conv_nth)
  ultimately have "replay_since (int n) b = drop (n - ?m) (drop ?m hist)"
    unfolding replay_since_def ring by (metis append_Nil append_take_drop_id filter_append)
  with assms(2) show ?thesis by simp
qed

lemma offer_eq:
  "length (sub_q s) \<le> QUEUE_DEPTH \<Longrightarrow> offer e s
    = (if length (sub_q s) < QUEUE_DEPTH then s\<lparr>sub_q := sub_q s @ [e]\<rparr>
       else s\<lparr>sub_q := tl (sub_q s) @ [e], sub_dropped := sub_dropped s + 1\<rparr>)"
  by (cases "sub_q s") (auto simp: offer_def put_nowait_def get_nowait_def Let_def QUEUE_DEPTH_def)

text \<open>What the worker emits reaches the bus in the order of the calls, and nothing before the binding.\<close>

lemma bridge_emits:
  "foldl (\<lambda>br e. bridge_emit e br) br es
    = (if br_loop br = LOOP_RUNNING then br\<lparr>br_callbacks := br_callbacks br @ es\<rparr> else br)"
  by (induction es arbitrary: br) (auto simp: bridge_emit_def call_soon_threadsafe_def intro: loop_state.exhaust)

lemma bridge_hops:
  "br_callbacks br = es \<Longrightarrow> ((bridge_hop now) ^^ length es) (br, b)
    = (br\<lparr>br_callbacks := []\<rparr>, foldl (\<lambda>b e. publish_nowait now e b) b es)"
  by (induction es arbitrary: br b) (simp_all add: funpow_swap1 bridge_hop_def)

section \<open>Properties\<close>

text \<open>
  C32: however the bus is used, nothing that matters to a client is lost without a trace. Events are
  numbered without a hole; a client that was not more than the ring's length behind gets exactly the
  events it missed; every queue is the newest part of the history, in order, and never longer than its
  bound; publishing never blocks: a full queue loses its oldest event and counts it.
\<close>

theorem bus_keeps_newest:
  assumes "foldl bus_step ([], new_bus replay) ops = (hist, b)"
  shows "map ev_seq hist = map int [1..<Suc (length hist)]
    \<and> (\<forall>n. length hist \<le> n + replay \<longrightarrow> replay_since (int n) b = drop n hist)
    \<and> (\<forall>(i, s) \<in> set (bus_subs b).
          sub_q s = newest (length (sub_q s)) hist \<and> length (sub_q s) \<le> QUEUE_DEPTH)
    \<and> (\<forall>now e. bus_subs (publish_nowait now e b) = map (\<lambda>(i, s). (i,
          if length (sub_q s) < QUEUE_DEPTH then s\<lparr>sub_q := sub_q s @ [stamp now e b]\<rparr>
          else s\<lparr>sub_q := tl (sub_q s) @ [stamp now e b], sub_dropped := sub_dropped s + 1\<rparr>)) (bus_subs b))"
proof -
  have ok: "bus_ok replay (hist, b)"
    using bus_run.inv_run [OF bus_ok_new [of replay], of ops] assms by simp
  then have q: "\<forall>(i, s) \<in> set (bus_subs b).
      sub_q s = newest (length (sub_q s)) hist \<and> length (sub_q s) \<le> QUEUE_DEPTH"
    by (auto simp: bus_ok_def holds_newest_def)
  then have "bus_subs (publish_nowait now e b) = map (\<lambda>(i, s). (i,
      if length (sub_q s) < QUEUE_DEPTH then s\<lparr>sub_q := sub_q s @ [stamp now e b]\<rparr>
      else s\<lparr>sub_q := tl (sub_q s) @ [stamp now e b], sub_dropped := sub_dropped s + 1\<rparr>)) (bus_subs b)" for now e
    by (auto simp: publish_nowait_def Let_def intro!: map_cong offer_eq)
  with q ok replay_since_hist [OF ok] show ?thesis by (auto simp: bus_ok_def)
qed

theorem bus_keeps_newest_witness:
  "map ev_body (replay_since 1 (snd (foldl bus_step ([], new_bus 2)
     [Subscribe, Publish 0 CHR ''a'', Publish 0 CHR ''b'', Take 0, Publish 0 CHR ''c'']))) = ''bc''"
    (is "map ev_body (replay_since 1 (snd ?r)) = _")
proof (cases ?r)
  case (Pair hist b)
  have h: "map ev_body hist = ''abc''" using arg_cong [OF Pair, of "\<lambda>r. map ev_body (fst r)"] by (simp add: stamp_def)
  have "length (map ev_body hist) = 3" unfolding h by simp
  then have "length hist = 3" by (simp only: length_map)
  with bus_keeps_newest [OF Pair, THEN conjunct2, THEN conjunct1, THEN spec, of 1]
  have "replay_since (int 1) b = drop 1 hist" by linarith
  then have "map ev_body (replay_since 1 b) = drop 1 (map ev_body hist)" by (simp add: drop_map)
  then show ?thesis unfolding h Pair by simp
qed

end
