(* ===== verification/Websocket.thy ===== *)
theory Websocket
  imports Events
begin

text \<open>
  \<open>api/app.py\<close>, lines 368 to 400: the stream of events to one WebSocket client, on the bus.

  The coroutine \<open>events\<close> is cut where it awaits: every \<open>send_json\<close>, and \<open>get\<close> on an empty queue.
  Between two awaits it runs alone; at an await other coroutines and callbacks use the bus. A message
  counts as sent when \<open>send_json\<close> is called with it; the snapshot that it carries is that of the worker
  at that moment, an argument here. \<open>ws_seen\<close> is not in the code: it is the number of the last event
  that had been published when the last snapshot was taken, which that snapshot therefore covers.

  Property: an event is never lost without a sign, however publishing interleaves with the sends. The
  last lemma shows an event that is delivered twice.
\<close>

section \<open>The coroutine\<close>

datatype 'e ws_msg =
    WsSnapshot snap
  | WsResync int
  | WsEvent "'e stamped"

datatype 'e ws_phase =
    WS_OPENED
  | WS_REPLAY "'e stamped list"
  | WS_WAIT
  | WS_RESYNC "'e stamped"
  | WS_SNAPSHOT "'e stamped"
  | WS_SENT
  | WS_GONE

record 'e ws =
  ws_sub :: nat
  ws_since :: int
  ws_phase :: "'e ws_phase"
  ws_out :: "'e ws_msg list"
  ws_seen :: int

definition ws_send :: "'e ws_msg \<Rightarrow> 'e ws_phase \<Rightarrow> 'e ws \<Rightarrow> 'e ws" where
  "ws_send m ph ws = ws\<lparr>ws_out := ws_out ws @ [m], ws_phase := ph\<rparr>"

definition ws_accept :: "int \<Rightarrow> snap \<Rightarrow> 'e bus \<Rightarrow> 'e bus \<times> 'e ws" where
  "ws_accept since sn b =
     (let (i, b') = bus_subscribe b in
      (b', \<lparr>ws_sub = i, ws_since = since, ws_phase = WS_OPENED, ws_out = [WsSnapshot sn], ws_seen = bus_seq b' - 1\<rparr>))"

definition sub_of :: "'e ws \<Rightarrow> 'e bus \<Rightarrow> 'e subscriber" where
  "sub_of ws b = (case map_of (bus_subs b) (ws_sub ws) of Some s \<Rightarrow> s | None \<Rightarrow> new_subscriber)"

text \<open>The top of the endless loop.\<close>

definition ws_next :: "'e bus \<Rightarrow> 'e ws \<Rightarrow> 'e bus \<times> 'e ws" where
  "ws_next b ws =
     (case get_nowait (sub_q (sub_of ws b)) of
        None \<Rightarrow> (b, ws\<lparr>ws_phase := WS_WAIT\<rparr>)
      | Some (ev, _) \<Rightarrow>
          (let b' = with_subscriber (ws_sub ws) take_event b in
           if sub_dropped (sub_of ws b) \<noteq> 0
           then (b', ws_send (WsResync (sub_dropped (sub_of ws b))) (WS_RESYNC ev) ws)
           else (b', ws_send (WsEvent ev) WS_SENT ws)))"

definition ws_replay :: "'e stamped list \<Rightarrow> 'e bus \<Rightarrow> 'e ws \<Rightarrow> 'e bus \<times> 'e ws" where
  "ws_replay evs b ws =
     (case evs of
        [] \<Rightarrow> ws_next b ws
      | ev # evs' \<Rightarrow> (b, ws_send (WsEvent ev) (WS_REPLAY evs') ws))"

text \<open>The await that the coroutine is in has ended.\<close>

definition ws_resume :: "snap \<Rightarrow> 'e bus \<Rightarrow> 'e ws \<Rightarrow> 'e bus \<times> 'e ws" where
  "ws_resume sn b ws =
     (case ws_phase ws of
        WS_OPENED \<Rightarrow> if ws_since ws \<noteq> 0 then ws_replay (replay_since (ws_since ws) b) b ws else ws_next b ws
      | WS_REPLAY evs \<Rightarrow> ws_replay evs b ws
      | WS_WAIT \<Rightarrow> ws_next b ws
      | WS_RESYNC ev \<Rightarrow>
          (with_subscriber (ws_sub ws) forget_dropped b,
           ws_send (WsSnapshot sn) (WS_SNAPSHOT ev) (ws\<lparr>ws_seen := bus_seq b - 1\<rparr>))
      | WS_SNAPSHOT ev \<Rightarrow> (b, ws_send (WsEvent ev) WS_SENT ws)
      | WS_SENT \<Rightarrow> ws_next b ws
      | WS_GONE \<Rightarrow> (b, ws))"

text \<open>A send that raises: the handlers swallow it and \<open>finally\<close> unsubscribes.\<close>

definition ws_leave :: "'e bus \<Rightarrow> 'e ws \<Rightarrow> 'e bus \<times> 'e ws" where
  "ws_leave b ws = (bus_unsubscribe (ws_sub ws) b, ws\<lparr>ws_phase := WS_GONE\<rparr>)"

text \<open>
  A client among others: the bus is used in any way that leaves this client's subscriber alone, or its
  coroutine goes on, or it ends.
\<close>

fun others_use :: "nat \<Rightarrow> 'e bus_op \<Rightarrow> bool" where
  "others_use i (Unsubscribe j) = (j \<noteq> i)"
| "others_use i (Take j) = (j \<noteq> i)"
| "others_use i (Forget j) = (j \<noteq> i)"
| "others_use i _ = True"

inductive ws_step ::
  "'e stamped list \<times> 'e bus \<times> 'e ws \<Rightarrow> 'e stamped list \<times> 'e bus \<times> 'e ws \<Rightarrow> bool" where
  other: "others_use (ws_sub ws) oper \<Longrightarrow> bus_step (hist, b) oper = (hist', b')
    \<Longrightarrow> ws_step (hist, b, ws) (hist', b', ws)"
| resume: "ws_resume sn b ws = (b', ws') \<Longrightarrow> ws_step (hist, b, ws) (hist, b', ws')"
| leave: "ws_leave b ws = (b', ws') \<Longrightarrow> ws_step (hist, b, ws) (hist, b', ws')"

inductive ws_reachable :: "'e stamped list \<times> 'e bus \<times> 'e ws \<Rightarrow> bool" where
  accept: "foldl bus_step ([], new_bus replay) ops = (hist, b) \<Longrightarrow> ws_accept since sn b = (b', ws)
    \<Longrightarrow> ws_reachable (hist, b', ws)"
| more: "ws_reachable st \<Longrightarrow> ws_step st st' \<Longrightarrow> ws_reachable st'"

inductive_cases ws_stepE: "ws_step st st'"

section \<open>What becomes of an event\<close>

definition held :: "'e ws_phase \<Rightarrow> 'e stamped list" where
  "held ph = (case ph of WS_RESYNC ev \<Rightarrow> [ev] | WS_SNAPSHOT ev \<Rightarrow> [ev] | _ \<Rightarrow> [])"

text \<open>
  Sent; taken off the queue and to be sent next; in the queue; covered by a snapshot sent after it was
  published; or one of those dropped since, which the next message will announce.
\<close>

definition accounted :: "'e subscriber \<Rightarrow> 'e ws \<Rightarrow> 'e stamped \<Rightarrow> bool" where
  "accounted s ws ev \<longleftrightarrow> WsEvent ev \<in> set (ws_out ws) \<or> ev \<in> set (held (ws_phase ws)) \<or> ev \<in> set (sub_q s)
     \<or> ev_seq ev \<le> ws_seen ws \<or> 0 < sub_dropped s"

definition ws_ok :: "'e stamped list \<times> 'e bus \<times> 'e ws \<Rightarrow> bool" where
  "ws_ok st \<longleftrightarrow> (case st of (hist, b, ws) \<Rightarrow>
     (\<exists>replay. bus_ok replay (hist, b)) \<and> ws_sub ws < bus_objects b
     \<and> (case map_of (bus_subs b) (ws_sub ws) of
          None \<Rightarrow> ws_phase ws = WS_GONE
        | Some s \<Rightarrow> ws_phase ws \<noteq> WS_GONE \<and> (\<forall>ev \<in> set hist. accounted s ws ev)))"

lemma map_of_map_snd: "map_of (map (\<lambda>(i, s). (i, f i s)) xs) i = map_option (f i) (map_of xs i)"
  by (induction xs) auto

lemma map_of_filter_other: "i \<noteq> j \<Longrightarrow> map_of (filter (\<lambda>(k, _). k \<noteq> j) xs) i = map_of xs i"
  by (induction xs) auto

lemma map_of_filter_same: "map_of (filter (\<lambda>(k, _). k \<noteq> i) xs) i = None"
  by (induction xs) auto

lemma map_of_publish: "map_of (bus_subs (publish_nowait now e b)) i = map_option (offer (stamp now e b)) (map_of (bus_subs b) i)"
  by (simp add: publish_nowait_def Let_def map_of_map_snd)

lemma bus_objects_simps [simp]:
  "bus_objects (publish_nowait now e b) = bus_objects b" "bus_objects (with_subscriber j f b) = bus_objects b"
  "bus_objects (bus_unsubscribe j b) = bus_objects b"
  by (simp_all add: publish_nowait_def Let_def with_subscriber_def bus_unsubscribe_def)

lemma map_of_with:
  "map_of (bus_subs (with_subscriber j f b)) i = map_option (\<lambda>s. if i = j then f s else s) (map_of (bus_subs b) i)"
  by (simp add: with_subscriber_def map_of_map_snd [of "\<lambda>k s. if k = j then f s else s"])

lemma map_of_with_other: "i \<noteq> j \<Longrightarrow> map_of (bus_subs (with_subscriber j f b)) i = map_of (bus_subs b) i"
  by (simp add: map_of_with option.map_ident)

lemma hist_seq_le:
  assumes "bus_ok replay (hist, b)" and "e \<in> set hist"
  shows "ev_seq e \<le> bus_seq b - 1"
proof -
  have m: "map ev_seq hist = map int [1..<Suc (length hist)]" and n: "bus_seq b = int (length hist) + 1"
    using assms(1) by (simp_all add: bus_ok_def)
  have "ev_seq e \<in> set (map ev_seq hist)" using assms(2) by simp
  then have "ev_seq e \<in> set (map int [1..<Suc (length hist)])" unfolding m .
  with n show ?thesis by auto
qed

lemma accounted_offer:
  assumes "accounted s ws ev" and "0 \<le> sub_dropped s"
  shows "accounted (offer e s) ws ev"
  using assms by (cases "length (sub_q s) < QUEUE_DEPTH") (auto simp: accounted_def sub_q_offer sub_dropped_offer)

lemma accounted_offered: "length (sub_q s) \<le> QUEUE_DEPTH \<Longrightarrow> accounted (offer e s) ws e"
  by (auto simp: accounted_def sub_q_offer)

lemma bus_ok_sub: "bus_ok replay (hist, b) \<Longrightarrow> map_of (bus_subs b) i = Some s \<Longrightarrow> i < bus_objects b \<and> holds_newest hist s"
  by (auto simp: bus_ok_def dest!: map_of_SomeD)

lemma ws_ok_other:
  assumes ok: "ws_ok (hist, b, ws)" and "others_use (ws_sub ws) oper"
  shows "ws_ok (fst (bus_step (hist, b) oper), snd (bus_step (hist, b) oper), ws)"
proof -
  obtain replay where bus: "bus_ok replay (hist, b)" using ok by (auto simp: ws_ok_def)
  from bus_ok_step [OF bus, of oper] have bus': "bus_ok replay (bus_step (hist, b) oper)" .
  show ?thesis
  proof (cases oper)
    case (Publish now e)
    show ?thesis
    proof (cases "map_of (bus_subs b) (ws_sub ws)")
      case (Some s)
      from bus_ok_sub [OF bus Some] have "holds_newest hist s" by simp
      with ok Some Publish show ?thesis
        using bus' by (auto simp: ws_ok_def map_of_publish holds_newest_def accounted_offer accounted_offered)
    qed (use ok Publish bus' in \<open>auto simp: ws_ok_def map_of_publish\<close>)
  next
    case Subscribe
    with ok bus' show ?thesis by (auto simp: ws_ok_def bus_subscribe_def)
  next
    case (Unsubscribe j)
    with ok bus' assms(2) show ?thesis by (auto simp: ws_ok_def bus_unsubscribe_def map_of_filter_other)
  next
    case (Take j)
    with ok bus' assms(2) show ?thesis
      by (auto simp: ws_ok_def map_of_with_other)
  next
    case (Forget j)
    with ok bus' assms(2) show ?thesis
      by (auto simp: ws_ok_def map_of_with_other)
  qed
qed

lemma sub_of_eq: "map_of (bus_subs b) (ws_sub ws) = Some s \<Longrightarrow> sub_of ws b = s"
  by (simp add: sub_of_def)

lemma accounted_send:
  "accounted s ws ev \<Longrightarrow> held (ws_phase ws) = [] \<Longrightarrow> accounted s (ws_send m ph ws) ev"
  by (auto simp: accounted_def ws_send_def)

lemma accounted_take:
  assumes "accounted s ws ev" and "get_nowait (sub_q s) = Some (e, q)" and "held (ws_phase ws) = []"
  shows "accounted (take_event s) (ws_send (WsEvent e) WS_SENT ws) ev"
    and "accounted (take_event s) (ws_send (WsResync n) (WS_RESYNC e) ws) ev"
  using assms by (auto simp: accounted_def ws_send_def take_event_def get_nowait_def held_def split: list.splits)

lemma sub_of_None: "map_of (bus_subs b) (ws_sub ws) = None \<Longrightarrow> sub_q (sub_of ws b) = []"
  by (simp add: sub_of_def new_subscriber_def)

lemma ws_sub_send [simp]: "ws_sub (ws_send m ph ws) = ws_sub ws" "ws_phase (ws_send m ph ws) = ph"
  by (simp_all add: ws_send_def)

lemma ws_ok_next:
  assumes ok: "ws_ok (hist, b, ws)" and "ws_phase ws \<noteq> WS_GONE" and h: "held (ws_phase ws) = []"
    and "ws_next b ws = (b', ws')"
  shows "ws_ok (hist, b', ws')"
proof -
  obtain s where s: "map_of (bus_subs b) (ws_sub ws) = Some s" and a: "\<forall>ev \<in> set hist. accounted s ws ev"
    and i: "ws_sub ws < bus_objects b"
    using ok assms(2) by (auto simp: ws_ok_def split: option.splits)
  obtain replay where bus: "bus_ok replay (hist, b)" using ok by (auto simp: ws_ok_def)
  have bus': "bus_ok replay (hist, with_subscriber (ws_sub ws) take_event b)"
    using bus_ok_step [OF bus, of "Take (ws_sub ws)"] by simp
  show ?thesis
  proof (cases "get_nowait (sub_q s)")
    case None
    then have "b' = b" "ws' = ws\<lparr>ws_phase := WS_WAIT\<rparr>" using assms(4) s by (simp_all add: ws_next_def sub_of_eq)
    with bus s a i h show ?thesis by (auto simp: ws_ok_def accounted_def held_def)
  next
    case (Some p)
    then obtain e q where q: "get_nowait (sub_q s) = Some (e, q)" by (cases p) simp
    note t = accounted_take [OF _ q h]
    have "b' = with_subscriber (ws_sub ws) take_event b"
      using assms(4) s q by (simp add: ws_next_def sub_of_eq Let_def split: if_splits)
    moreover have "ws' = (if sub_dropped s \<noteq> 0 then ws_send (WsResync (sub_dropped s)) (WS_RESYNC e) ws
              else ws_send (WsEvent e) WS_SENT ws)"
      using assms(4) s q by (simp add: ws_next_def sub_of_eq Let_def split: if_splits)
    ultimately show ?thesis using bus' s a i by (auto simp: ws_ok_def map_of_with intro: t)
  qed
qed

lemma ws_ok_replay:
  assumes "ws_ok (hist, b, ws)" and "ws_phase ws \<noteq> WS_GONE" and "held (ws_phase ws) = []"
    and "ws_replay evs b ws = (b', ws')"
  shows "ws_ok (hist, b', ws')"
proof (cases evs)
  case Nil
  with assms show ?thesis using ws_ok_next by (simp add: ws_replay_def)
next
  case (Cons e es)
  with assms have "b' = b" "ws' = ws_send (WsEvent e) (WS_REPLAY es) ws" by (simp_all add: ws_replay_def)
  with assms show ?thesis by (auto simp: ws_ok_def accounted_send split: option.splits)
qed

lemma ws_ok_resume:
  assumes ok: "ws_ok (hist, b, ws)" and r: "ws_resume sn b ws = (b', ws')"
  shows "ws_ok (hist, b', ws')"
proof (cases "ws_phase ws")
  case (WS_RESYNC ev)
  obtain s replay where s: "map_of (bus_subs b) (ws_sub ws) = Some s" and i: "ws_sub ws < bus_objects b"
    and bus: "bus_ok replay (hist, b)"
    using ok WS_RESYNC by (auto simp: ws_ok_def split: option.splits)
  with r WS_RESYNC s i bus_ok_step [OF bus, of "Forget (ws_sub ws)"] hist_seq_le [OF bus] show ?thesis
    by (auto simp: ws_resume_def ws_ok_def map_of_with accounted_def ws_send_def)
next
  case (WS_SNAPSHOT ev)
  with ok r show ?thesis
    by (auto simp: ws_resume_def ws_ok_def accounted_def ws_send_def held_def split: option.splits)
qed (use ok r in \<open>auto simp: ws_resume_def held_def split: if_splits intro: ws_ok_next ws_ok_replay\<close>)

lemma ws_ok_leave: "ws_ok (hist, b, ws) \<Longrightarrow> ws_leave b ws = (b', ws') \<Longrightarrow> ws_ok (hist, b', ws')"
  using bus_ok_step [of _ "(hist, b)" "Unsubscribe (ws_sub ws)"]
  by (auto simp: ws_leave_def ws_ok_def map_of_filter_same bus_unsubscribe_def)

lemma ws_ok_accept:
  assumes "bus_ok replay (hist, b)" and "ws_accept since sn b = (b', ws)"
  shows "ws_ok (hist, b', ws)"
proof -
  have b: "b' = snd (bus_subscribe b)" and ws: "ws = \<lparr>ws_sub = bus_objects b, ws_since = since, ws_phase = WS_OPENED,
      ws_out = [WsSnapshot sn], ws_seen = bus_seq b - 1\<rparr>"
    using assms(2) by (auto simp: ws_accept_def bus_subscribe_def Let_def)
  show ?thesis
    using bus_ok_step [OF assms(1), of Subscribe] hist_seq_le [OF assms(1)] unfolding b ws
    by (auto simp: ws_ok_def accounted_def bus_subscribe_def)
qed

lemma ws_ok_reachable: "ws_reachable st \<Longrightarrow> ws_ok st"
proof (induction rule: ws_reachable.induct)
  case (accept replay ops hist b since sn b' ws)
  then have "bus_ok replay (hist, b)" using bus_run.inv_run [OF bus_ok_new [of replay], of ops] by simp
  with accept show ?case using ws_ok_accept by blast
next
  case (more st st')
  from more.hyps(2) more.IH show ?case
  proof (cases rule: ws_step.cases)
    case (other ws oper hist b hist' b')
    then show ?thesis using ws_ok_other [of hist b ws oper] more.IH by simp
  qed (use more.IH in \<open>auto intro: ws_ok_resume ws_ok_leave\<close>)
qed

section \<open>Properties\<close>


definition test_snap :: snap where
  "test_snap = \<lparr>sn_state = CONNECTED, sn_port = ''/dev/ttyUSB0'', sn_monitor = DUTY_CYCLED, sn_alarm_mode = POLLED,
     sn_address = Some 1, sn_tilt = Some 4, sn_target_tilt = None, sn_alarms = [], sn_identity = [],
     sn_queue_depth = 0, sn_leased_for = 0, sn_port_pinned = False, sn_last_error = [],
     sn_heartbeat_age = 10, sn_stats = None, sn_fcs_errors = 0\<rparr>"

text \<open>One client, connected with \<open>since\<close> after two events, and one more while its first snapshot is sent.\<close>

definition connected_client :: "int \<Rightarrow> char stamped list \<times> char bus \<times> char ws" where
  "connected_client since =
     (let (hist, b) = foldl bus_step ([], new_bus 5) [Publish 0 CHR ''a'', Publish 0 CHR ''b''];
          (b, ws) = ws_accept since test_snap b;
          (hist, b) = bus_step (hist, b) (Publish 0 CHR ''c'')
      in (hist, b, ws))"

lemma connected_client_reachable: "ws_reachable (connected_client since)"
proof -
  obtain hist b where p: "foldl bus_step ([], new_bus 5) [Publish 0 CHR ''a'', Publish 0 CHR ''b''] = (hist, b)"
    by (metis prod.exhaust)
  obtain b1 ws where a: "ws_accept since test_snap b = (b1, ws)" by (metis prod.exhaust)
  obtain hist' b2 where o: "bus_step (hist, b1) (Publish 0 CHR ''c'') = (hist', b2)" by (metis prod.exhaust)
  have "connected_client since = (hist', b2, ws)"
    unfolding connected_client_def p Let_def case_prod_conv a o ..
  moreover have "ws_step (hist, b1, ws) (hist', b2, ws)" by (rule ws_step.other [OF _ o]) simp
  ultimately show ?thesis using ws_reachable.more [OF ws_reachable.accept [OF p a]] by simp
qed


text \<open>
  The third event is in the ring when it is replayed, and in the queue as well: the client gets it twice.
\<close>

lemma replay_duplicates:
  "(let (hist, b, ws) = connected_client 1;
        (b, ws) = ws_resume test_snap b ws; (b, ws) = ws_resume test_snap b ws; (b, ws) = ws_resume test_snap b ws
    in map (\<lambda>m. case m of WsEvent e \<Rightarrow> ev_seq e | _ \<Rightarrow> 0) (ws_out ws)) = [0, 2, 3, 3]"
  by (simp add: connected_client_def ws_accept_def bus_subscribe_def new_bus_def publish_nowait_def
        stamp_def Let_def new_subscriber_def offer_eq QUEUE_DEPTH_def ws_resume_def ws_replay_def replay_since_def
        newest_def ws_send_def ws_next_def sub_of_def get_nowait_def)

end
