(* ===== verification/Jobs.thy ===== *)
theory Jobs
  imports Events
begin

text \<open>
  \<open>api/jobs.py\<close> and the callback \<open>finish\<close> of \<open>api/app.py\<close>: the records of operations that outlive their
  HTTP request. The identifier that \<open>uuid4\<close> draws is an argument; the code relies on it being new. A job
  is one object, which the store and the callback share: the callback changes what the store shows, if
  it still holds the job.

  Property: the store holds exactly the most recent jobs up to its limit and can always list them.
\<close>

section \<open>One job\<close>

datatype job_state = JOB_RUNNING | JOB_DONE | JOB_FAILED

record job =
  job_id :: string
  job_command :: string
  job_args :: cmd_args
  job_state :: job_state
  job_result :: "cmd_result option"
  job_error :: "string option"
  job_started :: time
  job_finished :: "time option"

definition new_job :: "string \<Rightarrow> string \<Rightarrow> cmd_args \<Rightarrow> time \<Rightarrow> job" where
  "new_job jid command args now =
     \<lparr>job_id = jid, job_command = command, job_args = args, job_state = JOB_RUNNING, job_result = None,
      job_error = None, job_started = now, job_finished = None\<rparr>"

text \<open>The dictionary of \<open>as_dict\<close>; a field is \<open>None\<close> when the key is absent.\<close>

record job_view =
  jv_id :: string
  jv_command :: string
  jv_args :: cmd_args
  jv_state :: job_state
  jv_started :: int
  jv_result :: "cmd_result option"
  jv_error :: "string option"
  jv_finished :: "int option"
  jv_duration :: "int option"

definition as_dict :: "job \<Rightarrow> job_view" where
  "as_dict j =
     \<lparr>jv_id = job_id j, jv_command = job_command j, jv_args = job_args j, jv_state = job_state j,
      jv_started = round_time 1000 (job_started j), jv_result = job_result j,
      jv_error = (case job_error j of Some m \<Rightarrow> if m \<noteq> [] then Some m else None | None \<Rightarrow> None),
      jv_finished = (case job_finished j of
          Some t \<Rightarrow> if t \<noteq> 0 then Some (round_time 1000 t) else None | None \<Rightarrow> None),
      jv_duration = (case job_finished j of
          Some t \<Rightarrow> if t \<noteq> 0 then Some (round_time 10000 (t - job_started j)) else None | None \<Rightarrow> None)\<rparr>"

text \<open>\<open>finish\<close>: a command that returns \<open>None\<close> leaves \<open>result\<close> at \<open>None\<close>.\<close>

definition finish_job :: "cmd_result res \<Rightarrow> time \<Rightarrow> job \<Rightarrow> job" where
  "finish_job outcome now j =
     (case outcome of
        Inr r \<Rightarrow> j\<lparr>job_result := (if r = RNone then None else Some r), job_state := JOB_DONE\<rparr>
      | Inl e \<Rightarrow> j\<lparr>job_error := Some (exn_text e), job_state := JOB_FAILED\<rparr>)\<lparr>job_finished := Some now\<rparr>"

section \<open>The store\<close>

record job_store =
  js_jobs :: "string \<rightharpoonup> job"
  js_order :: "string list"
  js_limit :: int

definition job_limit :: int where "job_limit = 200"

definition new_store :: "int \<Rightarrow> job_store" where
  "new_store limit = \<lparr>js_jobs = Map.empty, js_order = [], js_limit = limit\<rparr>"

text \<open>The loop of \<open>create\<close>; a negative limit pops from the empty list.\<close>

fun trim_jobs :: "int \<Rightarrow> (string \<rightharpoonup> job) \<Rightarrow> string list \<Rightarrow> ((string \<rightharpoonup> job) \<times> string list) res" where
  "trim_jobs limit jobs [] = (if 0 > limit then Inl IndexError else Inr (jobs, []))"
| "trim_jobs limit jobs (i # order) =
     (if int (length (i # order)) > limit then trim_jobs limit (jobs(i := None)) order
      else Inr (jobs, i # order))"

definition create_job :: "string \<Rightarrow> string \<Rightarrow> cmd_args \<Rightarrow> time \<Rightarrow> (job_store, job) io" where
  "create_job jid command args now st =
     (let job = new_job jid command args now in
      case trim_jobs (js_limit st) ((js_jobs st)(jid \<mapsto> job)) (js_order st @ [jid]) of
        Inl e \<Rightarrow> (Inl e, st\<lparr>js_jobs := Map.empty, js_order := []\<rparr>)
      | Inr (jobs, order) \<Rightarrow> (Inr job, st\<lparr>js_jobs := jobs, js_order := order\<rparr>))"

definition get_job :: "string \<Rightarrow> job_store \<Rightarrow> job option" where
  "get_job jid st = js_jobs st jid"

fun views :: "(string \<rightharpoonup> job) \<Rightarrow> string list \<Rightarrow> job_view list res" where
  "views jobs [] = Inr []"
| "views jobs (i # is) =
     (case jobs i of
        None \<Rightarrow> Inl KeyError
      | Some j \<Rightarrow> res_bind (views jobs is) (\<lambda>vs. Inr (as_dict j # vs)))"

definition list_jobs :: "job_store \<Rightarrow> job_view list res" where
  "list_jobs st = views (js_jobs st) (rev (js_order st))"

definition finish_stored :: "string \<Rightarrow> cmd_result res \<Rightarrow> time \<Rightarrow> job_store \<Rightarrow> job_store" where
  "finish_stored jid outcome now st =
     st\<lparr>js_jobs := (js_jobs st)(jid := map_option (finish_job outcome now) (js_jobs st jid))\<rparr>"

section \<open>A use of the store\<close>

datatype job_op = Create string string cmd_args time | Finish string "cmd_result res" time

fun job_step :: "job_store \<Rightarrow> job_op \<Rightarrow> job_store" where
  "job_step st (Create i command args now) = snd (create_job i command args now st)"
| "job_step st (Finish i outcome now) = finish_stored i outcome now st"

fun created :: "job_op list \<Rightarrow> string list" where
  "created [] = []"
| "created (Create i _ _ _ # ops) = i # created ops"
| "created (Finish _ _ _ # ops) = created ops"

lemma created_append [simp]: "created (xs @ ys) = created xs @ created ys"
  by (induction xs rule: created.induct) simp_all

lemma job_id_finish [simp]: "job_id (finish_job outcome now j) = job_id j"
  by (simp add: finish_job_def split: sum.split)

lemma trim_jobs_eq:
  assumes "0 \<le> limit"
  shows "trim_jobs limit jobs order
    = Inr (jobs |` (- set (take (length order - nat limit) order)), newest (nat limit) order)"
proof (induction order arbitrary: jobs)
  case Nil
  then show ?case using assms by simp
next
  case (Cons i order)
  then show ?case
  proof (cases "int (length (i # order)) > limit")
    case True
    then have "nat limit \<le> length order" by (simp add: nat_le_iff)
    then have "Suc (length order) - nat limit = Suc (length order - nat limit)" by (rule Suc_diff_le)
    with Cons True show ?thesis
      by (auto simp: newest_def restrict_map_def fun_eq_iff)
  qed (simp add: newest_def)
qed

lemma set_minus_take: "distinct xs \<Longrightarrow> set xs - set (take k xs) = set (drop k xs)"
  using set_append [of "take k xs" "drop k xs"] set_take_disj_set_drop_if_distinct [of xs k k] by auto

text \<open>The store after the jobs \<open>ids\<close> were created, in this order.\<close>

definition store_ok :: "int \<Rightarrow> string list \<Rightarrow> job_store \<Rightarrow> bool" where
  "store_ok limit ids st \<longleftrightarrow>
     js_limit st = limit \<and> js_order st = newest (nat limit) ids \<and> dom (js_jobs st) = set (js_order st)
     \<and> (\<forall>i j. js_jobs st i = Some j \<longrightarrow> job_id j = i)"

lemma store_ok_new [simp]: "store_ok limit [] (new_store limit)"
  by (simp add: store_ok_def new_store_def)

lemma store_ok_create:
  assumes ok: "store_ok limit ids st" and "0 \<le> limit" and new: "jid \<notin> set ids" and "distinct ids"
  shows "store_ok limit (ids @ [jid]) (snd (create_job jid command args now st))"
proof -
  let ?o = "js_order st @ [jid]" and ?j = "(js_jobs st)(jid \<mapsto> new_job jid command args now)"
  let ?k = "length ?o - nat limit"
  have order: "js_order st = newest (nat limit) ids" and dom: "dom (js_jobs st) = set (js_order st)"
    and lim: "js_limit st = limit" using ok by (simp_all add: store_ok_def)
  have t: "create_job jid command args now st
      = (Inr (new_job jid command args now), st\<lparr>js_jobs := ?j |` (- set (take ?k ?o)), js_order := newest (nat limit) ?o\<rparr>)"
    by (simp add: create_job_def Let_def lim trim_jobs_eq [OF assms(2)])
  have "distinct ?o"
    unfolding order newest_def using new assms(4) by (auto dest: in_set_dropD)
  then have "set ?o - set (take ?k ?o) = set (newest (nat limit) ?o)"
    unfolding newest_def by (rule set_minus_take)
  moreover have "dom (?j |` (- set (take ?k ?o))) = set ?o - set (take ?k ?o)"
    using dom by auto
  moreover have "newest (nat limit) ?o = newest (nat limit) (ids @ [jid])"
    unfolding order by (rule newest_newest_snoc)
  moreover have "(?j |` (- set (take ?k ?o))) i = Some j \<Longrightarrow> job_id j = i" for i j
    using ok by (auto simp: store_ok_def restrict_map_def new_job_def split: if_splits)
  ultimately show ?thesis by (simp add: store_ok_def t lim)
qed

lemma store_ok_finish: "store_ok limit ids st \<Longrightarrow> store_ok limit ids (finish_stored jid outcome now st)"
  by (cases "js_jobs st jid") (auto simp: store_ok_def finish_stored_def dom_def fun_upd_idem split: if_splits)

lemma store_ok_run:
  assumes "0 \<le> limit"
  shows "distinct (created ops) \<Longrightarrow> store_ok limit (created ops) (foldl job_step (new_store limit) ops)"
proof (induction ops rule: rev_induct)
  case (snoc oper ops)
  then show ?case
    using store_ok_create [OF _ assms] store_ok_finish by (cases oper) auto
qed simp

lemma views_ids:
  "set is \<subseteq> dom jobs \<Longrightarrow> (\<And>i j. jobs i = Some j \<Longrightarrow> job_id j = i)
    \<Longrightarrow> \<exists>vs. views jobs is = Inr vs \<and> map jv_id vs = is"
  by (induction "is") (fastforce simp: as_dict_def)+

section \<open>Properties\<close>

text \<open>
  C33: the job store keeps the most recent jobs and only these. However jobs are created and finished, the
  store holds the last \<open>limit\<close> created ones, a job that it no longer holds is not found, and listing never
  fails and gives the newest first. Finishing a job records its outcome and touches no other job.
\<close>

theorem jobs_are_the_newest:
  assumes "distinct (created ops)" and "0 \<le> limit"
  defines "st \<equiv> foldl job_step (new_store limit) ops"
  shows "(\<forall>i. get_job i st \<noteq> None \<longleftrightarrow> i \<in> set (newest (nat limit) (created ops)))
    \<and> (\<exists>vs. list_jobs st = Inr vs \<and> map jv_id vs = rev (newest (nat limit) (created ops)))
    \<and> (\<forall>i j outcome now k. get_job i st = Some j \<longrightarrow>
        get_job k (finish_stored i outcome now st)
          = (if k = i then Some (finish_job outcome now j) else get_job k st))"
proof -
  have ok: "store_ok limit (created ops) st" unfolding st_def using assms by (intro store_ok_run)
  have "\<exists>vs. views (js_jobs st) (rev (js_order st)) = Inr vs \<and> map jv_id vs = rev (js_order st)"
    using ok by (intro views_ids) (auto simp: store_ok_def)
  with ok show ?thesis
    by (auto simp: get_job_def list_jobs_def store_ok_def finish_stored_def)
qed

theorem jobs_are_the_newest_witness:
  "\<exists>vs. list_jobs (foldl job_step (new_store 2)
      [Create ''a'' ''calibrate'' [] 1, Create ''b'' ''get_tilt'' [] 2, Finish ''a'' (Inr RNone) 3,
       Create ''c'' ''reset'' [] 4]) = Inr vs \<and> map jv_id vs = [''c'', ''b'']"
  using jobs_are_the_newest [of "[Create ''a'' ''calibrate'' [] 1, Create ''b'' ''get_tilt'' [] 2,
      Finish ''a'' (Inr RNone) 3, Create ''c'' ''reset'' [] 4]" 2] by (simp add: newest_def)

end
