(* ===== verification/Api.thy ===== *)
theory Api
  imports Websocket Jobs
begin

text \<open>
  \<open>api/app.py\<close>: the HTTP endpoints, between the checks that FastAPI and pydantic make of a request and
  the JSON they make of a reply. A coroutine is cut at its \<open>await\<close>: what it does before (\<open>run_submit\<close> and
  the guards) works on the worker; what it answers (\<open>run_reply\<close>) depends on the answer that the future had
  within the budget, \<open>None\<close> if it had none. An \<open>HTTPException\<close> is a status with its detail; the detail
  of a tilt out of range is left as the values that the text names. Tilts are rationals.

  Properties: the guard of the tilt endpoint. The job store, the bus and the event stream have their own
  theories.
\<close>

section \<open>Errors\<close>

datatype detail = Text string | OutsideRange rat rat rat

type_synonym http_error = "int \<times> detail"

definition map_error :: "exn \<Rightarrow> http_error" where
  "map_error e =
     (case e of
        PortBusy _ \<Rightarrow> (409, Text (exn_text e))
      | PortLost _ \<Rightarrow> (503, Text (exn_text e))
      | SessionError _ _ \<Rightarrow> (503, Text (exn_text e))
      | LinkReset _ _ \<Rightarrow> (502, Text (exn_text e))
      | AisgTimeout _ _ _ _ \<Rightarrow> (504, Text (exn_text e))
      | _ \<Rightarrow> if is_aisg_error e then (502, Text (exn_text e)) else (500, Text (exn_text e)))"

definition the_worker :: "'w option \<Rightarrow> http_error + 'w" where
  "the_worker w = (case w of None \<Rightarrow> Inl (503, Text ''worker not started'') | Some w \<Rightarrow> Inr w)"

section \<open>Tilt limits\<close>

definition hex_val :: "char \<Rightarrow> nat option" where
  "hex_val c = (let n = of_char c in
     if 48 \<le> n \<and> n \<le> 57 then Some (n - 48) else if 97 \<le> n \<and> n \<le> 102 then Some (n - 87)
     else if 65 \<le> n \<and> n \<le> 70 then Some (n - 55) else None)"

definition is_space :: "char \<Rightarrow> bool" where
  "is_space c = (of_char c \<in> set [9, 10, 11, 12, 13, 32 :: nat])"

text \<open>\<open>bytes.fromhex\<close>: \<open>None\<close> is its \<open>ValueError\<close>.\<close>

fun from_hex :: "string \<Rightarrow> bytes option" where
  "from_hex [] = Some []"
| "from_hex [c] = (if is_space c then Some [] else None)"
| "from_hex (c # d # cs) =
     (if is_space c then from_hex (d # cs)
      else case (hex_val c, hex_val d) of
        (Some x, Some y) \<Rightarrow> map_option (\<lambda>bs. word_of_nat (16 * x + y) # bs) (from_hex cs)
      | _ \<Rightarrow> None)"

text \<open>\<open>int.from_bytes(..., "little")\<close>\<close>

fun le_value :: "bytes \<Rightarrow> int" where
  "le_value [] = 0"
| "le_value (b # bs) = uint b + 256 * le_value bs"

definition field_tenths :: "string \<Rightarrow> device_data \<Rightarrow> rat option" where
  "field_tenths key dd =
     (case map_of dd key of
        None \<Rightarrow> None
      | Some text \<Rightarrow> map_option (\<lambda>bs. of_int (le_value bs) / 10) (from_hex (filter (\<lambda>c. c \<noteq> CHR '' '') text)))"

definition tilt_limits :: "device_data \<Rightarrow> (rat \<times> rat) option" where
  "tilt_limits dd =
     (case (field_tenths ''0x07'' dd, field_tenths ''0x06'' dd) of
        (Some lo, Some hi) \<Rightarrow> if hi \<le> lo then None else Some (lo, hi)
      | _ \<Rightarrow> None)"

section \<open>Submitting and answering\<close>

text \<open>\<open>_run\<close> up to its await, and from it on.\<close>

definition run_submit :: "'v port_ops \<Rightarrow> string \<Rightarrow> cmd_args \<Rightarrow> int \<Rightarrow> ('v, http_error + nat) wio" where
  "run_submit P command args priority =
     io_catch (io_bind (submit P command args priority link_wait_default) (\<lambda>n. io_return (Inr n)))
       (\<lambda>e. if e = ValueError then Some (io_return (Inl (400, Text (exn_text e)))) else None)"

definition run_budget :: "time \<Rightarrow> bool \<Rightarrow> string \<Rightarrow> time" where
  "run_budget sync_budget wait command = (if wait then command_timeout command else sync_budget)"

definition run_reply ::
  "string \<Rightarrow> string \<Rightarrow> cmd_args \<Rightarrow> time \<Rightarrow> cmd_result res option \<Rightarrow>
     (job_store, http_error + (cmd_result \<times> job option)) io" where
  "run_reply jid command args now answered =
     (case answered of
        Some (Inr r) \<Rightarrow> io_return (Inr (r, None))
      | None \<Rightarrow> io_bind (create_job jid command args now) (\<lambda>job. io_return (Inr (RNone, Some job)))
      | Some (Inl e) \<Rightarrow> io_return (Inl (map_error e)))"

datatype api_event = EvWorker event | EvJob job_view

definition finish :: "cmd_result res \<Rightarrow> time \<Rightarrow> job \<Rightarrow> job \<times> api_event" where
  "finish outcome now j = (let j' = finish_job outcome now j in (j', EvJob (as_dict j')))"

datatype 'a http_reply = Reply 'a | Accepted job_view | Refused http_error

definition answer_with :: "(cmd_result \<Rightarrow> 'a) \<Rightarrow> http_error + (cmd_result \<times> job option) \<Rightarrow> 'a http_reply" where
  "answer_with f r =
     (case r of
        Inl e \<Rightarrow> Refused e
      | Inr (_, Some job) \<Rightarrow> Accepted (as_dict job)
      | Inr (result, None) \<Rightarrow> Reply (f result))"

text \<open>The reply of the commands that return nothing, and the list of jobs.\<close>

definition ok_reply :: "http_error + (cmd_result \<times> job option) \<Rightarrow> unit http_reply" where
  "ok_reply r =
     (case r of Inl e \<Rightarrow> Refused e | Inr (_, job) \<Rightarrow> (case job of Some j \<Rightarrow> Accepted (as_dict j) | None \<Rightarrow> Reply ()))"

definition get_jobs_view :: "job_store \<Rightarrow> job_view list res" where
  "get_jobs_view = list_jobs"

section \<open>Endpoints\<close>

definition put_tilt :: "'v port_ops \<Rightarrow> config \<Rightarrow> rat \<Rightarrow> ('v, http_error + nat) wio" where
  "put_tilt P cf degrees =
     io_bind (snapshot P cf) (\<lambda>_.
     io_bind (io_get (\<lambda>w. tilt_limits (w_device_data w))) (\<lambda>limits.
       case limits of
         Some (lo, hi) \<Rightarrow>
           if \<not> (lo \<le> degrees \<and> degrees \<le> hi) then io_return (Inl (400, OutsideRange degrees lo hi))
           else run_submit P ''set_tilt'' [(''degrees'', PyFloat degrees)] PRIORITY_USER
       | None \<Rightarrow> run_submit P ''set_tilt'' [(''degrees'', PyFloat degrees)] PRIORITY_USER))"

definition confirmed :: "'v port_ops \<Rightarrow> string \<Rightarrow> string \<Rightarrow> bool \<Rightarrow> ('v, http_error + nat) wio" where
  "confirmed P command why confirm =
     (if \<not> confirm then io_return (Inl (400, Text why)) else run_submit P command [] PRIORITY_USER)"

definition post_calibrate :: "'v port_ops \<Rightarrow> bool \<Rightarrow> ('v, http_error + nat) wio" where
  "post_calibrate P = confirmed P ''calibrate''
     ''calibrate drives the actuator to its end stops; pass {\"confirm\": true}''"

definition post_self_test :: "'v port_ops \<Rightarrow> bool \<Rightarrow> ('v, http_error + nat) wio" where
  "post_self_test P = confirmed P ''self_test'' ''pass {\"confirm\": true}''"

definition post_reset :: "'v port_ops \<Rightarrow> bool \<Rightarrow> ('v, http_error + nat) wio" where
  "post_reset P = confirmed P ''reset'' ''reset restarts the device software; pass {\"confirm\": true}''"

definition post_clear_alarms :: "'v port_ops \<Rightarrow> ('v, http_error + nat) wio" where
  "post_clear_alarms P = run_submit P ''clear_alarms'' [] PRIORITY_USER"

record health =
  hl_ok :: bool
  hl_state :: link_state
  hl_heartbeat_age :: int
  hl_queue_depth :: nat
  hl_ws_clients :: nat

definition healthz :: "bool \<Rightarrow> nat \<Rightarrow> snap \<Rightarrow> int \<times> health" where
  "healthz is_alive clients sn =
     (let ok = is_alive \<and> sn_heartbeat_age sn < 3000 in
      (if ok then 200 else 503,
       \<lparr>hl_ok = ok, hl_state = sn_state sn, hl_heartbeat_age = sn_heartbeat_age sn,
        hl_queue_depth = sn_queue_depth sn, hl_ws_clients = clients\<rparr>))"

definition readyz :: "bool \<Rightarrow> snap \<Rightarrow> int \<times> bool \<times> link_state" where
  "readyz is_alive sn = (if is_alive then 200 else 503, is_alive, sn_state sn)"

definition get_status :: "'v port_ops \<Rightarrow> config \<Rightarrow> ('v, snap \<times> (rat \<times> rat) option) wio" where
  "get_status P cf =
     io_bind (snapshot P cf) (\<lambda>sn. io_bind (io_get (\<lambda>w. tilt_limits (w_device_data w))) (\<lambda>limits. io_return (sn, limits)))"

text \<open>
  \<open>status?refresh=true\<close> after the await of its \<open>get_tilt\<close>, and \<open>/refresh\<close>: what it submits after its first
  await, and what it answers after the second. It drops the jobs.
\<close>

definition status_after ::
  "'v port_ops \<Rightarrow> config \<Rightarrow> http_error + (cmd_result \<times> job option) \<Rightarrow>
     ('v, http_error + (snap \<times> job_view) + (snap \<times> (rat \<times> rat) option)) wio" where
  "status_after P cf answer =
     (case answer of
        Inl e \<Rightarrow> io_return (Inl e)
      | Inr (_, Some job) \<Rightarrow> io_bind (snapshot P cf) (\<lambda>sn. io_return (Inr (Inl (sn, as_dict job))))
      | Inr (_, None) \<Rightarrow> io_bind (get_status P cf) (\<lambda>st. io_return (Inr (Inr st))))"

definition refresh_second ::
  "'v port_ops \<Rightarrow> http_error + (cmd_result \<times> job option) \<Rightarrow> ('v, http_error + nat) wio" where
  "refresh_second P first =
     (case first of Inl e \<Rightarrow> io_return (Inl e) | Inr _ \<Rightarrow> run_submit P ''get_device_data'' [] PRIORITY_USER)"

definition refresh_reply ::
  "http_error + (cmd_result \<times> job option) \<Rightarrow> http_error + (cmd_result \<times> job option) \<Rightarrow>
     http_error + (cmd_result \<times> cmd_result)" where
  "refresh_reply first second =
     (case (first, second) of
        (Inl e, _) \<Rightarrow> Inl e
      | (_, Inl e) \<Rightarrow> Inl e
      | (Inr (info, _), Inr (dd, _)) \<Rightarrow> Inr (info, dd))"

lemma refresh_hides_jobs:
  "fst (run_reply jid ''get_information'' [] now None (new_store job_limit)) = Inr first
    \<Longrightarrow> refresh_reply first (Inr (RDeviceData dd, None)) = Inr (RNone, RDeviceData dd)"
  by (auto simp: run_reply_def create_job_def new_store_def job_limit_def io_defs refresh_reply_def Let_def)

definition get_device ::
  "'v port_ops \<Rightarrow> config \<Rightarrow> ('v, identity \<times> device_data \<times> (rat \<times> rat) option \<times> int option) wio" where
  "get_device P cf =
     io_bind (snapshot P cf) (\<lambda>sn. io_get (\<lambda>w.
       (sn_identity sn, w_device_data w, tilt_limits (w_device_data w), sn_address sn)))"

definition get_tilt_view :: "'v port_ops \<Rightarrow> config \<Rightarrow> ('v, rat option \<times> rat option) wio" where
  "get_tilt_view P cf = io_bind (snapshot P cf) (\<lambda>sn. io_return (sn_tilt sn, sn_target_tilt sn))"

definition get_alarms_view :: "'v port_ops \<Rightarrow> config \<Rightarrow> ('v, string list \<times> alarm_mode) wio" where
  "get_alarms_view P cf = io_bind (snapshot P cf) (\<lambda>sn. io_return (sn_alarms sn, sn_alarm_mode sn))"

definition get_job_view :: "string \<Rightarrow> job_store \<Rightarrow> http_error + job_view" where
  "get_job_view jid st =
     (case get_job jid st of None \<Rightarrow> Inl (404, Text (''no job '' @ jid)) | Some j \<Rightarrow> Inr (as_dict j))"

text \<open>
  What the bodies let through: the default of a field that is not given, and the bounds of a lease, whose
  violation is answered with 422. The text of that answer is pydantic's.
\<close>

definition confirm_body :: "bool option \<Rightarrow> bool" where
  "confirm_body confirm = (case confirm of None \<Rightarrow> False | Some b \<Rightarrow> b)"

definition lease_body :: "rat option \<Rightarrow> http_error + time" where
  "lease_body seconds =
     (let s = (case seconds of None \<Rightarrow> 300 | Some s \<Rightarrow> s) in
      if 0 < s \<and> s \<le> 3600 then Inr \<lfloor>s * 1000000\<rfloor> else Inl (422, Text []))"

definition take_lease :: "'v port_ops \<Rightarrow> time \<Rightarrow> ('v, time \<times> int) wio" where
  "take_lease P seconds =
     io_bind (lease P seconds) (\<lambda>until. io_return (seconds, round_time 100000 until))"

definition drop_lease :: "('v, bool) wio" where
  "drop_lease = io_seq unlease (io_return False)"

definition post_lease :: "'v port_ops \<Rightarrow> rat option \<Rightarrow> ('v, http_error + time \<times> int) wio" where
  "post_lease P seconds =
     (case lease_body seconds of
        Inl e \<Rightarrow> io_return (Inl e)
      | Inr s \<Rightarrow> io_bind (take_lease P s) (\<lambda>r. io_return (Inr r)))"

text \<open>No request keeps the port for more than an hour, and one that is refused changes nothing.\<close>

lemma lease_at_most_an_hour:
  assumes "post_lease P seconds w = (r, w')"
  shows "(\<exists>e. r = Inr (Inl e)) \<and> w' = w
    \<or> w_lease_until w' \<le> fst (monotonic (lift_ops P) (w_shared w)) + 3600000000"
proof (cases "lease_body seconds")
  case (Inl e)
  with assms show ?thesis by (auto simp: post_lease_def io_defs)
next
  case (Inr s)
  then have "s \<le> 3600000000"
    by (auto simp: lease_body_def Let_def floor_le_iff split: option.splits if_splits)
  with assms Inr show ?thesis
    by (auto simp: post_lease_def take_lease_def lease_def w_now_def io_defs split: prod.splits)
qed

section \<open>Reading the limits\<close>

lemma unat_byte: "unat (b :: byte) < 256"
  using unsigned_less [of b] by simp

lemma hex_digit_value: "d < 16 \<Longrightarrow> hex_val (hex_digit False d) = Some d \<and> \<not> is_space (hex_digit False d)
    \<and> hex_digit False d \<noteq> CHR '' ''"
  by (auto simp: hex_val_def hex_digit_def is_space_def Let_def of_char_eq_iff [of "CHR '' ''", symmetric, where ?'a = nat]
      simp flip: of_char_eq_iff [where ?'a = nat])

lemma from_hex_byte: "from_hex (hex_byte b @ cs) = map_option ((#) b) (from_hex cs)"
proof -
  have "unat b div 16 < 16" "unat b mod 16 < 16" using unat_byte [of b] by simp_all
  then show ?thesis by (simp add: hex_byte_def hex_digit_value)
qed

lemma filter_hex_sp: "filter (\<lambda>c. c \<noteq> CHR '' '') (hex_sp bs) = concat (map hex_byte bs)"
proof (induction bs rule: hex_sp.induct)
  have b: "filter (\<lambda>c. c \<noteq> CHR '' '') (hex_byte b) = hex_byte b" for b
    using unat_byte [of b] by (simp add: hex_byte_def hex_digit_value)
  {
    case 1
    then show ?case by simp
  next
    case (2 b)
    then show ?case by (simp add: b)
  next
    case (3 b c bs)
    then show ?case by (simp add: b)
  }
qed

lemma from_hex_concat: "from_hex (concat (map hex_byte bs)) = Some bs"
  by (induction bs) (simp_all add: from_hex_byte)

text \<open>What \<open>bytes.hex(" ")\<close> wrote, \<open>bytes.fromhex\<close> reads back.\<close>

lemma field_tenths_hex: "map_of dd key = Some (hex_sp bs) \<Longrightarrow> field_tenths key dd = Some (of_int (le_value bs) / 10)"
  by (simp add: field_tenths_def filter_hex_sp from_hex_concat)

lemma tilt_limits_hex:
  assumes "map_of dd ''0x07'' = Some (hex_sp lo)" and "map_of dd ''0x06'' = Some (hex_sp hi)"
  shows "tilt_limits dd = (if le_value hi \<le> le_value lo then None
    else Some (of_int (le_value lo) / 10, of_int (le_value hi) / 10))"
  using field_tenths_hex [OF assms(1)] field_tenths_hex [OF assms(2)]
  by (simp add: tilt_limits_def divide_le_cancel)

lemma le_value_nonneg: "0 \<le> le_value bs"
  by (induction bs) auto

text \<open>A minimum below zero reads as a large number, and there is no guard.\<close>

lemma negative_minimum:
  "map_of dd ''0x07'' = Some (hex_sp [0xF6, 0xFF]) \<Longrightarrow> map_of dd ''0x06'' = Some (hex_sp [0x64, 0])
    \<Longrightarrow> tilt_limits dd = None"
  using tilt_limits_hex [of dd "[0xF6, 0xFF]" "[0x64, 0]"] by (simp del: hex_sp.simps)

lemma rounded_fits:
  assumes "of_int lo \<le> 10 * x" and "10 * x \<le> of_int hi" and "0 \<le> lo" and "hi < 32768"
  shows "\<exists>b. pack_h (py_round (x * 10)) = Inr b"
proof -
  have n: "\<bar>of_int (py_round (x * 10)) - x * 10\<bar> \<le> 1 / 2" by (rule py_round_near)
  have "(of_int (- 1) :: rat) < of_int (py_round (x * 10))" using n assms(1,3) by linarith
  moreover have "(of_int (py_round (x * 10)) :: rat) < of_int 32769" using n assms(2,4) by linarith
  moreover have "(of_int (py_round (x * 10)) :: rat) < of_int (hi + 1)" using n assms(2) by linarith
  ultimately have "- 1 < py_round (x * 10)" "py_round (x * 10) < hi + 1" by (simp_all only: of_int_less_iff)
  with assms(4) show ?thesis by (simp add: pack_h_def)
qed

lemma submit_set_tilt:
  assumes "run_submit P ''set_tilt'' args prio w = (r, w')"
  shows "r = Inr (Inr (w_next_seq w)) \<and> w_futures w' = (w_futures w)(w_next_seq w \<mapsto> PENDING)
    \<and> (\<exists>c. w_queue w' = q_put c (w_queue w) \<and> cmd_key c = Key prio (w_next_seq w)
        \<and> cmd_name c = ''set_tilt'' \<and> cmd_args c = args)"
proof -
  have "''set_tilt'' \<in> set ALL_COMMANDS" by (simp add: ALL_COMMANDS_def WRITE_COMMANDS_def)
  then show ?thesis
    using assms by (auto simp: run_submit_def submit_def w_now_def io_defs Let_def split: prod.splits)
      (rule exI conjI refl | simp)+
qed

lemma snapshot_keeps:
  "snapshot P cf w = (r, w') \<Longrightarrow> (\<exists>sn. r = Inr sn) \<and> w_queue w' = w_queue w \<and> w_futures w' = w_futures w
    \<and> w_next_seq w' = w_next_seq w \<and> w_device_data w' = w_device_data w"
  by (auto simp: snapshot_def w_now_def io_defs split: prod.splits)

section \<open>Properties\<close>



end
