(* ===== verification/Service.thy ===== *)
theory Service
  imports Api Session_Worker
begin

text \<open>
  \<open>api/app.py\<close>, lines 56 to 104: the configuration that the module reads from the environment, with the
  parts of \<open>int\<close> and \<open>float\<close> it uses, and \<open>lifespan\<close>, which starts the worker thread and stops it.
  A floating-point number is a rational number, an infinity or no number; the rounding of a literal to a
  float is left out. \<open>lifespan\<close> is cut at its \<open>yield\<close>; the thread it starts is the runner of \<open>Session_Worker\<close>.

  Property: what is written into the environment is what the worker is configured with, and what cannot
  be read stops the start.
\<close>

section \<open>Numbers from text\<close>

definition py_space :: "char \<Rightarrow> bool" where
  "py_space c = (of_char c \<in> set [9, 10, 11, 12, 13, 28, 29, 30, 31, 32 :: nat])"

definition strip :: "string \<Rightarrow> string" where
  "strip s = rev (dropWhile py_space (rev (dropWhile py_space s)))"

definition digit_val :: "char \<Rightarrow> nat option" where
  "digit_val c = (let n = of_char c in if 48 \<le> n \<and> n \<le> 57 then Some (n - 48) else None)"

text \<open>Digits, with single underscores between them; \<open>seen\<close> says that the last character was a digit.\<close>

fun digits :: "nat \<Rightarrow> bool \<Rightarrow> string \<Rightarrow> nat option" where
  "digits acc seen [] = (if seen then Some acc else None)"
| "digits acc seen (c # cs) =
     (case digit_val c of
        Some d \<Rightarrow> digits (10 * acc + d) True cs
      | None \<Rightarrow> if c = CHR ''_'' \<and> seen then digits acc False cs else None)"

definition signed :: "(string \<Rightarrow> 'a option) \<Rightarrow> ('a \<Rightarrow> 'a) \<Rightarrow> string \<Rightarrow> 'a option" where
  "signed p neg s =
     (case s of
        [] \<Rightarrow> p []
      | c # cs \<Rightarrow> if c = CHR ''-'' then map_option neg (p cs) else if c = CHR ''+'' then p cs else p s)"

definition or_value_error :: "'a option \<Rightarrow> 'a res" where
  "or_value_error x = (case x of None \<Rightarrow> Inl ValueError | Some y \<Rightarrow> Inr y)"

text \<open>\<open>int(s)\<close>\<close>

definition py_int :: "string \<Rightarrow> int res" where
  "py_int s = or_value_error (signed (\<lambda>t. map_option int (digits 0 False t)) uminus (strip s))"

text \<open>\<open>float(s)\<close>\<close>

datatype pyfloat = Finite rat | Infinite bool | NotANumber

fun negate :: "pyfloat \<Rightarrow> pyfloat" where
  "negate (Finite x) = Finite (- x)"
| "negate (Infinite pos) = Infinite (\<not> pos)"
| "negate NotANumber = NotANumber"

definition lower :: "char \<Rightarrow> char" where
  "lower c = (let n = of_char c :: nat in if 65 \<le> n \<and> n \<le> 90 then char_of (n + 32) else c)"

text \<open>The text before the first character of a kind, and the text after it, if there is one.\<close>

fun cut_at :: "(char \<Rightarrow> bool) \<Rightarrow> string \<Rightarrow> string \<times> string option" where
  "cut_at p [] = ([], None)"
| "cut_at p (c # cs) = (if p c then ([], Some cs) else (case cut_at p cs of (b, r) \<Rightarrow> (c # b, r)))"

definition n_digits :: "string \<Rightarrow> nat" where
  "n_digits s = length (filter (\<lambda>c. c \<noteq> CHR ''_'') s)"

definition mantissa :: "string \<Rightarrow> rat option" where
  "mantissa s =
     (case cut_at (\<lambda>c. c = CHR ''.'') s of
        (whole, None) \<Rightarrow> map_option of_nat (digits 0 False whole)
      | (whole, Some fraction) \<Rightarrow>
          if whole = [] \<and> fraction = [] then None
          else (case (if whole = [] then Some 0 else digits 0 False whole,
                      if fraction = [] then Some 0 else digits 0 False fraction) of
                  (Some w, Some f) \<Rightarrow> Some (of_nat w + of_nat f / 10 ^ n_digits fraction)
                | _ \<Rightarrow> None))"

definition exponent_of :: "string option \<Rightarrow> int option" where
  "exponent_of e = (case e of None \<Rightarrow> Some 0 | Some s \<Rightarrow> signed (\<lambda>t. map_option int (digits 0 False t)) uminus s)"

definition unsigned_float :: "string \<Rightarrow> pyfloat option" where
  "unsigned_float s =
     (if map lower s \<in> {''inf'', ''infinity''} then Some (Infinite True)
      else if map lower s = ''nan'' then Some NotANumber
      else case cut_at (\<lambda>c. lower c = CHR ''e'') s of
        (m, e) \<Rightarrow> (case (mantissa m, exponent_of e) of
            (Some x, Some k) \<Rightarrow> Some (Finite (if 0 \<le> k then x * 10 ^ nat k else x / 10 ^ nat (- k)))
          | _ \<Rightarrow> None))"

definition py_float :: "string \<Rightarrow> pyfloat res" where
  "py_float s = or_value_error (signed unsigned_float negate (strip s))"

section \<open>The configuration\<close>

type_synonym environ = "string \<rightharpoonup> string"

definition getenv :: "environ \<Rightarrow> string \<Rightarrow> string \<Rightarrow> string" where
  "getenv env key otherwise = (case env key of None \<Rightarrow> otherwise | Some s \<Rightarrow> s)"

record settings =
  st_port :: string
  st_baud :: int
  st_monitor :: string
  st_monitor_period :: pyfloat
  st_keepalive :: pyfloat
  st_idle_release :: pyfloat
  st_first_address :: int
  st_probe_count :: int
  st_sync_budget :: pyfloat
  st_debug :: bool

definition read_settings :: "environ \<Rightarrow> settings res" where
  "read_settings env =
     res_bind (py_int (getenv env ''AISG_BAUD'' ''9600'')) (\<lambda>baud.
     res_bind (py_float (getenv env ''AISG_MONITOR_PERIOD'' ''60'')) (\<lambda>period.
     res_bind (py_float (getenv env ''AISG_KEEPALIVE'' ''1.0'')) (\<lambda>keepalive.
     res_bind (py_float (getenv env ''AISG_IDLE_RELEASE'' ''60'')) (\<lambda>idle_release.
     res_bind (py_int (getenv env ''AISG_FIRST_ADDRESS'' ''1'')) (\<lambda>first.
     res_bind (py_int (getenv env ''AISG_PROBE_COUNT'' ''4'')) (\<lambda>count.
     res_bind (py_float (getenv env ''AISG_SYNC_BUDGET'' ''8.0'')) (\<lambda>budget.
       Inr \<lparr>st_port = getenv env ''AISG_PORT'' ''/dev/ttyUSB0'', st_baud = baud,
            st_monitor = getenv env ''AISG_MONITOR'' ''duty-cycled'', st_monitor_period = period,
            st_keepalive = keepalive, st_idle_release = idle_release, st_first_address = first,
            st_probe_count = count, st_sync_budget = budget, st_debug = (env ''AISG_DEBUG'' = Some ''1'')\<rparr>)))))))"

text \<open>\<open>_parse_args\<close>: where the server listens. The default of the port is read even when one is given.\<close>

definition listen_at :: "environ \<Rightarrow> string option \<Rightarrow> int option \<Rightarrow> (string \<times> int) res" where
  "listen_at env host port =
     res_bind (py_int (getenv env ''AISG_PORT_HTTP'' ''8080'')) (\<lambda>otherwise.
       Inr (case host of None \<Rightarrow> getenv env ''AISG_HOST'' ''0.0.0.0'' | Some h \<Rightarrow> h,
            case port of None \<Rightarrow> otherwise | Some p \<Rightarrow> p))"

text \<open>\<open>MonitorMode(MONITOR)\<close>\<close>

definition monitor_of :: "string \<Rightarrow> monitor_mode res" where
  "monitor_of s =
     (if s = ''off'' then Inr MONITOR_OFF else if s = ''duty-cycled'' then Inr DUTY_CYCLED
      else if s = ''continuous'' then Inr CONTINUOUS else Inl ValueError)"

text \<open>Seconds in microseconds. A worker whose times are not finite is outside the model: \<open>None\<close>.\<close>

fun in_microseconds :: "pyfloat \<Rightarrow> time option" where
  "in_microseconds (Finite x) = Some \<lfloor>x * 1000000\<rfloor>"
| "in_microseconds _ = None"

definition worker_config :: "settings \<Rightarrow> config res option" where
  "worker_config st =
     (case monitor_of (st_monitor st) of
        Inl e \<Rightarrow> Some (Inl e)
      | Inr mode \<Rightarrow>
          (case (in_microseconds (st_monitor_period st), in_microseconds (st_keepalive st), in_microseconds (st_idle_release st)) of
             (Some period, Some keepalive, Some idle_release) \<Rightarrow>
               Some (Inr \<lparr>cf_port = st_port st, cf_dtr = True, cf_monitor = mode, cf_monitor_period = period,
                 cf_keepalive = keepalive, cf_idle_release = idle_release, cf_first_address = st_first_address st,
                 cf_probe_count = st_probe_count st\<rparr>)
           | _ \<Rightarrow> None))"

section \<open>Starting and stopping\<close>

record 'v service =
  sv_bridge :: "event bridge"
  sv_worker :: "'v runner option"

definition new_service :: "'v service" where
  "new_service = \<lparr>sv_bridge = new_bridge, sv_worker = None\<rparr>"

text \<open>\<open>lifespan\<close> up to its \<open>yield\<close>: the loop is bound first, so that what the thread emits is not lost.\<close>

definition start_service :: "'v port_ops \<Rightarrow> settings \<Rightarrow> 'v \<Rightarrow> 'v service \<Rightarrow> (config res \<times> 'v service) option" where
  "start_service P st v sv =
     (let sv = sv\<lparr>sv_bridge := bridge_bind (sv_bridge sv)\<rparr> in
      case worker_config st of
        None \<Rightarrow> None
      | Some (Inl e) \<Rightarrow> Some (Inl e, sv)
      | Some (Inr cf) \<Rightarrow> Some (Inr cf, sv\<lparr>sv_worker := Some (new_runner P v)\<rparr>))"

text \<open>
  From the \<open>yield\<close> on: \<open>worker.stop()\<close>, then \<open>worker.join(20.0)\<close>, which returns when the thread has ended
  or the time is up. The thread takes its turns meanwhile, at most \<open>n\<close> of them.
\<close>

definition ended :: "'v runner \<Rightarrow> bool" where
  "ended r \<longleftrightarrow> rn_phase r \<in> {STOPPED, DEAD}"

definition clock_of :: "'v port_ops \<Rightarrow> 'v runner \<Rightarrow> time" where
  "clock_of P r = fst (monotonic (lift_ops P) (w_shared (rn_worker r)))"

primrec join_worker :: "'v port_ops \<Rightarrow> nat \<Rightarrow> config \<Rightarrow> nat \<Rightarrow> time \<Rightarrow> 'v runner \<Rightarrow> 'v runner" where
  "join_worker P fuel cf 0 until r = r"
| "join_worker P fuel cf (Suc n) until r =
     (if ended r \<or> clock_of P r \<ge> until then r else join_worker P fuel cf n until (turn P fuel cf r))"

definition stop_service :: "'v port_ops \<Rightarrow> nat \<Rightarrow> config \<Rightarrow> nat \<Rightarrow> 'v service \<Rightarrow> 'v service" where
  "stop_service P fuel cf n sv =
     sv\<lparr>sv_worker := map_option (\<lambda>r. join_worker P fuel cf n (clock_of P r + 20000000) (call stop r)) (sv_worker sv)\<rparr>"

section \<open>What the environment says is what the worker gets\<close>

lemma digit_val_hex_digit: "d < 10 \<Longrightarrow> digit_val (hex_digit False d) = Some d"
  by (simp add: digit_val_def hex_digit_def Let_def)

lemma digits_append: "digits acc seen (s @ [hex_digit False d]) = map_option (\<lambda>n. 10 * n + d) (digits acc seen s)"
  if "d < 10" and "s \<noteq> []" and "digits acc seen s \<noteq> None"
  using that(2,3)
proof (induction acc seen s rule: digits.induct)
  case (2 acc seen c cs)
  then show ?case
    using digit_val_hex_digit [OF that(1)] by (cases "cs = []") (auto split: option.splits if_splits)
qed simp

lemma digits_dec: "digits 0 False (dec_nat n) = Some n"
proof (induction n rule: dec_nat.induct)
  case (1 n)
  show ?case
  proof (cases "n < 10")
    case True
    then show ?thesis by (simp add: dec_nat.simps [of n] digit_val_hex_digit)
  next
    case False
    with 1 have "digits 0 False (dec_nat (n div 10)) = Some (n div 10)" by simp
    moreover have "dec_nat (n div 10) \<noteq> []" by (subst dec_nat.simps) simp
    ultimately show ?thesis
      using False digits_append [of "n mod 10" "dec_nat (n div 10)" 0 False] by (simp add: dec_nat.simps [of n])
  qed
qed

lemma dec_nat_digits: "\<forall>c \<in> set (dec_nat n). digit_val c \<noteq> None"
proof (induction n rule: dec_nat.induct)
  case (1 n)
  then show ?case
    using digit_val_hex_digit [of n] digit_val_hex_digit [of "n mod 10"]
    by (subst dec_nat.simps) auto
qed

lemma dec_nat_nonempty [simp]: "dec_nat n \<noteq> []"
  by (subst dec_nat.simps) simp

lemma digit_char:
  assumes "digit_val c \<noteq> None"
  shows "\<not> py_space c" and "c \<noteq> CHR ''-''" and "c \<noteq> CHR ''+''" and "c \<noteq> CHR ''.''"
    and "lower c = c" and "c \<notin> {CHR ''e'', CHR ''i'', CHR ''n''}"
proof -
  have r: "48 \<le> (of_char c :: nat) \<and> (of_char c :: nat) \<le> 57"
    using assms by (auto simp: digit_val_def Let_def split: if_splits)
  then show "\<not> py_space c" "lower c = c" by (auto simp: py_space_def lower_def Let_def)
  show "c \<noteq> CHR ''-''" "c \<noteq> CHR ''+''" "c \<noteq> CHR ''.''" "c \<notin> {CHR ''e'', CHR ''i'', CHR ''n''}"
    using r by auto
qed

lemma strip_id: "\<forall>c \<in> set s. \<not> py_space c \<Longrightarrow> strip s = s"
proof -
  have drop: "dropWhile py_space t = t" if "\<forall>c \<in> set t. \<not> py_space c" for t
    using that by (cases t) auto
  assume "\<forall>c \<in> set s. \<not> py_space c"
  then show ?thesis by (simp add: strip_def drop)
qed

lemma py_int_dec: "py_int (dec_int k) = Inr k"
proof -
  obtain c cs where c: "dec_nat (nat \<bar>k\<bar>) = c # cs" by (cases "dec_nat (nat \<bar>k\<bar>)") auto
  then have d: "digit_val c \<noteq> None" using dec_nat_digits [of "nat \<bar>k\<bar>"] by simp
  have s: "strip (dec_int k) = dec_int k"
    using dec_nat_digits digit_char(1) by (intro strip_id) (auto simp: dec_int_def py_space_def)
  show ?thesis
  proof (cases "0 \<le> k")
    case True
    then have "signed p neg (dec_nat (nat k)) = p (dec_nat (nat k))" for p :: "string \<Rightarrow> int option" and neg
      using c digit_char(2,3) [OF d] by (simp add: signed_def)
    with True s show ?thesis by (simp add: py_int_def dec_int_def digits_dec or_value_error_def)
  next
    case False
    with s show ?thesis by (simp add: py_int_def dec_int_def signed_def digits_dec or_value_error_def)
  qed
qed

lemma cut_at_none: "\<forall>c \<in> set s. \<not> p c \<Longrightarrow> cut_at p s = (s, None)"
  by (induction s) auto

lemma py_float_dec: "py_float (dec_nat n) = Inr (Finite (of_nat n))"
proof -
  obtain c cs where c: "dec_nat n = c # cs" by (cases "dec_nat n") auto
  note all = dec_nat_digits [of n]
  have d: "digit_val c \<noteq> None" using all c by simp
  have s: "strip (dec_nat n) = dec_nat n" using all digit_char(1) by (intro strip_id) auto
  have l: "map lower (dec_nat n) = dec_nat n" using all digit_char(5) by (auto intro: map_idI)
  have e: "cut_at (\<lambda>c. lower c = CHR ''e'') (dec_nat n) = (dec_nat n, None)"
    using all digit_char(5,6) by (intro cut_at_none) auto
  have p: "cut_at (\<lambda>c. c = CHR ''.'') (dec_nat n) = (dec_nat n, None)"
    using all digit_char(4) by (intro cut_at_none) auto
  have "unsigned_float (dec_nat n) = Some (Finite (of_nat n))"
    using c digit_char(6) [OF d] digits_dec [of n] l e p
    by (simp add: unsigned_float_def mantissa_def exponent_of_def)
  then show ?thesis
    using c digit_char(2,3) [OF d] s by (simp add: py_float_def signed_def or_value_error_def)
qed

text \<open>A configuration as an administrator writes it, with whole seconds.\<close>

fun monitor_text :: "monitor_mode \<Rightarrow> string" where
  "monitor_text MONITOR_OFF = ''off''"
| "monitor_text DUTY_CYCLED = ''duty-cycled''"
| "monitor_text CONTINUOUS = ''continuous''"

lemma monitor_of_text [simp]: "monitor_of (monitor_text m) = Inr m"
  by (cases m) (simp_all add: monitor_of_def)

definition written :: "string \<Rightarrow> monitor_mode \<Rightarrow> nat \<Rightarrow> nat \<Rightarrow> nat \<Rightarrow> int \<Rightarrow> int \<Rightarrow> environ" where
  "written port mode period keepalive idle_release first count =
     [''AISG_PORT'' \<mapsto> port, ''AISG_MONITOR'' \<mapsto> monitor_text mode, ''AISG_MONITOR_PERIOD'' \<mapsto> dec_nat period,
      ''AISG_KEEPALIVE'' \<mapsto> dec_nat keepalive, ''AISG_IDLE_RELEASE'' \<mapsto> dec_nat idle_release,
      ''AISG_FIRST_ADDRESS'' \<mapsto> dec_int first, ''AISG_PROBE_COUNT'' \<mapsto> dec_int count]"

lemma default_numbers:
  "py_int ''9600'' = Inr 9600" "py_float ''8.0'' = Inr (Finite 8)" "py_int ''1'' = Inr 1" "py_int ''4'' = Inr 4"
  "py_float ''60'' = Inr (Finite 60)" "py_float ''1.0'' = Inr (Finite 1)"
  by (simp_all add: py_int_def py_float_def strip_def py_space_def signed_def digit_val_def unsigned_float_def
      mantissa_def exponent_of_def lower_def n_digits_def or_value_error_def Let_def)

text \<open>An empty environment gives the documented defaults.\<close>

lemma defaults: "\<exists>st. read_settings Map.empty = Inr st \<and> worker_config st = Some (Inr test_config)"
  by (simp add: read_settings_def getenv_def default_numbers worker_config_def monitor_of_def test_config_def)

text \<open>
  C35: what is written into the environment is what the worker runs with. Every port, mode, number of
  whole seconds and address range is read back as it was written, the service starts with it, its event
  bridge bound before the thread; a mode that is none of the three stops the start, with no thread.
\<close>

theorem configuration_as_written:
  "(\<exists>st. read_settings (written port mode period keepalive idle_release first count) = Inr st
      \<and> start_service P st v new_service = Some
        (Inr \<lparr>cf_port = port, cf_dtr = True, cf_monitor = mode, cf_monitor_period = int period * 1000000,
              cf_keepalive = int keepalive * 1000000, cf_idle_release = int idle_release * 1000000,
              cf_first_address = first, cf_probe_count = count\<rparr>,
         \<lparr>sv_bridge = bridge_bind new_bridge, sv_worker = Some (new_runner P v)\<rparr>))
    \<and> (st_monitor st' \<notin> range monitor_text
        \<longrightarrow> start_service P st' v new_service = Some (Inl ValueError, \<lparr>sv_bridge = bridge_bind new_bridge, sv_worker = None\<rparr>))"
proof
  have whole: "\<lfloor>(of_nat n :: rat) * 1000000\<rfloor> = int n * 1000000" for n
    by (metis floor_of_int of_int_mult of_int_numeral of_int_of_nat_eq)
  show "\<exists>st. read_settings (written port mode period keepalive idle_release first count) = Inr st
      \<and> start_service P st v new_service = Some
        (Inr \<lparr>cf_port = port, cf_dtr = True, cf_monitor = mode, cf_monitor_period = int period * 1000000,
              cf_keepalive = int keepalive * 1000000, cf_idle_release = int idle_release * 1000000,
              cf_first_address = first, cf_probe_count = count\<rparr>,
         \<lparr>sv_bridge = bridge_bind new_bridge, sv_worker = Some (new_runner P v)\<rparr>)"
    by (simp add: read_settings_def getenv_def written_def default_numbers py_int_dec py_float_dec
        start_service_def new_service_def worker_config_def whole Let_def)
  have "monitor_of s = Inl ValueError" if "s \<notin> range monitor_text" for s
    using that by (auto simp: monitor_of_def image_iff) (metis monitor_text.simps)+
  then show "st_monitor st' \<notin> range monitor_text
      \<longrightarrow> start_service P st' v new_service = Some (Inl ValueError, \<lparr>sv_bridge = bridge_bind new_bridge, sv_worker = None\<rparr>)"
    by (simp add: start_service_def new_service_def worker_config_def Let_def)
qed

theorem configuration_as_written_witness:
  "(\<exists>st. read_settings (written ''/dev/ttyUSB1'' CONTINUOUS 60 1 60 3 4) = Inr st
      \<and> start_service silent_port st 0 new_service = Some
        (Inr \<lparr>cf_port = ''/dev/ttyUSB1'', cf_dtr = True, cf_monitor = CONTINUOUS, cf_monitor_period = 60000000,
              cf_keepalive = 1000000, cf_idle_release = 60000000, cf_first_address = 3, cf_probe_count = 4\<rparr>,
         \<lparr>sv_bridge = bridge_bind new_bridge, sv_worker = Some (new_runner silent_port 0)\<rparr>))
    \<and> (\<exists>st. read_settings [''AISG_MONITOR'' \<mapsto> ''Off''] = Inr st
        \<and> start_service silent_port st 0 new_service = Some (Inl ValueError, \<lparr>sv_bridge = bridge_bind new_bridge, sv_worker = None\<rparr>))"
proof -
  have off: "''Off'' \<notin> range monitor_text"
  proof
    assume "''Off'' \<in> range monitor_text"
    then obtain m where "''Off'' = monitor_text m" by blast
    then show False by (cases m) simp_all
  qed
  obtain st where st: "read_settings [''AISG_MONITOR'' \<mapsto> ''Off''] = Inr st" "st_monitor st = ''Off''"
    by (simp add: read_settings_def getenv_def default_numbers)
  have written: "(\<exists>st. read_settings (written ''/dev/ttyUSB1'' CONTINUOUS 60 1 60 3 4) = Inr st
      \<and> start_service silent_port st 0 new_service = Some
        (Inr \<lparr>cf_port = ''/dev/ttyUSB1'', cf_dtr = True, cf_monitor = CONTINUOUS, cf_monitor_period = int 60 * 1000000,
              cf_keepalive = int 1 * 1000000, cf_idle_release = int 60 * 1000000, cf_first_address = 3, cf_probe_count = 4\<rparr>,
         \<lparr>sv_bridge = bridge_bind new_bridge, sv_worker = Some (new_runner silent_port 0)\<rparr>))
    \<and> (st_monitor st \<notin> range monitor_text
        \<longrightarrow> start_service silent_port st 0 new_service = Some (Inl ValueError, \<lparr>sv_bridge = bridge_bind new_bridge, sv_worker = None\<rparr>))"
    by (rule configuration_as_written)
  from written [THEN conjunct2, rule_format] off st
  have "start_service silent_port st 0 new_service = Some (Inl ValueError, \<lparr>sv_bridge = bridge_bind new_bridge, sv_worker = None\<rparr>)"
    by simp
  with written [THEN conjunct1] st(1) show ?thesis
    by (simp only: of_nat_numeral of_nat_1) auto
qed

text \<open>A stop that finds the thread at the top of its loop ends it in that turn, unless the release hangs.\<close>

lemma stop_at_top:
  assumes "sv_worker sv = Some r" and "rn_phase r = TOP"
  shows "\<exists>r'. sv_worker (stop_service P fuel cf (Suc n) sv) = Some r' \<and> r' = join_worker P fuel cf n (clock_of P r + 20000000) (turn P fuel cf (call stop r))
    \<and> rn_phase (turn P fuel cf (call stop r)) \<in> {STOPPED, DEAD, HUNG}"
proof -
  have "w_stopping (rn_worker (call stop r))" "rn_phase (call stop r) = TOP"
    using assms(2) by (simp_all add: call_def stop_def io_defs)
  then have "rn_phase (turn P fuel cf (call stop r)) \<in> {STOPPED, DEAD, HUNG}"
    by (simp add: turn_def turn_top_def split: prod.split sum.split)
  moreover have "clock_of P (call stop r) = clock_of P r"
    by (simp add: clock_of_def call_def stop_def io_defs)
  ultimately show ?thesis
    using assms by (simp add: stop_service_def ended_def call_def)
qed

end
