(* ===== verification/Preflight.thy ===== *)
theory Preflight
  imports Link_Exchange
begin

text \<open>
  \<open>utils/preflight.py\<close>: the script that checks an adapter and a bus before the service is used. It opens
  the port, sends up to three scan probes and reports what comes back. What it prints is the list of its
  reports, without their wording; RTS, which no model of the port here has, is left out.
\<close>

definition preflight_port :: "string list \<Rightarrow> string" where
  "preflight_port argv = (case argv of _ # port # _ \<Rightarrow> port | _ \<Rightarrow> ''/dev/ttyUSB0'')"

datatype report =
    Opening string
  | OpenFailed string
  | Opened
  | Probe bytes
  | Got nat bytes
  | Frame int int "int \<rightharpoonup> bytes"
  | Undecodable string
  | NoResponse nat
  | NobodyAnswered
  | Finished

type_synonym 'w reporter = "'w \<times> report list"

definition report :: "report \<Rightarrow> ('w reporter, unit) io" where
  "report r s = (Inr (), (fst s, snd s @ [r]))"

definition with_port :: "('w, 'a) port_io \<Rightarrow> ('w reporter, 'a) io" where
  "with_port m s =
     (case m (fst s) of
        (Inl text, w) \<Rightarrow> (Inl (OSError text), (w, snd s))
      | (Inr a, w) \<Rightarrow> (Inr a, (w, snd s)))"

definition pause_for :: "'w port_ops \<Rightarrow> time \<Rightarrow> ('w reporter, unit) io" where
  "pause_for P t s = (Inr (), (sleep P t (fst s), snd s))"

definition scan_payload :: "bytes res" where
  "scan_payload = xid_encode [(PI_UNIQUE_ID, []), (PI_BITMASK, [])]"

definition scan_probe :: "bytes res" where
  "scan_probe = res_bind scan_payload (build_frame ADDR_BROADCAST (CTRL_XID OR PF))"

text \<open>The reports of one answer; a frame that cannot be decoded ends them.\<close>

definition xid_params :: "bytes \<Rightarrow> (int \<rightharpoonup> bytes) res" where
  "xid_params pl = (if take 2 pl = [0x81, 0xf0] then xid_decode pl else Inr Map.empty)"

fun frame_reports :: "frame list \<Rightarrow> report list \<times> exn option" where
  "frame_reports [] = ([], None)"
| "frame_reports ((addr, ctrl, pl) # fs) =
     (case xid_params pl of
        Inl e \<Rightarrow> ([], Some e)
      | Inr p \<Rightarrow> (case frame_reports fs of (rs, e) \<Rightarrow> (Frame addr ctrl p # rs, e)))"

definition answer_reports :: "bytes \<Rightarrow> report list" where
  "answer_reports resp =
     (case parse_frames resp of
        (fs, e) \<Rightarrow> (case frame_reports fs of (rs, e') \<Rightarrow>
          rs @ (case (case e' of None \<Rightarrow> e | Some x \<Rightarrow> Some x) of
                  Some (FrameError m) \<Rightarrow> [Undecodable m]
                | _ \<Rightarrow> [])))"

primrec report_all :: "report list \<Rightarrow> ('w reporter, unit) io" where
  "report_all [] = io_return ()"
| "report_all (r # rs) = io_seq (report r) (report_all rs)"

text \<open>The loop over the attempts, from number \<open>i\<close> on.\<close>

primrec attempts :: "'w port_ops \<Rightarrow> bytes \<Rightarrow> nat \<Rightarrow> nat \<Rightarrow> ('w reporter, unit) io" where
  "attempts P frame 0 i = report NobodyAnswered"
| "attempts P frame (Suc n) i =
     io_seq (with_port (ser_reset_input_buffer P))
     (io_seq (with_port (ser_write P frame))
     (io_seq (with_port (ser_flush P))
     (io_seq (pause_for P 600000)
     (io_bind (with_port (ser_read P 512)) (\<lambda>resp.
        if resp \<noteq> [] then io_seq (report (Got i resp)) (report_all (answer_reports resp))
        else io_seq (report (NoResponse i)) (attempts P frame n (i + 1)))))))"

text \<open>The script; \<open>False\<close> is its early exit.\<close>

definition preflight :: "'w port_ops \<Rightarrow> string \<Rightarrow> ('w reporter, bool) io" where
  "preflight P port =
     io_seq (report (Opening port))
     (io_bind (\<lambda>s. case ser_open P port (fst s) of
          (Inl (_, text), w) \<Rightarrow> (Inr (Some text), (w, snd s))
        | (Inr _, w) \<Rightarrow> (Inr None, (w, snd s))) (\<lambda>failed.
        case failed of
          Some text \<Rightarrow> io_seq (report (OpenFailed text)) (io_return False)
        | None \<Rightarrow>
            io_seq (report Opened)
            (io_seq (with_port (ser_set_dtr P True))
            (io_seq (pause_for P 200000)
            (io_bind (io_res scan_probe) (\<lambda>frame.
             io_seq (report (Probe frame))
            (io_seq (attempts P frame 3 1)
            (io_seq (with_port (ser_close P))
            (io_seq (report Finished) (io_return True)))))))))) "

section \<open>What it reports\<close>

text \<open>
  Whatever the decoder raises is a \<open>FrameError\<close>, which the script catches; so the reports of an answer are
  those of its frames up to the first that is broken.
\<close>

lemma xid_params_error: "xid_params pl = Inl e \<Longrightarrow> \<exists>m. e = FrameError m"
  by (auto simp: xid_params_def xid_decode_def Let_def split: if_splits)

lemma frame_reports_error: "frame_reports fs = (rs, Some e) \<Longrightarrow> \<exists>m. e = FrameError m"
  by (induction fs arbitrary: rs rule: frame_reports.induct)
    (auto split: sum.splits prod.splits dest: xid_params_error)

lemma io_raises_report [raises_intros]: "io_raises E (report r)"
  by (simp add: io_raises_def report_def)

lemma io_raises_report_all [raises_intros]: "io_raises E (report_all rs)"
  by (induction rs) (auto intro!: raises_intros)

lemma io_raises_with_port [raises_intros]: "io_raises line_error (with_port m)"
  by (rule io_raisesI) (auto simp: with_port_def split: prod.splits sum.splits)

lemma io_raises_pause_for [raises_intros]: "io_raises E (pause_for P t)"
  by (simp add: io_raises_def pause_for_def)

lemma raises_attempts: "io_raises line_error (attempts P frame n i)"
  by (induction n arbitrary: i) (auto intro!: raises_intros)

lemma scan_probe_ok: "\<exists>frame. scan_probe = Inr frame"
  by (simp add: scan_probe_def scan_payload_def xid_encode_def py_bytes_def PI_UNIQUE_ID_def PI_BITMASK_def XID_FI_def
      XID_GI_def build_frame_eq octet_def ADDR_BROADCAST_def ctrl_consts PF_def)

text \<open>The script fails only with the port.\<close>

lemma raises_preflight: "io_raises line_error (preflight P port)"
proof -
  obtain frame where f: "scan_probe = Inr frame" using scan_probe_ok by blast
  have open_it: "io_raises line_error (\<lambda>s. case ser_open P port (fst s) of
      (Inl (_, text), w) \<Rightarrow> (Inr (Some text), (w, snd s)) | (Inr _, w) \<Rightarrow> (Inr None, (w, snd s)))"
    by (rule io_raisesI) (auto split: prod.splits sum.splits)
  show ?thesis
    unfolding preflight_def f
    by (intro io_raises_seq io_raises_bind open_it raises_intros)
      (auto intro!: raises_intros raises_attempts split: option.split)
qed

text \<open>What the loop reports: how often nobody answered, and the first answer.\<close>

definition heard :: "nat \<Rightarrow> nat \<Rightarrow> report list \<Rightarrow> bool" where
  "heard i n rs \<longleftrightarrow>
     rs = map NoResponse [i..<i + n] @ [NobodyAnswered]
     \<or> (\<exists>k resp. i \<le> k \<and> k < i + n \<and> resp \<noteq> [] \<and> rs = map NoResponse [i..<k] @ Got k resp # answer_reports resp)"

lemma heard_later: "heard (i + 1) n rs \<Longrightarrow> heard i (Suc n) (NoResponse i # rs)"
proof -
  assume "heard (i + 1) n rs"
  then consider "rs = map NoResponse [i + 1..<i + 1 + n] @ [NobodyAnswered]"
    | k resp where "i + 1 \<le> k" "k < i + 1 + n" "resp \<noteq> []"
        "rs = map NoResponse [i + 1..<k] @ Got k resp # answer_reports resp"
    unfolding heard_def by blast
  then show ?thesis
  proof cases
    case 1
    then show ?thesis by (simp add: heard_def upt_conv_Cons del: upt_Suc)
  next
    case 2
    then show ?thesis
      unfolding heard_def by (intro disjI2 exI [of _ k] exI [of _ resp]) (simp add: upt_conv_Cons)
  qed
qed

lemma report_all_out: "report_all rs s = (Inr (), (fst s, snd s @ rs))"
  by (induction rs arbitrary: s) (simp_all add: io_defs report_def)

lemma with_port_out: "with_port m s = (Inr a, s') \<Longrightarrow> snd s' = snd s"
  by (auto simp: with_port_def split: prod.splits sum.splits)

lemma attempts_heard: "attempts P frame n i s = (Inr u, s') \<Longrightarrow> \<exists>rs. heard i n rs \<and> snd s' = snd s @ rs"
proof (induction n arbitrary: i s)
  case 0
  then show ?case by (auto simp: report_def heard_def)
next
  case (Suc n)
  let ?quiet = "io_seq (with_port (ser_reset_input_buffer P)) (io_seq (with_port (ser_write P frame))
    (io_seq (with_port (ser_flush P)) (io_seq (pause_for P 600000) (with_port (ser_read P 512)))))"
  obtain resp t where q: "?quiet s = (Inr resp, t)"
    and rest: "(if resp \<noteq> [] then io_seq (report (Got i resp)) (report_all (answer_reports resp))
        else io_seq (report (NoResponse i)) (attempts P frame n (i + 1))) t = (Inr u, s')"
    using Suc.prems by (auto simp: io_seq_def io_bind_def split: prod.splits sum.splits)
  have t: "snd t = snd s"
    using q by (auto simp: io_seq_def io_bind_def pause_for_def split: prod.splits sum.splits dest!: with_port_out)
  show ?case
  proof (cases "resp = []")
    case True
    with rest have "attempts P frame n (i + 1) (fst t, snd t @ [NoResponse i]) = (Inr u, s')"
      by (simp add: io_defs report_def)
    from Suc.IH [OF this] obtain rs where "heard (i + 1) n rs" "snd s' = snd s @ NoResponse i # rs" using t by auto
    then show ?thesis using heard_later by blast
  next
    case False
    with rest t have "snd s' = snd s @ Got i resp # answer_reports resp"
      by (auto simp: io_defs report_def report_all_out)
    with False show ?thesis
      by (intro exI [of _ "Got i resp # answer_reports resp"]) (auto simp: heard_def)
  qed
qed

text \<open>Frames that are whole and whose parameters decode are all reported.\<close>

lemma frames_reported:
  "\<forall>(a, c, p) \<in> set fs. xid_params p = Inr (params p) \<Longrightarrow>
    frame_reports fs = (map (\<lambda>(a, c, p). Frame a c (params p)) fs, None)"
  by (induction fs rule: frame_reports.induct) auto



text \<open>On a line where nothing answers it sends its probe three times and says so.\<close>

lemma attempts_silent:
  assumes "\<And>w. ser_reset_input_buffer P w = (Inr (), w)" and "\<And>b w. ser_write P b w = (Inr (), put b w)"
    and "\<And>w. ser_flush P w = (Inr (), w)" and "\<And>w. ser_read P 512 w = (Inr [], w)" and "\<And>t w. sleep P t w = w"
  shows "attempts P frame n i (w, rs)
    = (Inr (), ((put frame ^^ n) w, rs @ map NoResponse [i..<i + n] @ [NobodyAnswered]))"
  using assms
  by (induction n arbitrary: i w rs)
    (simp_all add: io_defs report_def with_port_def pause_for_def upt_conv_Cons funpow_swap1 del: upt_Suc)

end
