(* ===== verification/Command_Line.thy ===== *)
theory Command_Line
  imports Secondary_Session
begin

text \<open>
  \<open>cli/aisgctl\<close>: the command-line client, after \<open>argparse\<close> has made its arguments. It opens the port,
  finds the devices, and runs one command on one of them with \<open>AisgLink.request\<close> as the transport. What
  it prints is a list; the wording of the lines, and options that only change the printing, are left out.

  Properties: over the strict secondary it prints and exits as over an ideal device; whatever happens
  after the devices are found, the last thing it does is to close the port.
\<close>

section \<open>Arguments, output and exit\<close>

datatype cli_command =
    Cli_scan | Cli_info | Cli_tilt "rat option" | Cli_calibrate | Cli_alarms | Cli_clear_alarms | Cli_self_test | Cli_reset

record cli_args =
  ca_port :: string
  ca_address :: int
  ca_index :: int
  ca_probe :: int
  ca_antenna :: "int option"
  ca_no_dtr :: bool
  ca_command :: cli_command

definition cli_defaults :: "cli_command \<Rightarrow> cli_args" where
  "cli_defaults cmd = \<lparr>ca_port = ''/dev/ttyUSB0'', ca_address = 1, ca_index = 0, ca_probe = 8, ca_antenna = None,
     ca_no_dtr = False, ca_command = cmd\<rparr>"

datatype printed =
    Device_line device
  | Recovered "nat list" "nat list"
  | Field string "nat list"
  | Tilt_is rat
  | Tilt_set_now rat
  | Calibrating
  | Done
  | Alarm_lines "string list"
  | No_alarms
  | Self_test_ok

text \<open>\<open>sys.exit("error: ...")\<close>, or an exception that nothing catches.\<close>

datatype exit_status = Exit_ok | Exit_error string | Traceback exn

definition exit_of :: "exn \<Rightarrow> exit_status" where
  "exit_of e = (if is_aisg_error e then Exit_error (exn_text e) else Traceback e)"

type_synonym 's console = "'s \<times> printed list"

definition linked :: "('s, 'a) io \<Rightarrow> ('s console, 'a) io" where
  "linked m s = (case m (fst s) of (r, l) \<Rightarrow> (r, (l, snd s)))"

definition print_out :: "printed \<Rightarrow> ('s console, unit) io" where
  "print_out p s = (Inr (), (fst s, snd s @ [p]))"

primrec print_all :: "printed list \<Rightarrow> ('s console, unit) io" where
  "print_all [] = io_return ()"
| "print_all (p # ps) = io_seq (print_out p) (print_all ps)"

section \<open>Finding the devices\<close>

definition no_devices_found :: string where
  "no_devices_found = ''no AISG devices found on the bus (check power feed and RS-485 wiring)''"

text \<open>\<open>open_and_setup\<close>, after the port is open.\<close>

definition cli_setup :: "'w port_ops \<Rightarrow> nat \<Rightarrow> cli_args \<Rightarrow> ('w link, device list) io" where
  "cli_setup P fuel args =
     io_bind (scan P fuel) (\<lambda>devices.
       if devices \<noteq> [] then assign_all P fuel devices (ca_address args)
       else io_bind (scan_assigned (nat (ca_probe args)) P fuel (ca_address args)) (\<lambda>found.
         if found = [] then io_raise (AisgError no_devices_found) else io_return found))"

text \<open>\<open>devices[index]\<close>, which counts from the end when the index is negative.\<close>

definition py_nth :: "'a list \<Rightarrow> int \<Rightarrow> 'a res" where
  "py_nth xs i =
     (let k = (if i < 0 then i + int (length xs) else i) in
      if 0 \<le> k \<and> k < int (length xs) then Inr (xs ! nat k) else Inl IndexError)"

section \<open>The commands\<close>

text \<open>
  Over any way to connect to an address and any transport: the link's, or an ideal device's.
\<close>

definition recovered_identity :: "'s transport_ops \<Rightarrow> int \<Rightarrow> ('s console, unit) io" where
  "recovered_identity req a =
     io_bind (linked (get_information req \<lparr>r_addr = a, r_antenna = None\<rparr>)) (\<lambda>info.
       case (map_of info ''product_number'', map_of info ''serial_number'') of
         (Some product, Some serial) \<Rightarrow> print_out (Recovered product serial)
       | _ \<Rightarrow> io_raise KeyError)"

definition cli_recovered ::
  "(int \<Rightarrow> ('s, unit) io) \<Rightarrow> 's transport_ops \<Rightarrow> device \<Rightarrow> ('s console, unit) io" where
  "cli_recovered connect req dev =
     (case address dev of
        None \<Rightarrow> io_raise TypeError
      | Some a \<Rightarrow> io_seq (linked (connect a)) (recovered_identity req a))"

primrec cli_scan ::
  "(int \<Rightarrow> ('s, unit) io) \<Rightarrow> 's transport_ops \<Rightarrow> device list \<Rightarrow> ('s console, unit) io" where
  "cli_scan connect req [] = io_return ()"
| "cli_scan connect req (d # ds) =
     io_seq (print_out (Device_line d))
       (io_seq (if unique_id d = [] then cli_recovered connect req d else io_return ()) (cli_scan connect req ds))"

definition pick_device ::
  "(int \<Rightarrow> ('s, unit) io) \<Rightarrow> cli_args \<Rightarrow> device list \<Rightarrow> ('s console, ret) io" where
  "pick_device connect args devices =
     io_bind (io_res (py_nth devices (ca_index args))) (\<lambda>dev.
       case address dev of
         None \<Rightarrow> io_raise TypeError
       | Some a \<Rightarrow> io_seq (linked (connect a)) (io_return \<lparr>r_addr = a, r_antenna = ca_antenna args\<rparr>))"

fun cli_run :: "'s transport_ops \<Rightarrow> ret \<Rightarrow> cli_command \<Rightarrow> ('s console, unit) io" where
  "cli_run req r Cli_info =
     io_bind (linked (get_information req r)) (\<lambda>info. print_all (map (\<lambda>(k, v). Field k v) info))"
| "cli_run req r (Cli_tilt None) = io_bind (linked (get_tilt req r)) (\<lambda>t. print_out (Tilt_is t))"
| "cli_run req r (Cli_tilt (Some degrees)) =
     io_seq (linked (set_tilt req r degrees))
       (io_bind (linked (get_tilt req r)) (\<lambda>t. print_out (Tilt_set_now t)))"
| "cli_run req r Cli_calibrate =
     io_seq (print_out Calibrating) (io_seq (linked (calibrate req r)) (print_out Done))"
| "cli_run req r Cli_alarms =
     io_bind (linked (get_alarm_status req r)) (\<lambda>alarms.
       print_out (if alarms \<noteq> [] then Alarm_lines alarms else No_alarms))"
| "cli_run req r Cli_clear_alarms = linked (clear_alarms req r)"
| "cli_run req r Cli_self_test = io_seq (linked (self_test req r)) (print_out Self_test_ok)"
| "cli_run req r Cli_reset = linked (reset_software req r)"
| "cli_run req r Cli_scan = io_return ()"

definition cli_body ::
  "(int \<Rightarrow> ('s, unit) io) \<Rightarrow> 's transport_ops \<Rightarrow> cli_args \<Rightarrow> device list \<Rightarrow> ('s console, unit) io" where
  "cli_body connect req args devices =
     (if ca_command args = Cli_scan then cli_scan connect req devices
      else io_bind (pick_device connect args devices) (\<lambda>r. cli_run req r (ca_command args)))"

text \<open>\<open>AisgLink.request\<close> with its default of three retries.\<close>

definition cli_transport :: "'w port_ops \<Rightarrow> nat \<Rightarrow> 'w link transport_ops" where
  "cli_transport P fuel addr message timeout = request P fuel addr message timeout 3"

text \<open>
  \<open>main\<close>: how it exits, what it printed, and the world after it. When no device is found the link is
  not closed: the process ends with the port open.
\<close>

definition status_of :: "unit res \<Rightarrow> exit_status" where
  "status_of r = (case r of Inl e \<Rightarrow> exit_of e | Inr _ \<Rightarrow> Exit_ok)"

definition aisgctl :: "'w port_ops \<Rightarrow> nat \<Rightarrow> cli_args \<Rightarrow> 'w \<Rightarrow> exit_status \<times> printed list \<times> 'w" where
  "aisgctl P fuel args w =
     (case open_link P (ca_port args) (Some (\<not> ca_no_dtr args)) 1000000 w of
        (Inl e, w') \<Rightarrow> (exit_of e, [], w')
      | (Inr l, _) \<Rightarrow>
          (case cli_setup P fuel args l of
             (Inl e, l') \<Rightarrow> (exit_of e, [], world l')
           | (Inr devices, l') \<Rightarrow>
               (case io_finally (cli_body (connect_link P fuel) (cli_transport P fuel) args devices)
                       (linked (close_link P)) (l', []) of
                  (r, (l'', out)) \<Rightarrow> (status_of r, out, world l''))))"

section \<open>The port is closed\<close>

text \<open>The last operation is to close the port, unless no device was found.\<close>

lemma aisgctl_closes:
  assumes "open_link P (ca_port args) (Some (\<not> ca_no_dtr args)) 1000000 w = (Inr l, w0)"
    and "cli_setup P fuel args l = (Inr devices, l1)"
  shows "\<exists>w1 r. aisgctl P fuel args w = (status_of r, snd (snd (cli_body (connect_link P fuel) (cli_transport P fuel) args devices (l1, []))),
      snd (ser_close P w1))
    \<and> w1 = world (fst (snd (cli_body (connect_link P fuel) (cli_transport P fuel) args devices (l1, []))))"
proof -
  obtain r l2 out where b: "cli_body (connect_link P fuel) (cli_transport P fuel) args devices (l1, []) = (r, (l2, out))"
    by (metis prod.exhaust)
  show ?thesis
    using assms b
    by (cases r) (auto simp: aisgctl_def io_finally_def linked_def close_link_def on_port_def on_world_def
        split: prod.split sum.split intro!: exI)
qed

section \<open>The same over two transports\<close>

definition consoles :: "('s \<Rightarrow> 't \<Rightarrow> bool) \<Rightarrow> 's console \<Rightarrow> 't console \<Rightarrow> bool" where
  "consoles R s t \<longleftrightarrow> R (fst s) (fst t) \<and> snd s = snd t"

lemma sim_linked [sim_intros]: "io_sim R m k \<Longrightarrow> io_sim (consoles R) (linked m) (linked k)"
  by (rule io_simI) (auto simp: consoles_def linked_def dest!: io_simD split: prod.splits)

lemma sim_print [sim_intros]: "io_sim (consoles R) (print_out p) (print_out p)"
  by (rule io_simI) (auto simp: consoles_def print_out_def)

lemma sim_print_all [sim_intros]: "io_sim (consoles R) (print_all ps) (print_all ps)"
  by (induction ps) (auto intro: sim_intros)

context transports_agree
begin

lemma agree_recovered: "io_sim (consoles R) (recovered_identity req1 a) (recovered_identity req2 a)"
  unfolding recovered_identity_def by (auto intro!: sim_intros agree_procedures split: option.split)

lemma agree_cli_run: "r_addr r = a \<Longrightarrow> io_sim (consoles R) (cli_run req1 r cmd) (cli_run req2 r cmd)"
proof (cases cmd)
  case (Cli_tilt x)
  assume "r_addr r = a"
  with Cli_tilt show ?thesis by (cases x) (auto intro!: sim_intros agree_procedures)
qed (auto intro!: sim_intros agree_procedures)

end

context fake_line
begin

lemma cli_request_keeps_up:
  assumes "60 \<le> fuel" and "m \<noteq> []" and "uint (hd m) \<notin> set INDICATION_CODES" and "proc_timeout \<le> t"
  shows "io_sim (keeps_up dev a rs ms n ns) (cli_transport P fuel a m t) (ideal_device (answer rs) a m t)"
proof (rule io_simI)
  fix l taken
  assume "keeps_up dev a rs ms n ns l taken"
  then obtain s where s: "in_step dev a s l" "serves rs s" "commands_in (frames_sent dev l) = ms @ taken"
    "sc_i_frames_seen s = n + int (length taken)" "sc_rejected_ns s = ns" by (auto simp: keeps_up_def)
  have sv: "0 \<le> sc_i_frames_seen s" "sc_rr_before_response s < 60" using s(2) by (simp_all add: serves_def)
  let ?opts = "xdefaults\<lparr>opt_timeout := t * (3 + 1)\<rparr>"
  have opts: "opt_router ?opts (answer rs m) = ACCEPT" "calm_polls dev (opt_on_poll ?opts)" "0 \<le> opt_poll_interval ?opts"
    "int (sc_rr_before_response s) * (opt_poll_interval ?opts + 4) + 3 \<le> opt_timeout ?opts"
    "sc_rr_before_response s < fuel"
    using assms(1,4) sv(2) by (simp_all add: xdefaults_def accept_all_def calm_polls_def proc_timeout_def)
  from exchange_served [OF s(1) serves_response [OF s(2) assms(2)] sv(1) opts(1-3,5,4)]
  obtain l' where l': "exchange P fuel a m ?opts l = (Inr (answer rs m), l')"
    "in_step dev a (served (took (answer rs m) s)) l'"
    "frames_sent dev l' = frames_sent dev l @ transcript a m s" by blast
  have "commands_in (transcript a m s) = [m]"
    using s(1) by (intro commands_transcript) (simp_all add: in_step_def ready_def)
  with l' s have "keeps_up dev a rs ms n ns l' (taken @ [m])" by (auto simp: keeps_up_def)
  with l'(1) show "\<exists>r s' t'. cli_transport P fuel a m t l = (r, s')
      \<and> ideal_device (answer rs) a m t taken = (r, t') \<and> keeps_up dev a rs ms n ns s' t'"
    by (simp add: cli_transport_def request_def ideal_device_def io_catch_def)
qed

text \<open>Connecting to a device that was found.\<close>

lemma connect_keeps_up:
  assumes "findable dev a rs cs l" and "0 < fuel"
  shows "\<exists>l' n ns. connect_link P fuel a l = (Inr (), l') \<and> keeps_up dev a rs cs n ns l' []"
  using io_postE [OF findable_connect [OF assms(2)] assms(1)] in_session_keeps_up by (metis unit.exhaust)

end

interpretation cli_agrees:
  transports_agree "cli_transport fake_port (fuel + 60)" "ideal_device (answer rs)"
    "keeps_up (\<lambda>w. w) a rs ms n ns" a for fuel rs a ms n ns
  by unfold_locales (simp add: alone.cli_request_keeps_up)

text \<open>A device that holds an address, as \<open>scan_assigned\<close> makes it up.\<close>

definition held_address :: "int \<Rightarrow> device" where
  "held_address a = \<lparr>unique_id = [], device_type = None, vendor = None, address = Some a\<rparr>"

lemma scan_assigned_devices:
  "scan_assigned n P fuel first l = (Inr ds, l') \<Longrightarrow> map address ds = [Some a] \<Longrightarrow> ds = [held_address a]"
proof -
  have "scan_assigned n P fuel first l = (Inr ds, l') \<Longrightarrow> \<forall>d \<in> set ds. d = held_address (the (address d))" for ds l l'
    by (induction n arbitrary: first l ds l')
      (fastforce simp: io_bind_def io_return_def held_address_def split: prod.splits sum.splits if_splits)+
  then show "scan_assigned n P fuel first l = (Inr ds, l') \<Longrightarrow> map address ds = [Some a] \<Longrightarrow> ds = [held_address a]"
    by fastforce
qed

definition within_reach :: "cli_args \<Rightarrow> int \<Rightarrow> bool" where
  "within_reach args a \<longleftrightarrow> 0 \<le> ca_address args \<and> ca_address args \<le> a \<and> a < ca_address args + ca_probe args
     \<and> ca_address args + ca_probe args \<le> 255"

lemma setup_finds:
  assumes "findable (\<lambda>w. w) a rs cs l" and "within_reach args a" and "1000000 \<le> fuel"
  shows "\<exists>l'. cli_setup fake_port fuel args l = (Inr [held_address a], l') \<and> findable (\<lambda>w. w) a rs cs l'"
proof -
  from io_postE [OF alone.findable_scan [OF assms(3)] assms(1)] obtain l1 where
    l1: "scan fake_port fuel l = (Inr [], l1)" "findable (\<lambda>w. w) a rs cs l1" by metis
  have n: "0 \<le> ca_address args" "ca_address args + int (nat (ca_probe args)) \<le> 255"
    "ca_address args \<le> a \<and> a < ca_address args + int (nat (ca_probe args))"
    using assms(2) by (auto simp: within_reach_def)
  from io_postE [OF alone.findable_scan_assigned [OF assms(3) n(1,2)] l1(2)] obtain ds l2 where
    l2: "scan_assigned (nat (ca_probe args)) fake_port fuel (ca_address args) l1 = (Inr ds, l2)"
    "map address ds = [Some a]" "findable (\<lambda>w. w) a rs cs l2" using n(3) by (metis (mono_tags, lifting))
  from scan_assigned_devices [OF l2(1,2)] l1(1) l2 show ?thesis by (simp add: cli_setup_def io_bind_def io_return_def)
qed

section \<open>Over the strict secondary\<close>

text \<open>What follows a connection agrees with the ideal device, for which there is nothing to connect.\<close>

lemma after_connecting:
  assumes "findable (\<lambda>w. w) a rs cs l" and "0 < fuel"
    and "\<And>ms n ns. io_sim (consoles (keeps_up (\<lambda>w. w) a rs ms n ns)) k1 k2"
    and "k2 ([], out0) = (r, (taken, out))"
  shows "\<exists>l'. io_seq (linked (connect_link fake_port fuel a)) k1 (l, out0) = (r, (l', out))
    \<and> commands_in (fk_sent (world l')) = cs @ taken"
proof -
  from alone.connect_keeps_up [OF assms(1,2)] obtain l1 n ns where
    l1: "connect_link fake_port fuel a l = (Inr (), l1)"
    "keeps_up (\<lambda>w. w) a rs cs n ns l1 []" by blast
  let ?R = "keeps_up (\<lambda>w. w) a rs cs n ns"
  have "consoles ?R (l1, out0) ([], out0)" using l1(2) by (simp add: consoles_def)
  from io_simD [OF assms(3) this] assms(4) obtain l2 where
    "k1 (l1, out0) = (r, (l2, out))" "?R l2 taken" by (auto simp: consoles_def)
  with l1(1) show ?thesis
    by (auto simp: io_seq_def io_bind_def linked_def keeps_up_def frames_sent_def)
qed

lemma nothing_to_connect: "io_seq (linked (io_return ())) k s = k s"
  by (simp add: io_seq_def io_bind_def linked_def io_return_def)

lemma address_held [simp]: "address (held_address a) = Some a" "unique_id (held_address a) = []"
  by (simp_all add: held_address_def)

lemma scan_agrees:
  assumes "findable (\<lambda>w. w) a rs cs l"
    and "cli_scan (\<lambda>_. io_return ()) (ideal_device (answer rs)) [held_address a] ([], []) = (r, (taken, out))"
  shows "\<exists>l'. cli_scan (connect_link fake_port (fuel + 60)) (cli_transport fake_port (fuel + 60)) [held_address a] (l, [])
      = (r, (l', out)) \<and> commands_in (fk_sent (world l')) = cs @ taken"
proof -
  have shape: "cli_scan connect req [held_address a] (t, [])
      = io_seq (linked (connect a)) (recovered_identity req a) (t, [Device_line (held_address a)])"
    for connect :: "int \<Rightarrow> ('s, unit) io" and req :: "'s transport_ops" and t
    by (auto simp: cli_recovered_def io_seq_def io_bind_def io_return_def print_out_def linked_def split: prod.split sum.split)
  from after_connecting [OF assms(1) _ cli_agrees.agree_recovered, of "fuel + 60" "[Device_line (held_address a)]" r taken out fuel]
    assms(2) show ?thesis
    unfolding shape by (simp add: nothing_to_connect)
qed

lemma pick_agrees:
  assumes "findable (\<lambda>w. w) a rs cs l"
    and "io_bind (pick_device (\<lambda>_. io_return ()) args [held_address a]) (\<lambda>r. cli_run (ideal_device (answer rs)) r cmd) ([], [])
      = (r, (taken, out))"
  shows "\<exists>l'. io_bind (pick_device (connect_link fake_port (fuel + 60)) args [held_address a])
      (\<lambda>r. cli_run (cli_transport fake_port (fuel + 60)) r cmd) (l, []) = (r, (l', out))
    \<and> commands_in (fk_sent (world l')) = cs @ taken"
proof (cases "py_nth [held_address a] (ca_index args)")
  case (Inl e)
  with assms(2) findableE [OF assms(1)] show ?thesis
    by (auto simp: pick_device_def io_bind_def io_res_def io_raise_def frames_sent_def)
next
  case (Inr d)
  then have "d = held_address a" by (auto simp: py_nth_def Let_def split: if_splits)
  with Inr have nth: "io_res (py_nth [held_address a] (ca_index args)) = io_return (held_address a)"
    by (simp add: fun_eq_iff io_res_def io_return_def)
  have shape: "io_bind (pick_device connect args [held_address a]) f
      = io_seq (linked (connect a)) (f \<lparr>r_addr = a, r_antenna = ca_antenna args\<rparr>)"
    for connect :: "int \<Rightarrow> ('s, unit) io" and f :: "ret \<Rightarrow> ('s console, unit) io"
    unfolding pick_device_def nth
    by (auto simp: fun_eq_iff io_bind_def io_seq_def io_return_def split: prod.split sum.split)
  have "io_sim (consoles (keeps_up (\<lambda>w. w) a rs ms n ns))
      (cli_run (cli_transport fake_port (fuel + 60)) \<lparr>r_addr = a, r_antenna = ca_antenna args\<rparr> cmd)
      (cli_run (ideal_device (answer rs)) \<lparr>r_addr = a, r_antenna = ca_antenna args\<rparr> cmd)" for ms n ns
    by (rule cli_agrees.agree_cli_run) simp
  from after_connecting [OF assms(1) _ this, of "fuel + 60" "[]" r taken out] assms(2) show ?thesis
    unfolding shape by (simp add: nothing_to_connect)
qed

text \<open>
  C6: the command-line client end to end, over the strict secondary. When the address of the device is
  among those it polls, it finds it, whatever was left on the line; it prints what it prints with the
  ideal device and exits in the same way (with the error, or with the exception that it does not catch),
  whatever the command, the antenna and the index; the commands it sends are its own and no others, each
  once; and the port is closed.
\<close>

theorem aisgctl_answers:
  assumes device: "ready a (fk_sec v)" "serves rs (fk_sec v)"
    and port: "idle (fk_deframer v)" "0 \<le> fk_timeout v"
    and reach: "within_reach args a" "1000000 \<le> fuel"
    and ideal: "cli_body (\<lambda>_. io_return ()) (ideal_device (answer rs)) args [held_address a] ([], []) = (r, (taken, out))"
  shows "\<exists>v'. aisgctl fake_port fuel args v = (status_of r, out, v')
    \<and> commands_in (fk_sent v') = commands_in (fk_sent v) @ taken \<and> \<not> fk_open v'"
proof -
  define cs where "cs = commands_in (fk_sent v)"
  obtain l where l: "open_link fake_port (ca_port args) (Some (\<not> ca_no_dtr args)) 1000000 v = (Inr l, world l)"
    "findable (\<lambda>w. w) a rs cs l"
    using device port by (fastforce simp: open_link_def fake_port_def findable_def at_rest_def new_link_def frames_sent_def cs_def)
  from setup_finds [OF l(2) reach] obtain l1 where
    l1: "cli_setup fake_port fuel args l = (Inr [held_address a], l1)" "findable (\<lambda>w. w) a rs cs l1" by blast
  have fuel: "fuel - 60 + 60 = fuel" using reach(2) by simp
  have "\<exists>l2. cli_body (connect_link fake_port fuel) (cli_transport fake_port fuel) args [held_address a] (l1, []) = (r, (l2, out))
      \<and> commands_in (fk_sent (world l2)) = cs @ taken"
    using scan_agrees [OF l1(2), of r taken out "fuel - 60"]
      pick_agrees [OF l1(2), of args "ca_command args" r taken out "fuel - 60"] ideal
    unfolding cli_body_def fuel by (simp split: if_splits)
  then obtain l2 where l2:
    "cli_body (connect_link fake_port fuel) (cli_transport fake_port fuel) args [held_address a] (l1, []) = (r, (l2, out))"
    "commands_in (fk_sent (world l2)) = cs @ taken" by blast
  have "aisgctl fake_port fuel args v = (status_of r, out, (world l2)\<lparr>fk_open := False\<rparr>)"
    using l(1) l1(1) l2(1)
    by (cases r) (simp_all add: aisgctl_def io_finally_def linked_def close_link_def on_port_def on_world_def fake_port_def)
  with l2(2) show ?thesis by (simp add: cs_def)
qed

text \<open>The device of the tests, at address 5: setting its tilt, and a tilt that does not fit.\<close>

theorem aisgctl_answers_witness:
  "(\<exists>v'. aisgctl fake_port 1000000 (cli_defaults (Cli_tilt (Some 3))) (new_fake (new_secondary 5 default_responses))
      = (Exit_ok, [Tilt_set_now 3], v')
      \<and> commands_in (fk_sent v') = [[0x33, 2, 0, 30, 0], [0x34, 0, 0]] \<and> \<not> fk_open v')
    \<and> (\<exists>v'. aisgctl fake_port 1000000 (cli_defaults (Cli_tilt (Some 4000))) (new_fake (new_secondary 5 default_responses))
      = (Traceback StructError, [], v') \<and> commands_in (fk_sent v') = [] \<and> \<not> fk_open v')"
proof -
  let ?v = "new_fake (new_secondary 5 default_responses)"
  have d: "ready 5 (fk_sec ?v)" "idle (fk_deframer ?v)" "0 \<le> fk_timeout ?v"
    by (simp_all add: ready_def new_fake_def new_secondary_def octet_def)
  have "speaks default_responses"
    by (simp add: speaks_def default_responses_def retap_response_def procedure_codes)
  then have s: "serves default_responses (fk_sec ?v)" by (simp add: serves_def new_fake_def new_secondary_def)
  have w: "within_reach (cli_defaults cmd) 5" for cmd by (simp add: within_reach_def cli_defaults_def)
  have ok: "cli_body (\<lambda>_. io_return ()) (ideal_device (answer default_responses)) (cli_defaults (Cli_tilt (Some 3)))
      [held_address 5] ([], []) = (Inr (), ([[0x33, 2, 0, 30, 0], [0x34, 0, 0]], [Tilt_set_now 3]))"
    by code_simp
  have large: "cli_body (\<lambda>_. io_return ()) (ideal_device (answer default_responses)) (cli_defaults (Cli_tilt (Some 4000)))
      [held_address 5] ([], []) = (Inl StructError, ([], []))"
    by code_simp
  have "commands_in (fk_sent ?v) = []" by (simp add: new_fake_def commands_in_def)
  then show ?thesis
    using aisgctl_answers [OF d(1) s d(2,3) w _ ok, of 1000000] aisgctl_answers [OF d(1) s d(2,3) w _ large, of 1000000]
    by (simp add: status_of_def exit_of_def)
qed

end
