(* ===== verification/Sniffer.thy ===== *)
theory Sniffer
  imports Hdlc_Framing
begin

text \<open>
  \<open>utils/sniff_bridge.py\<close>: a bridge between a pseudo-terminal (\<open>app\<close>) and the adapter (\<open>dev\<close>) that logs
  what passes in both directions, decoded as frames.

  One pass of the endless loop is a function of what \<open>select\<close> and the reads gave: per side the bytes
  read, if it was ready, and how many of them the pseudo-terminal took of the one \<open>os.write\<close>. A line of
  the log is its time, side, bytes and decoding; the opening of the files and the texts printed are left
  out, and an error of the operating system ends the program.

  Lemmas: the capture is complete, in order and unaltered; the bridge forwards every byte to the device,
  and to the application whenever \<open>os.write\<close> takes all it is given.
\<close>

section \<open>Decoding\<close>

definition frame_kind_text :: "int \<Rightarrow> string" where
  "frame_kind_text ctrl =
     (if ctrl AND 1 = 0 then ''I''
      else if ctrl AND 0x0F \<in> {0x01, 0x05, 0x09} then ''RR/S'' else ''U:'' @ hex02X ctrl)"

definition frame_text :: "frame \<Rightarrow> string" where
  "frame_text f = (case f of (addr, ctrl, pl) \<Rightarrow>
     ''[addr='' @ hex02X addr @ '' ctrl='' @ hex02X ctrl @ '' '' @ frame_kind_text ctrl @ '' pl='' @ hex_sp pl @ '']'')"

fun join_sp :: "string list \<Rightarrow> string" where
  "join_sp [] = []"
| "join_sp [s] = s"
| "join_sp (s # t # ss) = s @ CHR '' '' # join_sp (t # ss)"

definition decode :: "bytes \<Rightarrow> string res" where
  "decode data =
     (case list_parse_frames data of
        Inr fs \<Rightarrow> Inr (join_sp (map frame_text fs))
      | Inl (FrameError m) \<Rightarrow> Inr (''['' @ m @ '']'')
      | Inl e \<Rightarrow> Inl e)"

section \<open>The bridge\<close>

datatype side = App | Dev

record log_line =
  ll_time :: time
  ll_side :: side
  ll_data :: bytes
  ll_text :: string

record sniffer =
  sf_pending :: "side \<Rightarrow> bytes"
  sf_last :: "side \<Rightarrow> time"
  sf_log :: "log_line list"
  sf_to_dev :: bytes
  sf_to_app :: bytes

definition new_sniffer :: sniffer where
  "new_sniffer = \<lparr>sf_pending = (\<lambda>_. []), sf_last = (\<lambda>_. 0), sf_log = [], sf_to_dev = [], sf_to_app = []\<rparr>"

text \<open>What one pass finds.\<close>

record pass =
  ps_now :: time
  ps_app :: "bytes option"
  ps_dev :: "bytes option"
  ps_taken :: nat
  ps_logged_at :: "side \<Rightarrow> time"

definition flush_side :: "time \<Rightarrow> side \<Rightarrow> sniffer \<Rightarrow> sniffer res" where
  "flush_side now s sf =
     (if sf_pending sf s = [] then Inr sf
      else res_bind (decode (sf_pending sf s)) (\<lambda>text. Inr
        (sf\<lparr>sf_log := sf_log sf @ [\<lparr>ll_time = now, ll_side = s, ll_data = sf_pending sf s, ll_text = text\<rparr>],
            sf_pending := (sf_pending sf)(s := [])\<rparr>)))"

definition from_app :: "pass \<Rightarrow> sniffer \<Rightarrow> sniffer" where
  "from_app p sf =
     (case ps_app p of
        None \<Rightarrow> sf
      | Some data \<Rightarrow> sf\<lparr>sf_to_dev := sf_to_dev sf @ data, sf_pending := (sf_pending sf)(App := sf_pending sf App @ data),
          sf_last := (sf_last sf)(App := ps_now p)\<rparr>)"

definition from_dev :: "pass \<Rightarrow> sniffer \<Rightarrow> sniffer" where
  "from_dev p sf =
     (case ps_dev p of
        None \<Rightarrow> sf
      | Some data \<Rightarrow>
          if data = [] then sf
          else sf\<lparr>sf_to_app := sf_to_app sf @ take (ps_taken p) data,
            sf_pending := (sf_pending sf)(Dev := sf_pending sf Dev @ data),
            sf_last := (sf_last sf)(Dev := ps_now p)\<rparr>)"

definition flush_idle :: "pass \<Rightarrow> side \<Rightarrow> sniffer \<Rightarrow> sniffer res" where
  "flush_idle p s sf =
     (if sf_pending sf s \<noteq> [] \<and> ps_now p - sf_last sf s > 20000 then flush_side (ps_logged_at p s) s sf else Inr sf)"

definition bridge_pass :: "sniffer \<Rightarrow> pass \<Rightarrow> sniffer res" where
  "bridge_pass sf p = res_bind (flush_idle p App (from_dev p (from_app p sf))) (flush_idle p Dev)"

fun bridge_run :: "sniffer \<Rightarrow> pass list \<Rightarrow> sniffer res" where
  "bridge_run sf [] = Inr sf"
| "bridge_run sf (p # ps) = res_bind (bridge_pass sf p) (\<lambda>sf'. bridge_run sf' ps)"

section \<open>The capture\<close>

definition captured :: "side \<Rightarrow> sniffer \<Rightarrow> bytes" where
  "captured s sf = concat (map ll_data (filter (\<lambda>l. ll_side l = s) (sf_log sf))) @ sf_pending sf s"

definition read_of :: "side \<Rightarrow> pass \<Rightarrow> bytes" where
  "read_of s p = (case (case s of App \<Rightarrow> ps_app p | Dev \<Rightarrow> ps_dev p) of None \<Rightarrow> [] | Some d \<Rightarrow> d)"

lemma decode_total: "\<exists>text. decode data = Inr text"
proof (cases "list_parse_frames data")
  case (Inl e)
  then have "\<exists>m. e = FrameError m"
    using parse_chunks_error [of "py_split FLAG data" e]
    by (auto simp: list_parse_frames_def parse_frames_def split: prod.splits option.splits)
  with Inl show ?thesis by (auto simp: decode_def)
qed (simp add: decode_def)

lemma flush_idle_captures:
  "\<exists>sf'. flush_idle p s sf = Inr sf' \<and> captured t sf' = captured t sf
    \<and> sf_to_dev sf' = sf_to_dev sf \<and> sf_to_app sf' = sf_to_app sf"
  using decode_total [of "sf_pending sf s"]
  by (auto simp: flush_idle_def flush_side_def captured_def)

lemma reading_captures:
  "captured t (from_dev p (from_app p sf)) = captured t sf @ read_of t p"
  "sf_to_dev (from_dev p (from_app p sf)) = sf_to_dev sf @ read_of App p"
  "sf_to_app (from_dev p (from_app p sf)) = sf_to_app sf @ take (ps_taken p) (read_of Dev p)"
  by (cases t; auto simp: captured_def from_dev_def from_app_def read_of_def split: option.split)+

lemma bridge_pass_captures:
  "\<exists>sf'. bridge_pass sf p = Inr sf' \<and> captured t sf' = captured t sf @ read_of t p
    \<and> sf_to_dev sf' = sf_to_dev sf @ read_of App p
    \<and> sf_to_app sf' = sf_to_app sf @ take (ps_taken p) (read_of Dev p)"
proof -
  let ?r = "from_dev p (from_app p sf)"
  obtain s1 where s1: "flush_idle p App ?r = Inr s1" "captured t s1 = captured t ?r"
    "sf_to_dev s1 = sf_to_dev ?r" "sf_to_app s1 = sf_to_app ?r"
    using flush_idle_captures [of p App ?r t] by blast
  obtain s2 where s2: "flush_idle p Dev s1 = Inr s2" "captured t s2 = captured t s1"
    "sf_to_dev s2 = sf_to_dev s1" "sf_to_app s2 = sf_to_app s1"
    using flush_idle_captures [of p Dev s1 t] by blast
  with s1 show ?thesis by (simp add: bridge_pass_def reading_captures)
qed

text \<open>
  Whatever arrives and whenever, the loop never fails on the data: every byte read is in the log or
  waiting for it, in order and on its side, and every byte of the application has gone to the device.
  \<open>os.write\<close> is called once for what the device sent, so what the pseudo-terminal did not take is lost
  to the application although it is in the log.
\<close>

lemma capture_complete:
  "\<exists>sf'. bridge_run sf ps = Inr sf' \<and> captured t sf' = captured t sf @ concat (map (read_of t) ps)
    \<and> sf_to_dev sf' = sf_to_dev sf @ concat (map (read_of App) ps)
    \<and> sf_to_app sf' = sf_to_app sf @ concat (map (\<lambda>p. take (ps_taken p) (read_of Dev p)) ps)"
proof (induction ps arbitrary: sf)
  case (Cons p ps)
  obtain s1 where s1: "bridge_pass sf p = Inr s1" "captured t s1 = captured t sf @ read_of t p"
    "sf_to_dev s1 = sf_to_dev sf @ read_of App p" "sf_to_app s1 = sf_to_app sf @ take (ps_taken p) (read_of Dev p)"
    using bridge_pass_captures [of sf p t] by blast
  with Cons.IH [of s1] show ?case by auto
qed simp

lemma bridge_transparent:
  assumes "\<forall>p \<in> set ps. length (read_of Dev p) \<le> ps_taken p"
  shows "\<exists>sf'. bridge_run new_sniffer ps = Inr sf' \<and> sf_to_app sf' = concat (map (read_of Dev) ps)
    \<and> sf_to_dev sf' = concat (map (read_of App) ps)"
proof -
  have "map (\<lambda>p. take (ps_taken p) (read_of Dev p)) ps = map (read_of Dev) ps" using assms by simp
  with capture_complete [of new_sniffer ps App] show ?thesis by (auto simp: new_sniffer_def)
qed

end
