(* ===== verification/Secondary_Reports.thy ===== *)
theory Secondary_Reports
  imports Secondary_Link
begin

text \<open>
  A transfer in the middle of which the secondary reports alarms. Each report is an I-frame of its own,
  sent at a poll before the response is, and sent twice by a secondary whose acknowledgement went
  missing. The primary answers each frame with a poll, so that more and more answers are under way; what
  it reads is a prefix of what the secondary has to say, and the proofs follow that script.

  Property: every report is handed over exactly once and in order, and the command gets its response.
\<close>

section \<open>The script\<close>

text \<open>
  What the secondary \<open>h\<close> that took a command still has to say: its next N(S), the reports, and how many
  times it will say that it is still working on the response \<open>p\<close>; \<open>None\<close> once that is sent.
\<close>

type_synonym script = "int \<times> bytes list \<times> nat option"

fun say :: "secondary \<Rightarrow> bytes \<Rightarrow> script \<Rightarrow> frame list \<times> script" where
  "say h p (ns, r # rs, w) =
     (replicate (if sc_duplicate_indication h then 2 else 1) (sc_addr h, i_ctrl ns (sc_vr h), r), ((ns + 1) AND 7, rs, w))"
| "say h p (ns, [], Some 0) =
     (replicate (if sc_duplicate_response h then 2 else 1) (sc_addr h, i_ctrl ns (sc_vr h), p), ((ns + 1) AND 7, [], None))"
| "say h p (ns, [], Some (Suc k)) = ([(sc_addr h, rr_ctrl (sc_vr h) True, [])], (ns, [], Some k))"
| "say h p (ns, [], None) = ([(sc_addr h, rr_ctrl (sc_vr h) True, [])], (ns, [], None))"

primrec says :: "secondary \<Rightarrow> bytes \<Rightarrow> nat \<Rightarrow> script \<Rightarrow> frame list \<times> script" where
  "says h p 0 c = ([], c)"
| "says h p (Suc n) c = (fst (say h p c) @ fst (says h p n (snd (say h p c))), snd (says h p n (snd (say h p c))))"

lemma says_snoc: "says h p (Suc n) c = (fst (says h p n c) @ fst (say h p (snd (says h p n c))), snd (say h p (snd (says h p n c))))"
  by (induction n arbitrary: c) auto

lemma says_add: "says h p (m + n) c = (fst (says h p m c) @ fst (says h p n (snd (says h p m c))), snd (says h p n (snd (says h p m c))))"
  by (induction m arbitrary: c) auto

lemma says_over: "says h p n (ns, [], None) = (replicate n (sc_addr h, rr_ctrl (sc_vr h) True, []), (ns, [], None))"
  by (induction n) auto

text \<open>A secondary in good order: there may be reports to make, but it neither loses nor refuses a command.\<close>

definition steady :: "int \<Rightarrow> secondary \<Rightarrow> bool" where
  "steady a s \<longleftrightarrow> octet a \<and> sc_addr s = a \<and> seq_no (sc_vs s) \<and> seq_no (sc_vr s)
     \<and> sc_reject_with s = None \<and> (sc_swallow_first s \<longrightarrow> 1 \<le> sc_i_frames_seen s)"

lemma steadyD:
  assumes "steady a s"
  shows "octet a" "sc_addr s = a" "seq_no (sc_vs s)" "seq_no (sc_vr s)" "sc_reject_with s = None"
    "sc_swallow_first s \<longrightarrow> 1 \<le> sc_i_frames_seen s"
  using assms by (auto simp: steady_def)

definition station :: "secondary \<Rightarrow> bytes \<Rightarrow> script \<Rightarrow> int \<Rightarrow> secondary" where
  "station h p c n =
     (case c of (ns, rs, w) \<Rightarrow>
        h\<lparr>sc_vs := ns, sc_indications := rs, sc_pending := (case w of None \<Rightarrow> None | Some _ \<Rightarrow> Some p),
          sc_owed_rr := (case w of None \<Rightarrow> 0 | Some k \<Rightarrow> k), sc_polls_seen := n\<rparr>)"

definition in_range :: "script \<Rightarrow> bool" where
  "in_range c \<longleftrightarrow> seq_no (fst c)"

lemma say_in_range [simp]: "in_range c \<Longrightarrow> in_range (snd (say h p c))"
  by (cases "(h, p, c)" rule: say.cases) (simp_all add: in_range_def)

lemma says_in_range [simp]: "in_range c \<Longrightarrow> in_range (snd (says h p n c))"
  by (induction n arbitrary: c) simp_all

lemma say_octets: "octet (sc_addr h) \<Longrightarrow> in_range c \<Longrightarrow> seq_no (sc_vr h) \<Longrightarrow> \<forall>f \<in> set (fst (say h p c)). octets f"
  by (cases "(h, p, c)" rule: say.cases) (auto simp: in_range_def octets_def)

lemma sec_next_station:
  assumes "in_range c"
  shows "sec_next (station h p c n) = (fst (say h p c), station h p (snd (say h p c)) n)"
proof -
  have "seq_no (sc_vs (station h p c n))" using assms by (auto simp: station_def in_range_def split: prod.split)
  then show ?thesis
    by (cases "(h, p, c)" rule: say.cases)
      (simp_all add: sec_next_def station_def sec_send_eq sec_rr_eq)
qed

lemma station_poll: "(station h p c n)\<lparr>sc_polls_seen := sc_polls_seen (station h p c n) + 1\<rparr> = station h p c (n + 1)"
  by (simp add: station_def split: prod.split)

lemma station_polled:
  assumes "steady a h" and "in_range c" and "seq_no v"
  shows "sec_call (a, rr_ctrl v True, []) (station h p c n) = (fst (say h p c), station h p (snd (say h p c)) (n + 1))"
    and "sec_call (a, rr_ctrl v False, []) (station h p c n) = ([], station h p c n)"
proof -
  have "sc_addr (station h p c n) = a" using assms(1) by (auto simp: station_def steady_def split: prod.split)
  then show "sec_call (a, rr_ctrl v True, []) (station h p c n) = (fst (say h p c), station h p (snd (say h p c)) (n + 1))"
    "sec_call (a, rr_ctrl v False, []) (station h p c n) = ([], station h p c n)"
    using assms(3) sec_next_station [OF assms(2)] station_poll by (simp_all add: sec_call_def)
qed

section \<open>What is under way\<close>

text \<open>The next \<open>n\<close> answers of the script are on the line.\<close>

definition ahead :: "('w \<Rightarrow> fake) \<Rightarrow> secondary \<Rightarrow> bytes \<Rightarrow> script \<Rightarrow> nat \<Rightarrow> time \<Rightarrow> 'w link \<Rightarrow> bool" where
  "ahead dev h p c n t l \<longleftrightarrow> in_range c \<and> (\<exists>k. line dev (station h p (snd (says h p n c)) k) (fst (says h p n c)) t l)"

text \<open>An observation of the world that the port does not touch: where a callback leaves its notes.\<close>

locale observed_line = fake_line P dev put
  for P :: "'w port_ops" and dev :: "'w \<Rightarrow> fake" and put :: "fake \<Rightarrow> 'w \<Rightarrow> 'w" +
  fixes obs :: "'w \<Rightarrow> 'o" and jot :: "'o \<Rightarrow> bytes \<Rightarrow> 'o"
  assumes obs_put [simp]: "obs (put d w) = obs w"
begin

sublocale noted: port_local P "\<lambda>l. obs (world l) = v" for v
  by unfold_locales (auto simp: io_keeps_def split: prod.split)

lemma noted_write: "link_write P f l = (r, l') \<Longrightarrow> obs (world l') = obs (world l)"
  by (auto simp: link_write_def io_defs split: prod.splits)

lemma noted_read: "read_frames P fuel b l = (r, l') \<Longrightarrow> obs (world l') = obs (world l)"
  using io_keepsD [OF noted.keeps_read_frames [of "obs (world l)" fuel b], of l] by simp

lemma send_ahead:
  assumes "ahead dev h p c n t l" and "steady a h" and "seq_no v"
  shows "\<exists>l'. send_rr P a v poll l = (Inr (), l') \<and> ahead dev h p c (if poll then Suc n else n) t l'
    \<and> peers l' = peers l \<and> obs (world l') = obs (world l)"
proof -
  from assms(1) obtain k where c: "in_range c" and k: "line dev (station h p (snd (says h p n c)) k) (fst (says h p n c)) t l"
    by (auto simp: ahead_def)
  let ?d = "snd (says h p n c)"
  have oct: "octets (a, rr_ctrl v b, [])" for b using assms(2,3) by (simp add: octets_def steadyD(1))
  have d: "in_range ?d" using c by simp
  have octs: "\<forall>f \<in> set (fst (say h p ?d)). octets f"
    using say_octets [OF _ d, of h p] steadyD(1,2,4) [OF assms(2)] by simp
  note call = station_polled [OF assms(2) d assms(3), of p k]
  have send: "send_rr P a v poll = link_write P (wire (a, rr_ctrl v poll, []))"
    using assms(2,3) by (intro send_rr_wire) (simp_all add: steadyD(1))
  show ?thesis
  proof (cases poll)
    case True
    from line_write [OF k oct call(1) octs] obtain l' where
      l': "link_write P (wire (a, rr_ctrl v True, [])) l = (Inr (), l')"
      "line dev (station h p (snd (say h p ?d)) (k + 1)) (fst (says h p n c) @ fst (say h p ?d)) t l'" "peers l' = peers l"
      by blast
    with c True send noted_write [OF l'(1)] show ?thesis
      by (auto simp: ahead_def says_snoc simp del: says.simps)
  next
    case False
    from line_write [OF k oct call(2)] obtain l' where
      l': "link_write P (wire (a, rr_ctrl v False, [])) l = (Inr (), l')"
      "line dev (station h p ?d k) (fst (says h p n c)) t l'" "peers l' = peers l" by auto
    with c False send noted_write [OF l'(1)] show ?thesis by (auto simp: ahead_def)
  qed
qed

lemma says_nonempty: "fst (says h p (Suc n) c) \<noteq> []"
  by (cases "(h, p, c)" rule: say.cases) simp_all

lemma read_ahead:
  assumes "ahead dev h p c (Suc n) t l" and "0 < fuel"
  shows "\<exists>l'. read_frames P fuel b l = (Inr (fst (says h p (Suc n) c)), l')
    \<and> ahead dev h p (snd (says h p (Suc n) c)) 0 (t + 2) l' \<and> peers l' = peers l \<and> obs (world l') = obs (world l)"
proof -
  from assms(1) obtain k where c: "in_range c"
    and k: "line dev (station h p (snd (says h p (Suc n) c)) k) (fst (says h p (Suc n) c)) t l"
    by (auto simp: ahead_def simp del: says.simps)
  from line_read [OF k says_nonempty assms(2), of b] obtain l' where
    l': "read_frames P fuel b l = (Inr (fst (says h p (Suc n) c)), l')"
    "line dev (station h p (snd (says h p (Suc n) c)) k) [] (t + 2) l'" "peers l' = peers l" by blast
  have "in_range (snd (says h p (Suc n) c))" using c by (rule says_in_range)
  with l' noted_read [OF l'(1)] show ?thesis
    unfolding ahead_def says.simps(1) by (intro exI [of _ l']) auto
qed

end

section \<open>What the primary makes of it\<close>

lemma ahead_update [simp]:
  "ahead dev h p c n t (l\<lparr>peers := ps\<rparr>) = ahead dev h p c n t l" "ahead dev h p c n t (l\<lparr>stats := st\<rparr>) = ahead dev h p c n t l"
  by (simp_all add: ahead_def)

text \<open>
  The arguments of a transfer over this line: the response is accepted, each report is taken for one and
  noted, and the callbacks leave the line alone.
\<close>

definition noting :: "('w \<Rightarrow> fake) \<Rightarrow> ('w \<Rightarrow> 'o) \<Rightarrow> ('o \<Rightarrow> bytes \<Rightarrow> 'o) \<Rightarrow> (bytes \<Rightarrow> 'w \<Rightarrow> 'w) \<Rightarrow> bool" where
  "noting dev obs jot g \<longleftrightarrow> (\<forall>r w. dev (g r w) = dev w \<and> obs (g r w) = jot (obs w) r)"

definition quiet_polls :: "('w \<Rightarrow> fake) \<Rightarrow> ('w \<Rightarrow> 'o) \<Rightarrow> (int \<Rightarrow> bool \<Rightarrow> 'w \<Rightarrow> 'w) option \<Rightarrow> bool" where
  "quiet_polls dev obs g \<longleftrightarrow> calm_polls dev g \<and> (\<forall>h n k w. g = Some h \<longrightarrow> obs (h n k w) = obs w)"

definition reports_args :: "('w \<Rightarrow> fake) \<Rightarrow> ('w \<Rightarrow> 'o) \<Rightarrow> ('o \<Rightarrow> bytes \<Rightarrow> 'o) \<Rightarrow> secondary \<Rightarrow> bytes \<Rightarrow> bytes list \<Rightarrow> 'w xargs \<Rightarrow> bool" where
  "reports_args dev obs jot h p rs c \<longleftrightarrow>
     xa_addr c = sc_addr h \<and> seq_no (xa_sent_ns c) \<and> sc_vr h = (xa_sent_ns c + 1) AND 7
     \<and> xa_router c p = ACCEPT \<and> (\<forall>r \<in> set rs. xa_router c r = INDICATION)
     \<and> (\<exists>g. xa_on_indication c = Some g \<and> noting dev obs jot g) \<and> quiet_polls dev obs (xa_on_poll c)
     \<and> 0 \<le> xa_poll_interval c"

lemma reports_argsD:
  assumes "reports_args dev obs jot h p rs c"
  shows "xa_addr c = sc_addr h" "seq_no (xa_sent_ns c)" "sc_vr h = (xa_sent_ns c + 1) AND 7" "xa_router c p = ACCEPT"
    "quiet_polls dev obs (xa_on_poll c)" "0 \<le> xa_poll_interval c"
  using assms by (auto simp: reports_args_def)

lemma reports_args_tl: "reports_args dev obs jot h p (r # rs) c \<Longrightarrow> reports_args dev obs jot h p rs c \<and> xa_router c r = INDICATION"
  by (auto simp: reports_args_def)

context observed_line
begin

lemma note_ahead:
  assumes "ahead dev h p c n t l" and "noting dev obs jot g"
  shows "\<exists>l'. call_back (Some (g r)) l = (Inr (), l') \<and> ahead dev h p c n t l' \<and> peers l' = peers l
    \<and> obs (world l') = jot (obs (world l)) r"
  using assms by (auto simp: call_back_def on_world_def ahead_def line_def noting_def Let_def)

lemma clock_ahead:
  "ahead dev h p c n t l \<Longrightarrow> \<exists>l'. clock P l = (Inr t, l') \<and> ahead dev h p c n (t + 1) l' \<and> peers l' = peers l
    \<and> obs (world l') = obs (world l)"
  by (auto simp: ahead_def line_def Let_def)

lemma handle_report:
  assumes args: "reports_args dev obs jot h p (r # rs) c" and h: "steady a h"
    and ah: "ahead dev h p c1 n t l" and ns: "seq_no ns" "vr (peer_of l a) = ns"
    and ack: "acked x \<Longrightarrow> vs (peer_of l a) = sc_vr h"
  shows "\<exists>l'. handle_frame P c x (a, i_ctrl ns (sc_vr h), r) l
      = (Inr (Go (x\<lparr>acked := True, deadline := min (deadline x + xa_poll_interval c * 4) (t + xa_timeout c)\<rparr>)), l')
    \<and> ahead dev h p c1 (Suc n) (t + 1) l' \<and> vr (peer_of l' a) = (ns + 1) AND 7 \<and> vs (peer_of l' a) = sc_vr h
    \<and> obs (world l') = jot (obs (world l)) r"
proof -
  note A = reports_argsD [OF args]
  obtain g where g: "xa_on_indication c = Some g" "noting dev obs jot g" using args by (auto simp: reports_args_def)
  have router: "xa_router c r = INDICATION" using reports_args_tl [OF args] by simp
  have a: "xa_addr c = a" using A(1) steadyD(2) [OF h] by simp
  let ?n = "(ns + 1) AND 7"
  let ?p = "(peer_of l a)\<lparr>vs := sc_vr h, vr := ?n\<rparr>"
  define l1 where "l1 = l\<lparr>peers := (peers l)(a \<mapsto> ?p)\<rparr>"
  have "ahead dev h p c1 n t l1" using ah by (simp add: l1_def)
  from send_ahead [OF this h, of ?n True] obtain l2 where l2: "send_rr P a ?n True l1 = (Inr (), l2)"
    "ahead dev h p c1 (Suc n) t l2" "peers l2 = peers l1" "obs (world l2) = obs (world l1)" by auto
  from note_ahead [OF l2(2) g(2), of r] obtain l3 where l3: "call_back (Some (g r)) l2 = (Inr (), l3)"
    "ahead dev h p c1 (Suc n) t l3" "peers l3 = peers l2" "obs (world l3) = jot (obs (world l2)) r" by blast
  from clock_ahead [OF l3(2)] obtain l4 where l4: "clock P l3 = (Inr t, l4)"
    "ahead dev h p c1 (Suc n) (t + 1) l4" "peers l4 = peers l3" "obs (world l4) = obs (world l3)" by blast
  have same: "(peer_of l a)\<lparr>vr := q\<rparr> = (peer_of l a)\<lparr>vs := sc_vr h, vr := q\<rparr>" if "acked x" for q
    using ack [OF that] by (cases "peer_of l a") simp
  have nd: "sc_vr h \<noteq> xa_sent_ns c" using next_seq_differs [OF A(2)] A(3) by simp
  have sv: "seq_no (sc_vr h)" using steadyD(4) [OF h] .
  have "handle_frame P c x (a, i_ctrl ns (sc_vr h), r) l
      = (Inr (Go (x\<lparr>acked := True, deadline := min (deadline x + xa_poll_interval c * 4) (t + xa_timeout c)\<rparr>)), l4)"
    using ns a A(3) nd sv router g(1) l2(1) l3(1) l4(1) same
    by (cases "acked x") (auto simp: handle_frame_def handle_i_frame_def apply_ack_def upd_peer_def get_peer_def
        io_defs Let_def l1_def simp del: on_fake)
  moreover have "peer_of l4 a = ?p" using l2(3) l3(3) l4(3) by (simp add: peer_of_def l1_def)
  moreover have "obs (world l4) = jot (obs (world l)) r" using l2(4) l3(4) l4(4) by (simp add: l1_def)
  ultimately show ?thesis using l4(2) by auto
qed

lemma handle_repeat:
  assumes args: "reports_args dev obs jot h p rs c" and h: "steady a h"
    and ah: "ahead dev h p c1 n t l" and ns: "seq_no ns" "vr (peer_of l a) \<noteq> ns" "seq_no (vr (peer_of l a))"
    and x: "acked x"
  shows "\<exists>l'. handle_frame P c x (a, i_ctrl ns (sc_vr h), r) l = (Inr (Go x), l')
    \<and> ahead dev h p c1 (Suc n) t l' \<and> peer_of l' a = peer_of l a \<and> obs (world l') = obs (world l)"
proof -
  note A = reports_argsD [OF args]
  have a: "xa_addr c = a" using A(1) steadyD(2) [OF h] by simp
  define l1 where "l1 = l\<lparr>peers := (peers l)(a \<mapsto> peer_of l a), stats := (stats l)\<lparr>st_dup_i := st_dup_i (stats l) + 1\<rparr>\<rparr>"
  have "ahead dev h p c1 n t l1" using ah by (simp add: l1_def)
  from send_ahead [OF this h ns(3), of True] obtain l2 where l2: "send_rr P a (vr (peer_of l a)) True l1 = (Inr (), l2)"
    "ahead dev h p c1 (Suc n) t l2" "peers l2 = peers l1" "obs (world l2) = obs (world l1)" by auto
  have nd: "sc_vr h \<noteq> xa_sent_ns c" using next_seq_differs [OF A(2)] A(3) by simp
  have "x\<lparr>acked := True\<rparr> = x" using x by (cases x) simp
  then have "handle_frame P c x (a, i_ctrl ns (sc_vr h), r) l = (Inr (Go x), l2)"
    using ns a nd steadyD(4) [OF h] l2(1) x
    by (auto simp: handle_frame_def handle_i_frame_def upd_stats_def get_peer_def io_defs Let_def l1_def simp del: on_fake)
  moreover have "peer_of l2 a = peer_of l a" using l2(3) by (simp add: peer_of_def l1_def)
  ultimately show ?thesis using l2 by (auto simp: l1_def)
qed

end

section \<open>A turn of the transfer\<close>

definition tracks :: "int \<Rightarrow> secondary \<Rightarrow> xstate \<Rightarrow> int \<Rightarrow> 'w link \<Rightarrow> bool" where
  "tracks a h x ns l \<longleftrightarrow> seq_no ns \<and> vr (peer_of l a) = ns \<and> (acked x \<longrightarrow> vs (peer_of l a) = sc_vr h)"

lemma handle_frames_two:
  "handle_frames P c (fs @ gs) x = io_bind (handle_frames P c fs x) (\<lambda>r.
     case r of Done pl \<Rightarrow> io_return (Done pl) | Go x' \<Rightarrow> handle_frames P c gs x')"
  by (induction fs arbitrary: x) (auto simp: io_defs fun_eq_iff split: prod.split sum.split xnext.split)

lemma handle_frames_go: "handle_frames P c fs x l = (Inr (Go x1), l1) \<Longrightarrow> handle_frames P c (fs @ gs) x l = handle_frames P c gs x1 l1"
  by (simp add: handle_frames_two io_bind_def)

lemma handle_frames_done: "handle_frames P c fs x l = (Inr (Done q), l1) \<Longrightarrow> handle_frames P c (fs @ gs) x l = (Inr (Done q), l1)"
  by (simp add: handle_frames_two io_defs)

context observed_line
begin

lemma handle_said_report:
  assumes args: "reports_args dev obs jot h p (r # rs) c" and h: "steady a h"
    and ah: "ahead dev h p c1 n t l" and tr: "tracks a h x ns l"
  shows "\<exists>l' n'. handle_frames P c (fst (say h p (ns, r # rs, w))) x l
      = (Inr (Go (x\<lparr>acked := True, deadline := min (deadline x + xa_poll_interval c * 4) (t + xa_timeout c)\<rparr>)), l')
    \<and> ahead dev h p c1 (Suc n') (t + 1) l' \<and> obs (world l') = jot (obs (world l)) r
    \<and> tracks a h (x\<lparr>acked := True, deadline := min (deadline x + xa_poll_interval c * 4) (t + xa_timeout c)\<rparr>) ((ns + 1) AND 7) l'"
proof -
  let ?x = "x\<lparr>acked := True, deadline := min (deadline x + xa_poll_interval c * 4) (t + xa_timeout c)\<rparr>"
  let ?f = "(a, i_ctrl ns (sc_vr h), r)"
  note a = steadyD(2) [OF h]
  have ns: "seq_no ns" "vr (peer_of l a) = ns" "acked x \<Longrightarrow> vs (peer_of l a) = sc_vr h" using tr by (simp_all add: tracks_def)
  from handle_report [OF args h ah ns] obtain l1 where l1: "handle_frame P c x ?f l = (Inr (Go ?x), l1)"
    "ahead dev h p c1 (Suc n) (t + 1) l1" "vr (peer_of l1 a) = (ns + 1) AND 7" "vs (peer_of l1 a) = sc_vr h"
    "obs (world l1) = jot (obs (world l)) r" by blast
  show ?thesis
  proof (cases "sc_duplicate_indication h")
    case False
    with l1 a show ?thesis
      by (intro exI [of _ l1] exI [of _ n]) (simp add: tracks_def io_defs)
  next
    case True
    have "vr (peer_of l1 a) \<noteq> ns" "seq_no (vr (peer_of l1 a))" using l1(3) next_seq_differs [OF ns(1)] by simp_all
    from handle_repeat [OF _ h l1(2) ns(1) this, of rs c ?x r] reports_args_tl [OF args] obtain l2 where
      l2: "handle_frame P c ?x ?f l1 = (Inr (Go ?x), l2)" "ahead dev h p c1 (Suc (Suc n)) (t + 1) l2"
      "peer_of l2 a = peer_of l1 a" "obs (world l2) = obs (world l1)" by auto
    with l1 a True show ?thesis
      by (intro exI [of _ l2] exI [of _ "Suc n"]) (simp add: tracks_def io_defs numeral_2_eq_2)
  qed
qed

lemma handle_said_response:
  assumes args: "reports_args dev obs jot h p [] c" and h: "steady a h"
    and ah: "ahead dev h p c1 n t l" and tr: "tracks a h x ns l"
  shows "\<exists>l'. handle_frames P c (fst (say h p (ns, [], Some 0))) x l = (Inr (Done p), l')
    \<and> ahead dev h p c1 n t l' \<and> vr (peer_of l' a) = (ns + 1) AND 7 \<and> vs (peer_of l' a) = sc_vr h
    \<and> obs (world l') = obs (world l)"
proof -
  note A = reports_argsD [OF args]
  have a: "xa_addr c = a" using A(1) steadyD(2) [OF h] by simp
  let ?n = "(ns + 1) AND 7"
  have ns: "seq_no ns" "vr (peer_of l a) = ns" "acked x \<Longrightarrow> vs (peer_of l a) = sc_vr h" using tr by (simp_all add: tracks_def)
  define l1 where "l1 = l\<lparr>peers := (peers l)(a \<mapsto> (peer_of l a)\<lparr>vs := sc_vr h, vr := ?n\<rparr>)\<rparr>"
  have "ahead dev h p c1 n t l1" using ah by (simp add: l1_def)
  from send_ahead [OF this h, of ?n False] obtain l2 where l2: "send_rr P a ?n False l1 = (Inr (), l2)"
    "ahead dev h p c1 n t l2" "peers l2 = peers l1" "obs (world l2) = obs (world l1)" by auto
  have same: "(peer_of l a)\<lparr>vr := q\<rparr> = (peer_of l a)\<lparr>vs := sc_vr h, vr := q\<rparr>" if "acked x" for q
    using ns(3) [OF that] by (cases "peer_of l a") simp
  have nd: "sc_vr h \<noteq> xa_sent_ns c" using next_seq_differs [OF A(2)] A(3) by simp
  have l1: "l\<lparr>peers := (peers l)(a \<mapsto> (peer_of l a)\<lparr>vr := ?n\<rparr>)\<rparr> = l1" if "acked x"
    using same [OF that, of ?n] by (simp add: l1_def)
  have "handle_frame P c x (a, i_ctrl ns (sc_vr h), p) l = (Inr (Done p), l2)"
  proof (cases "acked x")
    case True
    then show ?thesis
      using ns a A(4) nd steadyD(4) [OF h] l2(1) l1
      by (simp add: handle_frame_def handle_i_frame_def upd_peer_def get_peer_def io_defs Let_def del: on_fake)
  next
    case False
    then show ?thesis
      using ns a A(3,4) nd steadyD(4) [OF h] l2(1)
      by (simp add: handle_frame_def handle_i_frame_def apply_ack_def upd_peer_def get_peer_def
          io_defs Let_def l1_def del: on_fake)
  qed
  then have "handle_frames P c (fst (say h p (ns, [], Some 0))) x l = (Inr (Done p), l2)"
    using steadyD(2) [OF h] by (simp add: io_defs numeral_2_eq_2)
  with l2 show ?thesis by (auto simp: l1_def peer_of_def)
qed

lemma handle_said_rr:
  assumes args: "reports_args dev obs jot h p [] c" and h: "steady a h"
    and ah: "ahead dev h p c1 n t l" and tr: "tracks a h x ns l"
  shows "\<exists>l'. handle_frames P c (fst (say h p (ns, [], Some (Suc w)))) x l = (Inr (Go (x\<lparr>acked := True\<rparr>)), l')
    \<and> ahead dev h p c1 n t l' \<and> obs (world l') = obs (world l) \<and> tracks a h (x\<lparr>acked := True\<rparr>) ns l'"
proof -
  note A = reports_argsD [OF args]
  define l1 where "l1 = (if acked x then l else l\<lparr>peers := (peers l)(a \<mapsto> (peer_of l a)\<lparr>vs := sc_vr h\<rparr>)\<rparr>)"
  have "handle_frames P c (fst (say h p (ns, [], Some (Suc w)))) x l = (Inr (Go (x\<lparr>acked := True\<rparr>)), l1)"
    using handle_rr [OF A(2,3), of P x l] A(1) steadyD(2) [OF h] by (simp add: l1_def)
  with ah tr show ?thesis by (auto simp: l1_def tracks_def)
qed

end

text \<open>
  What the first \<open>m\<close> answers of a script make of a transfer: it goes on, with the reports among them noted
  and the rest of the script ahead, or the response was among them.
\<close>

definition turned ::
  "('w \<Rightarrow> fake) \<Rightarrow> ('w \<Rightarrow> 'o) \<Rightarrow> ('o \<Rightarrow> bytes \<Rightarrow> 'o) \<Rightarrow> secondary \<Rightarrow> bytes \<Rightarrow> 'w xargs \<Rightarrow> int \<Rightarrow> bytes list \<Rightarrow> nat \<Rightarrow> nat \<Rightarrow> xstate
    \<Rightarrow> time \<Rightarrow> 'w link \<Rightarrow> xnext \<Rightarrow> 'w link \<Rightarrow> bool" where
  "turned dev obs jot h p c a rs w m x t l out l' \<longleftrightarrow>
     (case out of
        Go x' \<Rightarrow> m \<le> length rs + w \<and> (acked x \<or> 0 < m \<longrightarrow> acked x') \<and> deadline x \<le> deadline x'
          \<and> (\<exists>ns' rs' w' told n' t'. ahead dev h p (ns', rs', Some w') n' t' l' \<and> length rs' + w' + m = length rs + w
              \<and> t \<le> t' \<and> t' \<le> t + int m \<and> tracks a h x' ns' l' \<and> rs = told @ rs'
              \<and> obs (world l') = foldl jot (obs (world l)) told \<and> deadline x' \<le> t' + xa_timeout c)
      | Done q \<Rightarrow> q = p \<and> length rs + w < m
          \<and> (\<exists>n' t'. ahead dev h p (vr (peer_of l' a), [], None) n' t' l' \<and> vs (peer_of l' a) = sc_vr h
              \<and> obs (world l') = foldl jot (obs (world l)) rs))"

lemma turned_go:
  assumes "m \<le> length rs + w" "acked x \<or> 0 < m \<longrightarrow> acked x'" "deadline x \<le> deadline x'"
    "ahead dev h p (ns', rs', Some w') n' t' l'" "length rs' + w' + m = length rs + w" "t \<le> t'" "t' \<le> t + int m"
    "tracks a h x' ns' l'" "rs = told @ rs'" "obs (world l') = foldl jot (obs (world l)) told" "deadline x' \<le> t' + xa_timeout c"
  shows "turned dev obs jot h p c a rs w m x t l (Go x') l'"
  using assms unfolding turned_def by (simp only: xnext.case) blast

lemma turned_more:
  assumes t1: "turned dev obs jot h p c a rs w m x1 t1 l1 out l'" and x: "deadline x \<le> deadline x1" "acked x1"
    and t: "t \<le> t1" "t1 \<le> t + 1" and told: "obs (world l1) = foldl jot (obs (world l)) told1"
    and more: "length rs0 + w0 = Suc (length rs + w)" "rs0 = told1 @ rs"
  shows "turned dev obs jot h p c a rs0 w0 (Suc m) x t l out l'"
proof (cases out)
  case (Go x')
  with t1 obtain ns' rs' w' told n' t' where g: "m \<le> length rs + w" "acked x'" "deadline x1 \<le> deadline x'"
    "ahead dev h p (ns', rs', Some w') n' t' l'" "length rs' + w' + m = length rs + w" "t1 \<le> t'" "t' \<le> t1 + int m"
    "tracks a h x' ns' l'" "rs = told @ rs'" "obs (world l') = foldl jot (obs (world l1)) told" "deadline x' \<le> t' + xa_timeout c"
    using x(2) by (auto simp: turned_def)
  have "length rs' + w' + Suc m = length rs0 + w0" "t \<le> t'" "t' \<le> t + int (Suc m)" "rs0 = (told1 @ told) @ rs'"
    "obs (world l') = foldl jot (obs (world l)) (told1 @ told)" "deadline x \<le> deadline x'" "Suc m \<le> length rs0 + w0"
    using g more t told x(1) by simp_all
  from turned_go [OF this(7) _ this(6) g(4) this(1-3) g(8) this(4,5) g(11)] g(2) Go show ?thesis by simp
next
  case (Done q)
  with t1 told more show ?thesis by (auto simp: turned_def)
qed

context observed_line
begin

lemma handle_script:
  "reports_args dev obs jot h p rs c \<Longrightarrow> steady a h \<Longrightarrow> in_range (ns, rs, Some w)
    \<Longrightarrow> ahead dev h p (snd (says h p m (ns, rs, Some w))) n t l \<Longrightarrow> tracks a h x ns l \<Longrightarrow> deadline x \<le> t + xa_timeout c
    \<Longrightarrow> \<exists>out l'. handle_frames P c (fst (says h p m (ns, rs, Some w))) x l = (Inr out, l')
      \<and> turned dev obs jot h p c a rs w m x t l out l'"
proof (induction m arbitrary: ns rs w n t l x)
  case 0
  then have "turned dev obs jot h p c a rs w 0 x t l (Go x) l"
    by (intro turned_go [where told = "[]" and rs' = rs and w' = w]) auto
  then show ?case by (auto simp: io_defs)
next
  case (Suc m)
  note a = steadyD(2) [OF Suc.prems(2)]
  note A = reports_argsD [OF Suc.prems(1)]
  let ?next = "snd (say h p (ns, rs, Some w))"
  have ah: "ahead dev h p (snd (says h p m ?next)) n t l" using Suc.prems(4) by simp
  show ?case
  proof (cases rs)
    case (Cons r rs')
    let ?x = "x\<lparr>acked := True, deadline := min (deadline x + xa_poll_interval c * 4) (t + xa_timeout c)\<rparr>"
    have args: "reports_args dev obs jot h p (r # rs') c" using Suc.prems(1) Cons by simp
    from handle_said_report [OF args Suc.prems(2) ah Suc.prems(5), of "Some w"] obtain l1 n1 where
      l1: "handle_frames P c (fst (say h p (ns, rs, Some w))) x l = (Inr (Go ?x), l1)"
      "ahead dev h p (snd (says h p m ((ns + 1) AND 7, rs', Some w))) (Suc n1) (t + 1) l1" "obs (world l1) = jot (obs (world l)) r"
      "tracks a h ?x ((ns + 1) AND 7) l1" by (auto simp: Cons)
    have "in_range ((ns + 1) AND 7, rs', Some w)" "deadline ?x \<le> t + 1 + xa_timeout c"
      using Suc.prems(5) by (simp_all add: in_range_def)
    from Suc.IH [OF conjunct1 [OF reports_args_tl [OF args]] Suc.prems(2) this(1) l1(2,4) this(2)] obtain out l' where
      o: "handle_frames P c (fst (says h p m ((ns + 1) AND 7, rs', Some w))) ?x l1 = (Inr out, l')"
      "turned dev obs jot h p c a rs' w m ?x (t + 1) l1 out l'" by blast
    have "turned dev obs jot h p c a rs w (Suc m) x t l out l'"
      by (rule turned_more [OF o(2)]) (use l1(3) A(6) Suc.prems(6) Cons in auto)
    with handle_frames_go [OF l1(1)] o(1) show ?thesis by (auto simp: Cons)
  next
    case Nil
    then show ?thesis
    proof (cases w)
      case 0
      from handle_said_response [OF _ Suc.prems(2) ah Suc.prems(5)] Suc.prems(1) obtain l1 where
        l1: "handle_frames P c (fst (say h p (ns, [], Some 0))) x l = (Inr (Done p), l1)"
        "ahead dev h p (snd (says h p m ((ns + 1) AND 7, [], None))) n t l1" "vr (peer_of l1 a) = (ns + 1) AND 7"
        "vs (peer_of l1 a) = sc_vr h" "obs (world l1) = obs (world l)" by (auto simp: Nil 0)
      with handle_frames_done [OF l1(1)] show ?thesis
        by (auto simp: Nil 0 turned_def says_over)
    next
      case (Suc v)
      let ?x = "x\<lparr>acked := True\<rparr>"
      from handle_said_rr [OF _ Suc.prems(2) ah Suc.prems(5)] Suc.prems(1) obtain l1 where
        l1: "handle_frames P c (fst (say h p (ns, [], Some (Suc v)))) x l = (Inr (Go ?x), l1)"
        "ahead dev h p (snd (says h p m (ns, [], Some v))) n t l1" "obs (world l1) = obs (world l)" "tracks a h ?x ns l1"
        by (auto simp: Nil Suc)
      have "in_range (ns, [], Some v)" "deadline ?x \<le> t + xa_timeout c" "reports_args dev obs jot h p [] c"
        using Suc.prems(1,3,6) by (simp_all add: in_range_def Nil)
      from Suc.IH [OF this(3) Suc.prems(2) this(1) l1(2,4) this(2)] obtain out l' where
        o: "handle_frames P c (fst (says h p m (ns, [], Some v))) ?x l1 = (Inr out, l')"
        "turned dev obs jot h p c a [] v m ?x t l1 out l'" by blast
      have "turned dev obs jot h p c a rs w (Suc m) x t l out l'"
        by (rule turned_more [OF o(2)]) (use l1(3) Nil Suc in auto)
      with handle_frames_go [OF l1(1)] o(1) show ?thesis by (auto simp: Nil Suc)
    qed
  qed
qed

end

section \<open>The transfer\<close>

text \<open>Polls that were answered after the last transfer was over: their answers are read first.\<close>

definition stale :: "int \<Rightarrow> int \<Rightarrow> nat \<Rightarrow> frame list" where
  "stale a sn j = replicate j (a, rr_ctrl sn True, [])"

definition after_stale ::
  "('w \<Rightarrow> fake) \<Rightarrow> int \<Rightarrow> nat \<Rightarrow> secondary \<Rightarrow> bytes \<Rightarrow> script \<Rightarrow> nat \<Rightarrow> time \<Rightarrow> 'w link \<Rightarrow> bool" where
  "after_stale dev sn j h p c n t l \<longleftrightarrow>
     in_range c \<and> (\<exists>k. line dev (station h p (snd (says h p n c)) k) (stale (sc_addr h) sn j @ fst (says h p n c)) t l)"

lemma after_stale_none: "after_stale dev sn 0 h p c n t l = ahead dev h p c n t l"
  by (simp add: after_stale_def ahead_def stale_def)

lemma handle_stale:
  assumes "seq_no (xa_sent_ns c)"
  shows "handle_frames P c (stale (xa_addr c) (xa_sent_ns c) j) x l = (Inr (Go (x\<lparr>missing := missing x \<or> 0 < j\<rparr>)), l)"
proof (induction j arbitrary: x)
  case 0
  then show ?case by (cases x) (simp add: stale_def io_defs)
next
  case (Suc j)
  have "handle_frame P c x (xa_addr c, rr_ctrl (xa_sent_ns c) True, []) l = (Inr (Go (x\<lparr>missing := True\<rparr>)), l)"
    using assms next_seq_differs [OF assms, symmetric]
    by (cases x) (simp add: handle_frame_def apply_ack_def io_defs Let_def)
  with Suc.IH [of "x\<lparr>missing := True\<rparr>"] show ?case by (simp add: stale_def io_defs)
qed

context observed_line
begin

lemma read_after_stale:
  assumes "after_stale dev sn j h p c (Suc n) t l" and "0 < fuel"
  shows "\<exists>l'. read_frames P fuel b l = (Inr (stale (sc_addr h) sn j @ fst (says h p (Suc n) c)), l')
    \<and> ahead dev h p (snd (says h p (Suc n) c)) 0 (t + 2) l' \<and> peers l' = peers l \<and> obs (world l') = obs (world l)"
proof -
  from assms(1) obtain k where c: "in_range c" and k: "line dev (station h p (snd (says h p (Suc n) c)) k)
      (stale (sc_addr h) sn j @ fst (says h p (Suc n) c)) t l"
    by (auto simp: after_stale_def simp del: says.simps)
  have "stale (sc_addr h) sn j @ fst (says h p (Suc n) c) \<noteq> []" using says_nonempty by simp
  from line_read [OF k this assms(2), of b] obtain l' where
    l': "read_frames P fuel b l = (Inr (stale (sc_addr h) sn j @ fst (says h p (Suc n) c)), l')"
    "line dev (station h p (snd (says h p (Suc n) c)) k) [] (t + 2) l'" "peers l' = peers l" by blast
  have "in_range (snd (says h p (Suc n) c))" using c by (rule says_in_range)
  with l' noted_read [OF l'(1)] show ?thesis
    unfolding ahead_def says.simps(1) by (intro exI [of _ l']) auto
qed

lemma poll_ahead:
  assumes args: "reports_args dev obs jot h p rs c" and h: "steady a h"
    and ah: "ahead dev h p c1 n t l" and tr: "tracks a h x ns l" and x: "acked x" "t \<le> deadline x"
  shows "\<exists>l' t'. poll_again P c x l = (Inr (x\<lparr>polls := polls x + 1\<rparr>), l') \<and> ahead dev h p c1 (Suc n) t' l'
    \<and> t \<le> t' \<and> t' \<le> t + 2 + xa_poll_interval c \<and> tracks a h (x\<lparr>polls := polls x + 1\<rparr>) ns l' \<and> obs (world l') = obs (world l)"
proof -
  note A = reports_argsD [OF args]
  have a: "xa_addr c = a" using A(1) steadyD(2) [OF h] by simp
  from clock_ahead [OF ah] obtain l1 where l1: "clock P l = (Inr t, l1)" "ahead dev h p c1 n (t + 1) l1"
    "peers l1 = peers l" "obs (world l1) = obs (world l)" by blast
  define l2 where "l2 = l1\<lparr>stats := (stats l1)\<lparr>st_polls := st_polls (stats l1) + 1\<rparr>\<rparr>"
  let ?g = "map_option (\<lambda>g. g (polls x + 1) True) (xa_on_poll c)"
  have l2: "ahead dev h p c1 n (t + 1) l2" using l1(2) by (simp add: l2_def)
  then obtain k where c1: "in_range c1" and k: "line dev (station h p (snd (says h p n c1)) k) (fst (says h p n c1)) (t + 1) l2"
    by (auto simp: ahead_def)
  have "\<forall>g. ?g = Some g \<longrightarrow> calm dev g" using A(5) by (auto simp: quiet_polls_def calm_polls_def)
  from line_call_back [OF k this] obtain l3 u where l3: "call_back ?g l2 = (Inr (), l3)"
    "line dev (station h p (snd (says h p n c1)) k) (fst (says h p n c1)) u l3" "t + 1 \<le> u" "u \<le> t + 2" "peers l3 = peers l2"
    by (elim exE conjE) simp
  have o3: "obs (world l3) = obs (world l2)"
    using l3(1) A(5) by (cases "xa_on_poll c") (auto simp: call_back_def on_world_def io_defs quiet_polls_def)
  from line_sleep [OF l3(2) A(6)] obtain l4 where l4: "sleep_for P (xa_poll_interval c) l3 = (Inr (), l4)"
    "line dev (station h p (snd (says h p n c1)) k) (fst (says h p n c1)) (u + xa_poll_interval c) l4" "peers l4 = peers l3"
    by blast
  have o4: "obs (world l4) = obs (world l3)" using l4(1) by auto
  have "peer_of l4 a = peer_of l a" using l1(3) l3(5) l4(3) by (simp add: peer_of_def l2_def)
  moreover define l5 where "l5 = l4\<lparr>peers := (peers l4)(a \<mapsto> peer_of l4 a)\<rparr>"
  ultimately have l5: "ahead dev h p c1 n (u + xa_poll_interval c) l5" "peer_of l5 a = peer_of l a"
    using l4(2) c1 by (auto simp: ahead_def)
  have v: "seq_no (vr (peer_of l4 a))" "vr (peer_of l4 a) = ns"
    using tr \<open>peer_of l4 a = peer_of l a\<close> by (auto simp: tracks_def)
  from send_ahead [OF l5(1) h v(1), of True] obtain l6 where l6: "send_rr P a (vr (peer_of l4 a)) True l5 = (Inr (), l6)"
    "ahead dev h p c1 (Suc n) (u + xa_poll_interval c) l6" "peers l6 = peers l5" "obs (world l6) = obs (world l5)" by auto
  have "poll_again P c x l = (Inr (x\<lparr>polls := polls x + 1\<rparr>), l6)"
    using x a l1(1) l3(1) l4(1) l6(1)
    by (simp add: poll_again_def upd_stats_def get_peer_def io_defs Let_def l2_def [symmetric] l5_def [symmetric] del: on_fake)
  moreover have "peer_of l6 a = peer_of l a" using l6(3) l5(2) by (simp add: peer_of_def)
  moreover have "obs (world l6) = obs (world l)" using l1(4) o3 o4 l6(4) by (simp add: l2_def l5_def)
  ultimately show ?thesis using l6(2) l3(3,4) A(6) tr by (auto simp: tracks_def)
qed

end

text \<open>The sequence numbers agree, and nothing is under way but answers to polls of the last transfer.\<close>

definition near_step :: "('w \<Rightarrow> fake) \<Rightarrow> int \<Rightarrow> secondary \<Rightarrow> 'w link \<Rightarrow> bool" where
  "near_step dev a s l \<longleftrightarrow> steady a s \<and> (\<exists>j t. line dev s (stale a (sc_vr s) j) t l)
     \<and> vs (peer_of l a) = sc_vr s \<and> vr (peer_of l a) = sc_vs s"

lemma in_step_near: "in_step dev a s l \<Longrightarrow> near_step dev a s l"
  by (auto simp: in_step_def near_step_def ready_def steady_def stale_def intro!: exI [of _ "0::nat"])

lemma steady_took: "steady a s \<Longrightarrow> 0 \<le> sc_i_frames_seen s \<Longrightarrow> steady a (took p s)"
  by (auto simp: steady_def took_def)

lemma took_station:
  "took p s = station (took p s) p (sc_vs s, sc_indications s, Some (sc_rr_before_response s)) (sc_polls_seen s)"
  by (simp add: took_def station_def)

lemma steady_command:
  assumes "steady a s" and "response_for m s = Some p" and "seq_no n"
  shows "sec_call (a, i_ctrl (sc_vr s) n, m) s = sec_next (took p s)"
  using assms steadyD(6) [OF assms(1)]
  by (auto simp: sec_call_def sec_command_def Let_def steadyD(1-5) response_for_def took_def split: option.splits list.splits)

lemma steady_station: "steady a h \<Longrightarrow> in_range c \<Longrightarrow> steady a (station h p c k)"
  by (auto simp: steady_def station_def in_range_def split: prod.split)

context observed_line
begin

lemma reports_loop:
  "reports_args dev obs jot h p rs c \<Longrightarrow> steady a h \<Longrightarrow> after_stale dev (xa_sent_ns c) j h p (ns, rs, Some w) (Suc n) t l
    \<Longrightarrow> tracks a h x ns l \<Longrightarrow> (0 < j \<Longrightarrow> \<not> acked x)
    \<Longrightarrow> t + int (length rs + w) * (xa_poll_interval c + 5) + 2 \<le> deadline x \<Longrightarrow> deadline x \<le> t + xa_timeout c
    \<Longrightarrow> length rs + w < k \<Longrightarrow> 0 < fuel
    \<Longrightarrow> \<exists>l' n' t'. exchange_loop P fuel c k x l = (Inr p, l') \<and> ahead dev h p (vr (peer_of l' a), [], None) n' t' l'
      \<and> vs (peer_of l' a) = sc_vr h \<and> obs (world l') = foldl jot (obs (world l)) rs"
proof (induction k arbitrary: j ns rs w n t l x)
  case (Suc k)
  note A = reports_argsD [OF Suc.prems(1)] and a = steadyD(2) [OF Suc.prems(2)]
  let ?i = "xa_poll_interval c" and ?m = "Suc n"
  let ?x = "x\<lparr>missing := missing x \<or> 0 < j\<rparr>"
  have range: "in_range (ns, rs, Some w)" using Suc.prems(3) by (simp add: after_stale_def)
  from read_after_stale [OF Suc.prems(3,9), of ?i] obtain l1 where
    l1: "read_frames P fuel ?i l = (Inr (stale (sc_addr h) (xa_sent_ns c) j @ fst (says h p ?m (ns, rs, Some w))), l1)"
    "ahead dev h p (snd (says h p ?m (ns, rs, Some w))) 0 (t + 2) l1" "peers l1 = peers l" "obs (world l1) = obs (world l)"
    by blast
  have tr: "tracks a h ?x ns l1" using Suc.prems(4) l1(3) by (simp add: tracks_def peer_of_def)
  have "deadline ?x \<le> t + 2 + xa_timeout c" using Suc.prems(7) by simp
  from handle_script [OF Suc.prems(1,2) range l1(2) tr this] obtain out l2 where
    o: "handle_frames P c (fst (says h p ?m (ns, rs, Some w))) ?x l1 = (Inr out, l2)"
    "turned dev obs jot h p c a rs w ?m ?x (t + 2) l1 out l2" by blast
  have h: "handle_frames P c (stale (sc_addr h) (xa_sent_ns c) j @ fst (says h p ?m (ns, rs, Some w))) x l1 = (Inr out, l2)"
    using handle_frames_go [OF handle_stale [OF A(2), of P j x l1], of "fst (says h p ?m (ns, rs, Some w))"] o(1) A(1) by simp
  show ?case
  proof (cases out)
    case (Done q)
    with o(2) l1(1,4) h show ?thesis by (auto simp: turned_def io_defs)
  next
    case (Go x')
    from o(2) [unfolded Go turned_def, simplified] obtain ns' rs' w' told n' t' where g:
      "Suc n \<le> length rs + w" "acked x'" "deadline x \<le> deadline x'" "ahead dev h p (ns', rs', Some w') n' t' l2"
      "length rs' + w' + Suc n = length rs + w" "t + 2 \<le> t'" "t' \<le> t + 2 + int (Suc n)" "tracks a h x' ns' l2"
      "rs = told @ rs'" "obs (world l2) = foldl jot (obs (world l1)) told" "deadline x' \<le> t' + xa_timeout c" by auto
    have dist: "int (length rs + w) = int (length rs' + w') + int (Suc n)" using g(5) by simp
    have step: "?i + int (Suc n) + 4 \<le> int (Suc n) * (?i + 5)"
      using mult_nonneg_nonneg [of "int n" "?i + 5"] A(6) by (simp add: algebra_simps)
    have rest: "t + (int (length rs' + w') * (?i + 5) + int (Suc n) * (?i + 5)) + 2 \<le> deadline x"
      using Suc.prems(6) unfolding dist by (simp add: distrib_right)
    have pos: "0 \<le> int (length rs' + w') * (?i + 5)" using A(6) by simp
    have "t' \<le> deadline x'" using g(3,7) step rest pos A(6) by linarith
    from poll_ahead [OF Suc.prems(1,2) g(4,8,2) this] obtain l3 t3 where l3:
      "poll_again P c x' l2 = (Inr (x'\<lparr>polls := polls x' + 1\<rparr>), l3)" "ahead dev h p (ns', rs', Some w') (Suc n') t3 l3"
      "t' \<le> t3" "t3 \<le> t' + 2 + ?i" "tracks a h (x'\<lparr>polls := polls x' + 1\<rparr>) ns' l3" "obs (world l3) = obs (world l2)"
      by blast
    let ?x' = "x'\<lparr>polls := polls x' + 1\<rparr>"
    have args': "reports_args dev obs jot h p rs' c" using Suc.prems(1) g(9) by (auto simp: reports_args_def)
    have time: "t3 + int (length rs' + w') * (?i + 5) + 2 \<le> deadline ?x'" "deadline ?x' \<le> t3 + xa_timeout c"
      "length rs' + w' < k"
      using g(3,5,7,11) l3(3,4) step rest Suc.prems(8) by simp_all
    have st: "after_stale dev (xa_sent_ns c) 0 h p (ns', rs', Some w') (Suc n') t3 l3" using l3(2) by (simp add: after_stale_none)
    from Suc.IH [OF args' Suc.prems(2) st l3(5) _ time Suc.prems(9)] obtain l4 n4 t4 where
      "exchange_loop P fuel c k ?x' l3 = (Inr p, l4)" "ahead dev h p (vr (peer_of l4 a), [], None) n4 t4 l4"
      "vs (peer_of l4 a) = sc_vr h" "obs (world l4) = foldl jot (obs (world l3)) rs'" by auto
    with l1(1,4) h Go l3(1,6) g(9,10) show ?thesis by (auto simp: io_defs)
  qed
qed simp

text \<open>
  The command of a transfer is taken, every report that waits is handed over exactly once and in order, and
  the response comes back; what is still under way then, the next transfer reads first.
\<close>

lemma exchange_reports:
  assumes near: "near_step dev a s l" and rsp: "response_for m s = Some p" and seen: "0 \<le> sc_i_frames_seen s"
    and router: "opt_router opts p = ACCEPT" "\<forall>r \<in> set (sc_indications s). opt_router opts r = INDICATION"
    and calls: "opt_on_indication opts = Some g" "noting dev obs jot g" "quiet_polls dev obs (opt_on_poll opts)"
    and interval: "0 \<le> opt_poll_interval opts"
    and fuel: "length (sc_indications s) + sc_rr_before_response s < fuel"
    and budget: "int (length (sc_indications s) + sc_rr_before_response s) * (opt_poll_interval opts + 5) + 3 \<le> opt_timeout opts"
  shows "\<exists>l' v k. exchange P fuel a m opts l = (Inr p, l') \<and> near_step dev a (station (took p s) p (v, [], None) k) l'
    \<and> obs (world l') = foldl jot (obs (world l)) (sc_indications s)"
proof -
  let ?h = "took p s" and ?c = "(sc_vs s, sc_indications s, Some (sc_rr_before_response s))"
  let ?f = "(a, i_ctrl (sc_vr s) (sc_vs s), m)"
  from near obtain j t where st: "steady a s" and ln: "line dev s (stale a (sc_vr s) j) t l"
    and pe: "vs (peer_of l a) = sc_vr s" "vr (peer_of l a) = sc_vs s" by (auto simp: near_step_def)
  note r = steadyD(1-4) [OF st]
  define l0 where "l0 = l\<lparr>peers := (peers l)(a \<mapsto> peer_of l a)\<rparr>"
  have h: "steady a ?h" using st seen by (rule steady_took)
  have c: "in_range ?c" using r(3) by (simp add: in_range_def)
  let ?s' = "station ?h p (snd (say ?h p ?c)) (sc_polls_seen s)"
  have call: "sec_call ?f s = (fst (say ?h p ?c), ?s')"
    using steady_command [OF st rsp r(3)] sec_next_station [OF c, of ?h p "sc_polls_seen s"] took_station [of p s] by simp
  have oct: "octets ?f" using r by (simp add: octets_def)
  have octs: "\<forall>f \<in> set (fst (say ?h p ?c)). octets f"
    using say_octets [OF _ c, of ?h p] steadyD(1,2,4) [OF h] by simp
  have "line dev s (stale a (sc_vr s) j) t l0" using ln by (simp add: l0_def)
  from line_write [OF this oct call octs] obtain l1 where l1: "link_write P (wire ?f) l0 = (Inr (), l1)"
    "line dev ?s' (stale a (sc_vr s) j @ fst (say ?h p ?c)) t l1" "peers l1 = peers l0" by blast
  from line_clock [OF l1(2)] obtain l2 where l2: "clock P l1 = (Inr t, l2)"
    "line dev ?s' (stale a (sc_vr s) j @ fst (say ?h p ?c)) (t + 1) l2" "peers l2 = peers l0" using l1(3) by auto
  have o2: "obs (world l2) = obs (world l)" using noted_write [OF l1(1)] l2(1) by (auto simp: l0_def)
  have p2: "peer_of l2 a = peer_of l a" using l2(3) by (simp add: peer_of_def l0_def)
  let ?a = "exchange_args a (sc_vr s) (wire ?f) opts" and ?x = "exchange_start t (opt_timeout opts)"
  have run: "exchange P fuel a m opts l = exchange_loop P fuel ?a fuel ?x l2"
    using l1(1) l2(1) pe r by (simp add: exchange_def get_peer_def io_defs build_frame_octets l0_def [symmetric] del: on_fake)
  have args: "reports_args dev obs jot ?h p (sc_indications s) ?a"
    using r router calls interval by (auto simp: reports_args_def exchange_args_def took_def)
  have start: "after_stale dev (xa_sent_ns ?a) j ?h p ?c (Suc 0) (t + 1) l2" "tracks a ?h ?x (sc_vs s) l2"
    "0 < j \<Longrightarrow> \<not> acked ?x" "deadline ?x \<le> t + 1 + xa_timeout ?a" "0 < fuel"
    "t + 1 + int (length (sc_indications s) + sc_rr_before_response s) * (xa_poll_interval ?a + 5) + 2 \<le> deadline ?x"
    using l2(2) c steadyD(2) [OF h] p2 pe r fuel budget
    by (auto simp: after_stale_def exchange_args_def tracks_def exchange_start_def)
  from reports_loop [OF args h start(1-3,6,4) fuel start(5)] obtain l' n' t' where
    l': "exchange_loop P fuel ?a fuel ?x l2 = (Inr p, l')"
    "ahead dev ?h p (vr (peer_of l' a), [], None) n' t' l'" "vs (peer_of l' a) = sc_vr ?h"
    "obs (world l') = foldl jot (obs (world l2)) (sc_indications s)" by blast
  from l'(2) obtain k where k: "in_range (vr (peer_of l' a), [], None)"
    "line dev (station ?h p (vr (peer_of l' a), [], None) k) (stale a (sc_vr ?h) n') t' l'"
    by (auto simp: ahead_def says_over stale_def steadyD(2) [OF h])
  have "near_step dev a (station ?h p (vr (peer_of l' a), [], None) k) l'"
    using steady_station [OF h k(1)] k(2) l'(3) unfolding near_step_def by (auto simp: station_def)
  with run l'(1,4) o2 show ?thesis by auto
qed

end

end
