(* ===== verification/Secondary_Alarms.thy ===== *)
theory Secondary_Alarms
  imports Whole_System Secondary_Reports
begin

text \<open>
  A command during which the device reports alarms, from the worker down to the strict secondary: what the
  callback \<open>_queue_indication\<close> parks in the middle of the transfers reaches the alarm tracker when the
  command is over.

  Property: the command is answered as if there were no reports, and each report moves the tracker once,
  in order.
\<close>

section \<open>A link with reports to make\<close>

text \<open>
  The secondary serves the table and has the reports \<open>inds\<close> to make; it has taken \<open>n\<close> commands so far and
  refused those numbered \<open>ns\<close>. It may delay its response as long as the budget of every procedure allows.
\<close>

definition reporting :: "('w \<Rightarrow> fake) \<Rightarrow> int \<Rightarrow> (int \<times> bytes) list \<Rightarrow> bytes list \<Rightarrow> int \<Rightarrow> int list \<Rightarrow> 'w link \<Rightarrow> bool" where
  "reporting dev a rs inds n ns l \<longleftrightarrow> (\<exists>s. near_step dev a s l \<and> serves rs s \<and> sc_indications s = inds
     \<and> length inds + sc_rr_before_response s < 60 \<and> (\<forall>r \<in> set inds. r \<noteq> [] \<and> uint (hd r) \<in> set INDICATION_CODES)
     \<and> sc_i_frames_seen s = n \<and> sc_rejected_ns s = ns)"

text \<open>The first request after that hears them all; the ideal device has taken \<open>taken\<close> since.\<close>

definition hears :: "('w \<Rightarrow> fake) \<Rightarrow> ('w \<Rightarrow> 'o) \<Rightarrow> ('o \<Rightarrow> bytes \<Rightarrow> 'o) \<Rightarrow> int \<Rightarrow> (int \<times> bytes) list \<Rightarrow> bytes list \<Rightarrow> 'o
    \<Rightarrow> int \<Rightarrow> int list \<Rightarrow> 'w link \<Rightarrow> bytes list \<Rightarrow> bool" where
  "hears dev obs jot a rs inds v n ns l taken \<longleftrightarrow>
     reporting dev a rs (if taken = [] then inds else []) (n + int (length taken)) ns l
     \<and> obs (world l) = foldl jot v (if taken = [] then [] else inds)"

lemma station_simps [simp]:
  "serves rs (station h p c k) = serves rs h" "sc_i_frames_seen (station h p c k) = sc_i_frames_seen h"
  "sc_rejected_ns (station h p c k) = sc_rejected_ns h" "sc_rr_before_response (station h p c k) = sc_rr_before_response h"
  "sc_indications (station h p (v, is, w) k) = is"
  by (simp_all add: station_def serves_def split: prod.split)

lemma router_reports:
  "r \<noteq> [] \<Longrightarrow> uint (hd r) \<in> set INDICATION_CODES \<Longrightarrow> opt_router (transport_opts m t h g) r = INDICATION"
  by (cases r) (simp_all add: transport_opts_def xdefaults_def retap_router_def)

lemma transport_on_indication [simp]: "opt_on_indication (transport_opts m t h g) = h"
  by (simp add: transport_opts_def xdefaults_def)

context observed_line
begin

lemma request_hears:
  assumes "noting dev obs jot h" and "quiet_polls dev obs g" and "60 \<le> fuel" and "m \<noteq> []"
    and "uint (hd m) \<notin> set INDICATION_CODES" and "proc_timeout \<le> t"
  shows "io_sim (hears dev obs jot a rs inds v n ns) (transport_request P fuel (Some h) g a m t)
    (ideal_device (answer rs) a m t)"
proof (rule io_simI)
  fix l and taken :: "bytes list"
  let ?now = "if taken = [] then inds else []"
  assume "hears dev obs jot a rs inds v n ns l taken"
  then obtain s where s: "near_step dev a s l" "serves rs s" "sc_indications s = ?now"
    "length ?now + sc_rr_before_response s < 60" "\<forall>r \<in> set ?now. r \<noteq> [] \<and> uint (hd r) \<in> set INDICATION_CODES"
    "sc_i_frames_seen s = n + int (length taken)" "sc_rejected_ns s = ns"
    and v: "obs (world l) = foldl jot v (if taken = [] then [] else inds)"
    unfolding hears_def reporting_def by blast
  have sv: "speaks rs" "0 \<le> sc_i_frames_seen s" using s(2) by (simp_all add: serves_def)
  let ?o = "transport_opts m t (Some h) g"
  have o: "opt_router ?o (answer rs m) = ACCEPT" "opt_on_indication ?o = Some h" "quiet_polls dev obs (opt_on_poll ?o)"
    "0 \<le> opt_poll_interval ?o" "length (sc_indications s) + sc_rr_before_response s < fuel"
    "int (length (sc_indications s) + sc_rr_before_response s) * (opt_poll_interval ?o + 5) + 3 \<le> opt_timeout ?o"
    using router_accepts [OF sv(1) assms(4,5)] assms(2,3,6) s(3,4) by (simp_all add: proc_timeout_def)
  have all: "\<forall>r \<in> set (sc_indications s). opt_router ?o r = INDICATION"
    using s(5) unfolding s(3) by (blast intro: router_reports)
  from exchange_reports [OF s(1) serves_response [OF s(2) assms(4)] sv(2) o(1) all o(2) assms(1) o(3-6)] obtain l' w k where
    l': "exchange P fuel a m ?o l = (Inr (answer rs m), l')"
    "near_step dev a (station (took (answer rs m) s) (answer rs m) (w, [], None) k) l'"
    "obs (world l') = foldl jot (obs (world l)) (sc_indications s)" by blast
  have "sc_rr_before_response (took (answer rs m) s) < 60" using s(4) by (simp add: took_def)
  then have "reporting dev a rs [] (n + int (length (taken @ [m]))) ns l'"
    unfolding reporting_def using l'(2) s(2,6,7)
    by (intro exI [of _ "station (took (answer rs m) s) (answer rs m) (w, [], None) k"]) simp
  moreover have "obs (world l') = foldl jot v inds" using l'(3) s(3) v by (simp split: if_splits)
  ultimately have "hears dev obs jot a rs inds v n ns l' (taken @ [m])" by (simp add: hears_def)
  with l'(1) show "\<exists>r s' t'. transport_request P fuel (Some h) g a m t l = (r, s')
      \<and> ideal_device (answer rs) a m t taken = (r, t') \<and> hears dev obs jot a rs inds v n ns s' t'"
    by (simp add: transport_request_def ideal_device_def)
qed

end

section \<open>The worker's link\<close>

definition alarm_events :: "'v shared \<Rightarrow> alarm_event list" where
  "alarm_events sh = concat (map (\<lambda>e. case e of EvAlarm x \<Rightarrow> [x] | _ \<Rightarrow> []) (sh_events sh))"

definition parked :: "'v shared \<Rightarrow> bytes list \<times> alarm_event list" where
  "parked sh = (sh_indications sh, alarm_events sh)"

definition park :: "bytes list \<times> alarm_event list \<Rightarrow> bytes \<Rightarrow> bytes list \<times> alarm_event list" where
  "park q r = (fst q @ [r], snd q)"

lemma foldl_park: "foldl park q rs = (fst q @ rs, snd q)"
  by (induction rs arbitrary: q) (simp_all add: park_def)

interpretation parking: observed_line "lift_ops fake_port" sh_env "\<lambda>v sh. sh\<lparr>sh_env := v\<rparr>" parked park
  by unfold_locales (simp add: parked_def alarm_events_def)

lemma queue_parks: "noting sh_env parked park queue_indication"
  by (simp add: noting_def queue_indication_def parked_def park_def alarm_events_def)

lemma progress_quiet: "quiet_polls sh_env parked (Some (report_progress fake_port name started))"
  unfolding quiet_polls_def using calm_progress
  by (auto simp: report_progress_def lift_ops_def in_sh_def fake_port_def parked_def alarm_events_def)

lemma beside_near_step: "near_step sh_env a s (l\<lparr>world := sh\<rparr>) \<Longrightarrow> near_step sh_env a s (l\<lparr>world := sh\<lparr>sh_events := es\<rparr>\<rparr>)"
  "near_step sh_env a s (l\<lparr>world := sh\<rparr>) \<Longrightarrow> near_step sh_env a s (l\<lparr>world := sh\<lparr>sh_indications := ps\<rparr>\<rparr>)"
  "near_step sh_env a s (l\<lparr>world := sh\<rparr>) \<Longrightarrow> near_step sh_env a s (l\<lparr>world := sh\<lparr>sh_env := (sh_env sh)\<lparr>fk_now := t\<rparr>\<rparr>\<rparr>)"
  by (auto simp: near_step_def line_def Let_def)

interpretation attending: beside_link "\<lambda>l. reporting sh_env a rs inds n ns l" for a rs inds n ns
  by unfold_locales (auto simp: reporting_def intro: beside_near_step)

text \<open>Where the worker stands: its session, what is parked, the alarms that the tracker has active.\<close>

definition listening ::
  "int \<Rightarrow> (int \<times> bytes) list \<Rightarrow> bytes list \<Rightarrow> int \<Rightarrow> int list \<Rightarrow> book \<Rightarrow> bytes list \<Rightarrow> alarm_event list \<Rightarrow> string set
    \<Rightarrow> fake worker \<Rightarrow> bool" where
  "listening a rs inds n ns b q es active w \<longleftrightarrow>
     serving (reporting sh_env a rs inds n ns) CONNECTED (Some a) b w
     \<and> sh_indications (w_shared w) = q \<and> alarm_events (w_shared w) = es \<and> w_alarms w = active"

text \<open>After \<open>taken\<close> the reports have been heard, if there was a request to hear them.\<close>

definition listened ::
  "int \<Rightarrow> (int \<times> bytes) list \<Rightarrow> bytes list \<Rightarrow> int \<Rightarrow> int list \<Rightarrow> book \<Rightarrow> bytes list \<Rightarrow> alarm_event list \<Rightarrow> string set
    \<Rightarrow> fake worker \<Rightarrow> bytes list \<Rightarrow> bool" where
  "listened a rs inds n ns b q es active w taken \<longleftrightarrow>
     listening a rs (if taken = [] then inds else []) (n + int (length taken)) ns b (if taken = [] then q else q @ inds) es active w"

lemma listened_hears:
  "listened a rs inds n ns b q es active w taken \<longleftrightarrow>
     serving (\<lambda>l. hears sh_env parked park a rs inds (q, es) n ns l taken) CONNECTED (Some a) b w \<and> w_alarms w = active"
  by (auto simp: listened_def listening_def serving_def hears_def foldl_park parked_def)

lemma request_listens:
  assumes "60 \<le> fuel" and "m \<noteq> []" and "uint (hd m) \<notin> set INDICATION_CODES" and "proc_timeout \<le> t"
  shows "io_sim (listened a rs inds n ns b q es active)
    (worker_request fake_port fuel (Some (report_progress fake_port name started)) a m t) (ideal_device (answer rs) a m t)"
proof (rule io_simI)
  fix w taken assume w: "listened a rs inds n ns b q es active w taken"
  note sim = serving_sim [OF parking.request_hears [OF queue_parks progress_quiet assms]]
  from io_simD [OF sim conjunct1 [OF w [unfolded listened_hears]], of name started] obtain r w' t' where
    r: "on_link (transport_request (lift_ops fake_port) fuel (Some queue_indication) (Some (report_progress fake_port name started)) a m t) w = (r, w')"
    "ideal_device (answer rs) a m t taken = (r, t')"
    "serving (\<lambda>l. hears sh_env parked park a rs inds (q, es) n ns l t') CONNECTED (Some a) b w'" by blast
  moreover have "w_alarms w' = w_alarms w" using r(1) by (auto simp: on_link_def split: option.splits prod.splits)
  ultimately show "\<exists>r s' t'. worker_request fake_port fuel (Some (report_progress fake_port name started)) a m t w = (r, s')
      \<and> ideal_device (answer rs) a m t taken = (r, t') \<and> listened a rs inds n ns b q es active s' t'"
    using w by (simp add: worker_request_def listened_hears)
qed

interpretation listening: transports_agree
    "worker_request fake_port (fuel + 60) (Some (report_progress fake_port name started))" "ideal_device (answer rs)"
    "listened a rs inds n ns b q es active" a for fuel name started rs a inds n ns b q es active
  by unfold_locales (simp add: request_listens)

section \<open>A command among reports\<close>

lemma io_post_both:
  "io_post I m Q no_error \<Longrightarrow> io_post J m R E \<Longrightarrow> io_post (\<lambda>s. I s \<and> J s) m (\<lambda>x s. Q x s \<and> R x s) no_error"
  unfolding io_post_def by (fastforce split: sum.splits prod.splits)

text \<open>What is parked, the alarm events so far and the active alarms.\<close>

definition tally :: "bytes list \<Rightarrow> alarm_event list \<Rightarrow> string set \<Rightarrow> fake worker \<Rightarrow> bool" where
  "tally q es active w \<longleftrightarrow> sh_indications (w_shared w) = q \<and> alarm_events (w_shared w) = es \<and> w_alarms w = active"

lemma listening_tally:
  "listening a rs inds n ns b q es active
    = (\<lambda>w. serving (reporting sh_env a rs inds n ns) CONNECTED (Some a) b w \<and> tally q es active w)"
  by (auto simp: listening_def tally_def fun_eq_iff)

primrec reported :: "bytes list \<Rightarrow> string set \<Rightarrow> alarm_event list \<times> string set" where
  "reported [] active = ([], active)"
| "reported (r # rs) active =
     (case alarm_indicate r active of (evs, active') \<Rightarrow> case reported rs active' of (evs', final) \<Rightarrow> (evs @ evs', final))"

definition absorbed :: "cmd_result res \<Rightarrow> string set \<Rightarrow> alarm_event list \<times> string set" where
  "absorbed x active = (case x of Inr (RAlarms names) \<Rightarrow> alarm_snapshot (set names) True active | _ \<Rightarrow> ([], active))"

abbreviation any_error :: "exn \<Rightarrow> 's \<Rightarrow> bool" where
  "any_error e s \<equiv> True"

lemma tally_now: "io_post (tally q es active) (w_now fake_port) (\<lambda>_. tally q es active) any_error"
  by (auto simp: io_post_def w_now_def lift_ops_def in_sh_def fake_port_def tally_def alarm_events_def)

lemma tally_field:
  "io_post (tally q es active) (io_modify (\<lambda>w. w\<lparr>w_target_tilt := t\<rparr>)) (\<lambda>_. tally q es active) any_error"
  "io_post (tally q es active) (io_modify (\<lambda>w. w\<lparr>w_last_command_at := k\<rparr>)) (\<lambda>_. tally q es active) any_error"
  "io_post (tally q es active) (io_modify (\<lambda>w. w\<lparr>w_last_error := m\<rparr>)) (\<lambda>_. tally q es active) any_error"
  by (rule io_post_modify, simp add: tally_def)+

lemma tally_resolve: "io_post (tally q es active) (resolve c x) (\<lambda>_. tally q es active) any_error"
  by (auto simp: io_post_def resolve_def put_future_def io_defs tally_def split: prod.split sum.split)

lemma emit_all_eq: "emit_all evs w = (Inr (), w\<lparr>w_shared := (w_shared w)\<lparr>sh_events := sh_events (w_shared w) @ evs\<rparr>\<rparr>)"
  by (induction evs arbitrary: w) (simp_all add: io_defs emit_def)

lemma alarms_concat [simp]: "concat (map ((\<lambda>e. case e of EvAlarm x \<Rightarrow> [x] | _ \<Rightarrow> []) \<circ> EvAlarm) evs) = evs"
  by (induction evs) simp_all

lemma tally_track:
  "io_post (tally q es active) (track_alarms (evs, active')) (\<lambda>_. tally q (es @ evs) active') any_error"
  by (auto simp: io_post_def track_alarms_def io_defs emit_all_eq tally_def alarm_events_def)

lemma tally_drain:
  "io_post (tally q es active) drain_indications
    (\<lambda>_. tally [] (es @ fst (reported q active)) (snd (reported q active))) any_error"
proof -
  have "io_post (tally q es active) (drain_list q) (\<lambda>_. tally [] (es @ fst (reported q active)) (snd (reported q active))) any_error"
  proof (induction q arbitrary: es active)
    case Nil
    show ?case by (simp add: io_post_return)
  next
    case (Cons r q)
    obtain evs active' where r: "alarm_indicate r active = (evs, active')" by fastforce
    have pop: "io_post (tally (r # q) es active) (io_modify (\<lambda>w. w\<lparr>w_shared := (w_shared w)\<lparr>sh_indications := q\<rparr>\<rparr>))
        (\<lambda>_. tally q es active) any_error"
      by (rule io_post_modify) (simp add: tally_def alarm_events_def)
    have "io_post (tally q es active) (alarms_indicate r) (\<lambda>_. tally q (es @ evs) active') any_error"
      unfolding alarms_indicate_def by (rule io_post_get) (use tally_track in \<open>simp add: tally_def r\<close>)
    from io_post_seq [OF pop io_post_seq [OF this Cons.IH]] show ?case by (simp add: r case_prod_beta)
  qed
  then show ?thesis
    unfolding drain_indications_def by (intro io_post_get) (simp add: tally_def)
qed

lemma tally_absorb:
  "io_post (tally q es active) (absorb fake_port cf r)
    (\<lambda>_. tally q (es @ fst (absorbed (Inr r) active)) (snd (absorbed (Inr r) active))) any_error"
    (is "io_post _ _ (\<lambda>_. ?after) _")
proof -
  have "io_post ?after (io_get f) (\<lambda>_. ?after) any_error" for f :: "fake worker \<Rightarrow> snap"
    by (simp add: io_post_def io_defs)
  then have sn: "io_post ?after (snapshot fake_port cf) (\<lambda>_. ?after) any_error"
    unfolding snapshot_def by (intro io_post_bind [OF tally_now])
  have status: "io_post ?after (emit (EvStatus n)) (\<lambda>_. ?after) any_error" for n
    by (simp add: io_post_def emit_def tally_def alarm_events_def)
  have field: "io_post (tally q es active) (io_modify f) (\<lambda>_. tally q es active) any_error"
    if "\<And>w. w_shared (f w) = w_shared w" "\<And>w. w_alarms (f w) = w_alarms w" for f
    by (rule io_post_modify) (use that in \<open>simp add: tally_def\<close>)
  have "io_post (tally q es active) (alarms_snapshot names True)
      (\<lambda>_. tally q (es @ fst (alarm_snapshot (set names) True active)) (snd (alarm_snapshot (set names) True active))) any_error" for names
    unfolding alarms_snapshot_def
    by (rule io_post_get) (use tally_track [of q es active "fst (alarm_snapshot (set names) True active)"
        "snd (alarm_snapshot (set names) True active)"] in \<open>simp add: tally_def\<close>)
  then show ?thesis
    unfolding absorb_def by (intro io_post_seq [OF _ io_post_bind [OF sn status]])
      (cases r; simp add: absorbed_def io_post_return field)
qed

text \<open>Each step of a command keeps the session and does its part of the tally.\<close>

lemma listening_step:
  assumes "io_safe (serving (reporting sh_env a rs inds n ns) CONNECTED (Some a) b) (\<lambda>_. False) m"
    and "io_post (tally q es active) m (\<lambda>_. tally q' es' active') any_error"
  shows "io_post (listening a rs inds n ns b q es active) m (\<lambda>_. listening a rs inds n ns b q' es' active') no_error"
  unfolding listening_tally by (rule io_post_both [OF io_post_lift [OF assms(1)] assms(2)])

lemma listening_resolve:
  assumes "bk_futures b (cmd_id c) = Some RUNNING"
  shows "io_post (listening a rs inds n ns b q es active) (resolve c x)
    (\<lambda>_. listening a rs inds n ns (answered c (settled_as x) b) q es active) no_error"
  unfolding listening_tally by (rule io_post_both [OF resolve_post [OF assms] tally_resolve])

lemma listening_claim:
  assumes "bk_futures b (cmd_id c) = Some PENDING"
  shows "io_post (listening a rs inds n ns b q es active) (claim c)
    (\<lambda>ok w. ok \<and> listening a rs inds n ns (answered c RUNNING b) q es active w) no_error"
proof -
  have "io_post (tally q es active) (claim c) (\<lambda>_. tally q es active) any_error"
    by (auto simp: io_post_def claim_def put_future_def io_defs tally_def split: prod.split sum.split)
  from io_post_both [OF claim_post [OF assms] this] show ?thesis by (simp add: listening_tally)
qed

lemma execute_among_reports:
  assumes run: "bk_futures b (cmd_id c) = Some RUNNING"
    and ideal: "call_command (ideal_device (answer rs)) \<lparr>r_addr = a, r_antenna = None\<rparr> (cmd_name c) (cmd_args c) [] = (x, taken)"
    and x: "\<forall>e. x = Inl e \<longrightarrow> is_aisg_error e" and some: "taken \<noteq> []"
  shows "io_post (listening a rs inds n ns b q es active) (execute fake_port (fuel + 60) cf c)
    (\<lambda>_. listening a rs [] (n + int (length taken)) ns (answered c (settled_as x) b) []
      (es @ fst (absorbed x active) @ fst (reported (q @ inds) (snd (absorbed x active))))
      (snd (reported (q @ inds) (snd (absorbed x active))))) no_error"
    (is "io_post ?I _ (\<lambda>_. ?F) _")
proof (rule execute_contract [where R = "listened a rs inds n ns b q es active" and a = a and rs = rs and I = ?I and F = ?F])
  let ?L = "\<lambda>b q es active. listening a rs [] (n + int (length taken)) ns b q es active"
  let ?ab = "absorbed x active" and ?b = "answered c (settled_as x) b"
  have R: "(\<lambda>w. listened a rs inds n ns b q es active w taken) = ?L b (q @ inds) es active"
    using some by (simp add: listened_def fun_eq_iff)
  note step = listening_step [OF attending.now tally_now] listening_step [OF attending.field(4) tally_field(1)]
    listening_step [OF attending.field(8) tally_field(2)] listening_step [OF attending.field(11) tally_field(3)]
    listening_step [OF attending.absorbs tally_absorb] listening_step [OF attending.drains tally_drain]
  show "?I w \<Longrightarrow> listened a rs inds n ns b q es active w [] \<and> w_address w = Some a" for w
    by (auto simp: listened_def listening_def serving_def)
  show "io_post ?I (w_now fake_port) (\<lambda>_. ?I) no_error" by (rule step(1))
  show "io_post ?I (io_modify (\<lambda>w. w\<lparr>w_target_tilt := t\<rparr>)) (\<lambda>_. ?I) no_error" for t by (rule step(2))
  show "io_post (\<lambda>w. listened a rs inds n ns b q es active w taken) (io_seq (set_last_error (exn_text e)) (resolve c x))
      (\<lambda>_. ?L ?b (q @ inds) (es @ fst ?ab) (snd ?ab)) no_error" if "x = Inl e" for e
    unfolding R set_last_error_def using io_post_seq [OF step(4) listening_resolve [OF run]] that by (simp add: absorbed_def)
  show "io_post (\<lambda>w. listened a rs inds n ns b q es active w taken) (io_seq (absorb fake_port cf y) (resolve c x))
      (\<lambda>_. ?L ?b (q @ inds) (es @ fst ?ab) (snd ?ab)) no_error" if "x = Inr y" for y
    unfolding R that by (rule io_post_seq [OF step(5) listening_resolve [OF run]])
  show "io_post (?L ?b (q @ inds) (es @ fst ?ab) (snd ?ab))
      (io_seq (io_bind (w_now fake_port) (\<lambda>now. io_modify (\<lambda>w. w\<lparr>w_last_command_at := now\<rparr>))) drain_indications) (\<lambda>_. ?F) no_error"
    unfolding append_assoc [symmetric] by (intro io_post_seq [OF _ step(6)] io_post_bind [OF step(1) step(3)])
qed (use ideal x in \<open>simp_all add: listening.agree_command\<close>)

text \<open>
  C4: alarms raised in the middle of a command are neither lost nor taken twice, and do not disturb it. The
  connected worker tries a command while the device has any reports to make (up to the budget of the
  shortest procedure, each sent once or twice, and with answers to earlier polls still under way): the
  command's future holds what the command has with the ideal device that makes no reports, the device has
  taken the command's messages once each and refused none, and the tracker has gone through what the
  command itself reads of the alarms and then every report, parked earlier or heard now, once and in order,
  with its events published in that order; nothing is left parked.
\<close>

theorem alarms_reach_the_tracker:
  assumes worker: "listening a rs inds n ns b q es active w" and pending: "bk_futures b (cmd_id c) = Some PENDING"
    and ideal: "call_command (ideal_device (answer rs)) \<lparr>r_addr = a, r_antenna = None\<rparr> (cmd_name c) (cmd_args c) [] = (x, taken)"
    and x: "\<forall>e. x = Inl e \<longrightarrow> is_aisg_error e" and some: "taken \<noteq> []"
  shows "let (evs, active1) = absorbed x active; (evs', active2) = reported (q @ inds) active1 in
    \<exists>w'. try_execute fake_port (fuel + 60) cf c w = (Inr True, w')
      \<and> w_futures w' (cmd_id c) = Some (case x of Inl e \<Rightarrow> EXCEPTION e | Inr y \<Rightarrow> RESULT y)
      \<and> w_alarms w' = active2 \<and> alarm_events (w_shared w') = es @ evs @ evs' \<and> sh_indications (w_shared w') = []
      \<and> listening a rs [] (n + int (length taken)) ns (book_of w') [] (es @ evs @ evs') active2 w'"
proof -
  from io_postE [OF listening_claim [OF pending] worker] obtain w1 where w1: "claim c w = (Inr True, w1)"
    "listening a rs inds n ns (answered c RUNNING b) q es active w1" by metis
  have "bk_futures (answered c RUNNING b) (cmd_id c) = Some RUNNING" by (simp add: answered_def)
  from io_postE [OF execute_among_reports [OF this ideal x some] w1(2)] obtain w2 where
    w2: "execute fake_port (fuel + 60) cf c w1 = (Inr (), w2)"
    "listening a rs [] (n + int (length taken)) ns (answered c (settled_as x) (answered c RUNNING b)) []
      (es @ fst (absorbed x active) @ fst (reported (q @ inds) (snd (absorbed x active))))
      (snd (reported (q @ inds) (snd (absorbed x active)))) w2" by (metis unit.exhaust)
  have b2: "book_of w2 = answered c (settled_as x) (answered c RUNNING b)"
    using w2(2) by (simp add: listening_def serving_def)
  then have "w_futures w2 (cmd_id c) = Some (settled_as x)"
    by (simp add: answered_def flip: book_of_fields(3))
  moreover have "w_state w = CONNECTED" using worker by (simp add: listening_def serving_def)
  then have "try_execute fake_port (fuel + 60) cf c w = (Inr True, w2)"
    using w1(1) w2(1) by (simp add: try_execute_def refresh_lease_def attempt_def io_defs)
  ultimately show ?thesis
    using w2(2) unfolding b2 [symmetric] by (simp add: case_prod_beta settled_as_def) (simp add: listening_def)
qed

text \<open>A worker in session with the secondary at address 1, which is slow and reports everything twice.\<close>

definition alarmed_worker :: "bytes list \<Rightarrow> fake worker" where
  "alarmed_worker inds =
     (let s = (new_secondary 1 default_responses)\<lparr>sc_connected := True, sc_indications := inds,
                sc_duplicate_indication := True, sc_rr_before_response := 3\<rparr>;
          sh = \<lparr>sh_env = new_fake s, sh_indications = [], sh_events = []\<rparr> in
      (new_worker fake_port (new_fake s))\<lparr>w_state := CONNECTED, w_address := Some 1, w_shared := sh,
        w_link := Some ((new_link 1000000 sh)\<lparr>peers := [1 \<mapsto> \<lparr>vs = 0, vr = 0, connected = True\<rparr>]\<rparr>),
        w_futures := [0 \<mapsto> PENDING]\<rparr>)"

lemma alarmed_listening:
  assumes "length inds < 57" and "\<forall>r \<in> set inds. r \<noteq> [] \<and> uint (hd r) \<in> set INDICATION_CODES"
  shows "listening 1 default_responses inds 0 [] (book_of (alarmed_worker inds)) [] [] {} (alarmed_worker inds)"
proof -
  let ?s = "(new_secondary 1 default_responses)\<lparr>sc_connected := True, sc_indications := inds,
    sc_duplicate_indication := True, sc_rr_before_response := 3\<rparr>"
  let ?l = "(new_link 1000000 \<lparr>sh_env = new_fake ?s, sh_indications = [], sh_events = []\<rparr>)
    \<lparr>peers := [1 \<mapsto> \<lparr>vs = 0, vr = 0, connected = True\<rparr>]\<rparr>"
  have "speaks default_responses"
    by (simp add: speaks_def default_responses_def retap_response_def procedure_codes)
  then have "serves default_responses ?s" by (simp add: serves_def new_secondary_def)
  moreover have "line sh_env ?s (stale 1 (sc_vr ?s) 0) 0 ?l"
    by (simp add: line_def stale_def new_link_def new_fake_def)
  then have "near_step sh_env 1 ?s ?l"
    unfolding near_step_def
    by (auto simp: steady_def new_secondary_def octet_def peer_of_def)
  ultimately have "reporting sh_env 1 default_responses inds 0 [] ?l"
    unfolding reporting_def using assms
    by (intro exI [of _ ?s]) (simp add: new_secondary_def)
  then show ?thesis
    by (simp add: listening_def serving_def alarmed_worker_def alarm_events_def new_link_def Let_def new_worker_def fake_port_def)
qed

theorem alarms_reach_the_tracker_witness:
  "let c = \<lparr>cmd_key = Key 5 0, cmd_name = ''set_tilt'', cmd_args = [(''degrees'', PyFloat 3)], submitted_at = 0,
      link_deadline = 20000000\<rparr> in
   \<exists>w'. try_execute fake_port 60 test_config c (alarmed_worker [[7, 1, 0, 2], [7, 2, 0, 2, 17]]) = (Inr True, w')
     \<and> w_futures w' 0 = Some (RESULT (RTilt 3)) \<and> w_alarms w' = {''MotorJam'', ''HardwareError''}
     \<and> alarm_events (w_shared w') = [Raised ''MotorJam'', Raised ''HardwareError'']
     \<and> sc_i_frames_seen (fk_sec (sh_env (w_shared w'))) = 2"
proof -
  let ?inds = "[[7, 1, 0, 2], [7, 2, 0, 2, 17]] :: bytes list"
  let ?c = "\<lparr>cmd_key = Key 5 0, cmd_name = ''set_tilt'', cmd_args = [(''degrees'', PyFloat 3)], submitted_at = 0,
      link_deadline = 20000000\<rparr>"
  have listen: "listening 1 default_responses ?inds 0 [] (book_of (alarmed_worker ?inds)) [] [] {} (alarmed_worker ?inds)"
    by (rule alarmed_listening) (simp_all add: INDICATION_CODES_def procedure_codes)
  have pending: "bk_futures (book_of (alarmed_worker ?inds)) (cmd_id ?c) = Some PENDING"
    by (simp add: book_of_def alarmed_worker_def cmd_id_def Let_def)
  have rep: "reported ?inds {} = ([Raised ''MotorJam'', Raised ''HardwareError''], {''MotorJam'', ''HardwareError''})"
    by code_simp
  have seen: "sc_i_frames_seen (fk_sec (sh_env (w_shared w'))) = n"
    if "listening 1 default_responses [] n [] b [] es act w'" for n b es act and w' :: "fake worker"
    using that by (auto simp: listening_def serving_def reporting_def near_step_def line_def Let_def)
  have ideal: "call_command (ideal_device (answer default_responses)) \<lparr>r_addr = 1, r_antenna = None\<rparr> (cmd_name ?c) (cmd_args ?c) []
      = (Inr (RTilt 3), [[0x33, 2, 0, 30, 0], [0x34, 0, 0]])"
    using tilt_scenario(9) by simp
  have id: "cmd_id ?c = 0" by (simp add: cmd_id_def)
  from alarms_reach_the_tracker [OF listen pending ideal, of 0 test_config] rep seen id show ?thesis
    by (auto simp: absorbed_def Let_def)
qed

end
