(* ===== verification/Secondary_Losses.thy ===== *)
theory Secondary_Losses
  imports Secondary_Calls Secondary_Reports
begin

text \<open>
  A command that is lost on the way. The secondary stays silent, then answers every poll with the N(R) that
  still asks for the command; that is what the primary resends it on, and nothing else.

  Property: the command is resent once, and what follows is as if it had not been lost.
\<close>

section \<open>The command is lost\<close>

text \<open>A secondary that will not hear the next command, the first it is sent, and has no other business.\<close>

definition deaf :: "int \<Rightarrow> secondary \<Rightarrow> bool" where
  "deaf a s \<longleftrightarrow> ready a (s\<lparr>sc_i_frames_seen := 1\<rparr>) \<and> sc_swallow_first s \<and> sc_i_frames_seen s = 0 \<and> sc_pending s = None"

lemma sec_call_lost: "deaf a s \<Longrightarrow> sec_call (a, i_ctrl (sc_vr s) n, m) s = ([], s\<lparr>sc_i_frames_seen := 1\<rparr>)" if "seq_no n"
  using that by (auto simp: deaf_def ready_def sec_call_def sec_command_def Let_def)

text \<open>A read of nothing, which lasts as long as its budget and the port's timeout.\<close>

context fake_line
begin

lemma timeout_kept: "link_write P data l = (r, l') \<Longrightarrow> fk_timeout (dev (world l')) = fk_timeout (dev (world l))"
proof -
  have "fk_timeout (foldl fake_frame w fs) = fk_timeout w" for w fs
    by (induction fs arbitrary: w) (simp_all add: fake_frame_def split: prod.split)
  then show "link_write P data l = (r, l') \<Longrightarrow> fk_timeout (dev (world l')) = fk_timeout (dev (world l))"
    by (auto simp: link_write_def io_defs fake_write_def split: prod.splits)
qed

lemma read_loop_silent:
  "line dev s [] t l \<Longrightarrow> e \<le> h \<Longrightarrow> nat (e - t) < n
    \<Longrightarrow> \<exists>l' t'. read_loop P n e h g x l = (Inr [], l') \<and> line dev s [] t' l' \<and> t \<le> t'
      \<and> t' \<le> max t e + fk_timeout (dev (world l)) + 1 \<and> peers l' = peers l \<and> frames_sent dev l' = frames_sent dev l"
proof (induction n arbitrary: t l)
  case (Suc n)
  let ?T = "fk_timeout (dev (world l))"
  have ln: "fk_rx (dev (world l)) = []" "0 \<le> ?T" "fk_now (dev (world l)) = t" "idle (lk_deframer l)"
    using Suc.prems(1) by (simp_all add: line_def Let_def)
  have part: "\<not> partial_frame (lk_deframer l)" using ln(4) by (auto simp: idle_def partial_frame_def)
  define la where "la = l\<lparr>world := put (dev (world l)) (world l)\<rparr>"
  define lb where "lb = la\<lparr>world := put ((dev (world la))\<lparr>fk_now := t + ?T\<rparr>) (world la)\<rparr>"
  have a: "on_port (ser_in_waiting P) l = (Inr 0, la)" using ln(1) by (simp add: la_def)
  have b: "on_port (ser_read P 1) la = (Inr [], lb)" using ln(1,3) by (simp add: la_def lb_def fake_read_def)
  have "line dev s [] (t + ?T) lb" using Suc.prems(1) by (simp add: la_def lb_def line_def Let_def)
  from line_clock [OF this] obtain l1 where c: "clock P lb = (Inr (t + ?T), l1)" and l1: "line dev s [] (t + ?T + 1) l1"
    "peers l1 = peers lb" "frames_sent dev l1 = frames_sent dev lb" by blast
  have same: "peers l1 = peers l" "frames_sent dev l1 = frames_sent dev l" "fk_timeout (dev (world l1)) = ?T" "lk_deframer l1 = lk_deframer l"
    using l1(2,3) c by (auto simp: la_def lb_def frames_sent_def)
  have turn: "read_loop P (Suc n) e h g x l = (if t + ?T \<ge> e then (Inr [], l1) else read_loop P n e h g x l1)"
    using Suc.prems(2) a b c part same(4) by (simp add: io_defs df_partial_def Let_def del: on_fake)
  show ?case
  proof (cases "e \<le> t + ?T")
    case True
    with turn l1(1) same(1,2) ln(2) show ?thesis by auto
  next
    case False
    have "nat (e - (t + ?T + 1)) < n" using Suc.prems(3) ln(2) False by linarith
    from Suc.IH [OF l1(1) Suc.prems(2) this] obtain l' t' where l': "read_loop P n e h g x l1 = (Inr [], l')"
      "line dev s [] t' l'" "t + ?T + 1 \<le> t'" "t' \<le> max (t + ?T + 1) e + ?T + 1" "peers l' = peers l"
      "frames_sent dev l' = frames_sent dev l" unfolding same(1-3) by blast
    have "t \<le> t'" "t' \<le> max t e + ?T + 1" using l'(3,4) False ln(2) by simp_all
    moreover have "read_loop P (Suc n) e h g x l = (Inr [], l')" using turn l'(1) False by simp
    ultimately show ?thesis using l'(2,5,6) by blast
  qed
qed simp

lemma read_silent:
  assumes "line dev s [] t l" and "0 \<le> b" and "b < int fuel"
  shows "\<exists>l' t'. read_frames P fuel b l = (Inr [], l') \<and> line dev s [] t' l' \<and> t \<le> t'
    \<and> t' \<le> t + b + fk_timeout (dev (world l)) + 2 \<and> peers l' = peers l \<and> frames_sent dev l' = frames_sent dev l"
proof -
  from line_clock [OF assms(1)] obtain l1 where l1: "clock P l = (Inr t, l1)" "line dev s [] (t + 1) l1"
    "peers l1 = peers l" "frames_sent dev l1 = frames_sent dev l" by blast
  have T: "fk_timeout (dev (world l1)) = fk_timeout (dev (world l))" using l1(1) by auto
  have "t + b \<le> t + max b hard_cap_default" "nat (t + b - (t + 1)) < fuel" using assms(2,3) by auto
  from read_loop_silent [OF l1(2) this, of idle_gap_default 0] obtain l' t' where l':
    "read_loop P fuel (t + b) (t + max b hard_cap_default) idle_gap_default 0 l1 = (Inr [], l')" "line dev s [] t' l'"
    "t + 1 \<le> t'" "t' \<le> max (t + 1) (t + b) + fk_timeout (dev (world l)) + 1" "peers l' = peers l1"
    "frames_sent dev l' = frames_sent dev l1" unfolding T by blast
  have "read_frames P fuel b l = (Inr [], l')" using l1(1) l'(1) by (simp add: read_frames_def io_defs del: on_fake)
  with l' l1(3,4) assms(2) show ?thesis by (intro exI [of _ l'] exI [of _ t']) auto
qed

text \<open>The answer to a poll that still asks for the command.\<close>

lemma still_asked:
  assumes "ready a s" and "sc_pending s = None"
  shows "sec_next (s\<lparr>sc_polls_seen := k\<rparr>) = ([(a, rr_ctrl (sc_vr s) True, [])], s\<lparr>sc_polls_seen := k\<rparr>)"
  using readyD(1-6) [OF assms(1)] assms(2) by (simp add: sec_next_def sec_rr_eq)

lemma resend:
  assumes "clock P l = (Inr t, l1)" and "\<not> acked x" "missing x" "retx_at x < t" "retx_left x \<noteq> 0"
    and "link_write P (xa_frame c) (l1\<lparr>stats := (stats l1)\<lparr>st_retx := st_retx (stats l1) + 1\<rparr>\<rparr>) = (Inr (), l2)"
  shows "poll_again P c x l
    = (Inr (x\<lparr>retx_left := retx_left x - 1, retx_at := t + 1000000, missing := False\<rparr>), l2)"
  using assms by (simp add: poll_again_def upd_stats_def io_defs del: on_fake)

text \<open>Once the second is over the command goes out again, and the transfer is one in which nothing was lost.\<close>

lemma asked_again:
  assumes c: "xa_addr c = a" "calm_polls dev (xa_on_poll c)" "0 \<le> xa_poll_interval c" "xa_router c p = ACCEPT"
    "xa_frame c = wire (a, i_ctrl (xa_sent_ns c) v, m)" and v: "seq_no v" and fuel: "0 < fuel"
    and s: "ready a s" "response_for m s = Some p" "0 \<le> sc_i_frames_seen s" "xa_sent_ns c = sc_vr s"
    and ln: "line dev s [] t l" "vr (peer_of l a) = sc_vs s"
    and x: "\<not> acked x" "missing x" "retx_at x < t" "retx_left x \<noteq> 0"
    and budget: "t + int (sc_rr_before_response s) * (xa_poll_interval c + 4) + 3 \<le> deadline x" "sc_rr_before_response s < n"
  shows "\<exists>l'. io_bind (poll_again P c x) (exchange_loop P fuel c n) l = (Inr p, l') \<and> in_step dev a (served (took p s)) l'
    \<and> commands_in (frames_sent dev l') = commands_in (frames_sent dev l) @ [m]"
proof -
  note r = readyD(1-6) [OF s(1)]
  have sn: "seq_no (xa_sent_ns c)" using s(4) r by simp
  from line_clock [OF ln(1)] obtain l1 where l1: "clock P l = (Inr t, l1)" "line dev s [] (t + 1) l1"
    "peers l1 = peers l" "frames_sent dev l1 = frames_sent dev l" by blast
  let ?l1 = "l1\<lparr>stats := (stats l1)\<lparr>st_retx := st_retx (stats l1) + 1\<rparr>\<rparr>"
  have ln1: "line dev s [] (t + 1) ?l1" using l1(2) by simp
  obtain fs s2 where nx: "sec_next (took p s) = (fs, s2)" by (metis prod.exhaust)
  have rdy: "ready a (took p s)" using s(1,3) by simp
  have call: "sec_call (a, i_ctrl (xa_sent_ns c) v, m) s = (fs, s2)"
    using sec_call_command [OF s(1,2) v] nx s(4) by (simp add: took_def)
  have oct: "octets (a, i_ctrl (xa_sent_ns c) v, m)" using r sn v by (simp add: octets_def)
  from line_write [OF ln1 oct call sec_next_octets(1) [OF rdy nx]] obtain l2 where l2:
    "link_write P (xa_frame c) ?l1 = (Inr (), l2)" "line dev s2 fs (t + 1) l2" "peers l2 = peers l1"
    "frames_sent dev l2 = frames_sent dev l @ [(a, i_ctrl (xa_sent_ns c) v, m)]"
    using l1(4) c(5) by auto
  let ?y = "x\<lparr>retx_left := retx_left x - 1, retx_at := t + 1000000, missing := False\<rparr>"
  have again: "poll_again P c x l = (Inr ?y, l2)" by (rule resend [OF l1(1) x l2(1)])
  have p2: "peer_of l2 a = peer_of l a" using l2(3) l1(3) by (simp add: peer_of_def)
  have "\<exists>l'. exchange_loop P fuel c n ?y l2 = (Inr p, l') \<and> in_step dev a (served (took p s)) l'
      \<and> frames_sent dev l' = frames_sent dev l2 @ replicate (sc_owed_rr (took p s)) (a, rr_ctrl (sc_vs (took p s)) True, [])
          @ [(a, rr_ctrl ((sc_vs (took p s) + 1) AND 7) False, [])]"
    by (rule transfer_loop [OF c(1-3) sn c(4) fuel rdy _ _ nx l2(2)])
      (use ln(2) x(1) budget p2 s(4) in \<open>simp_all add: took_def\<close>)
  then obtain l' where l': "exchange_loop P fuel c n ?y l2 = (Inr p, l')" "in_step dev a (served (took p s)) l'"
    "frames_sent dev l' = frames_sent dev l2 @ replicate (sc_owed_rr (took p s)) (a, rr_ctrl (sc_vs s) True, [])
      @ [(a, rr_ctrl ((sc_vs s + 1) AND 7) False, [])]" by (auto simp: took_def)
  have "commands_in (frames_sent dev l') = commands_in (frames_sent dev l) @ [m]"
    using l2(4) l'(3) sn v r by (simp add: commands_in_def is_command_def)
  with again l'(1,2) show ?thesis by (auto simp: io_bind_def)
qed

lemma lost_loop:
  assumes c: "xa_addr c = a" "calm_polls dev (xa_on_poll c)" "0 \<le> xa_poll_interval c" "xa_router c p = ACCEPT"
    "xa_frame c = wire (a, i_ctrl (xa_sent_ns c) v, m)" and v: "seq_no v" and fuel: "0 < fuel"
    and rsp: "\<And>k. response_for m (s\<lparr>sc_polls_seen := k\<rparr>) = Some p"
    and s: "ready a s" "sc_pending s = None" "0 \<le> sc_i_frames_seen s" "xa_sent_ns c = sc_vr s"
    and R: "R = int (sc_rr_before_response s) * (xa_poll_interval c + 4) + 5"
  shows "line dev (s\<lparr>sc_polls_seen := k\<rparr>) [(a, rr_ctrl (sc_vr s) True, [])] t l
    \<Longrightarrow> vs (peer_of l a) = sc_vr s \<Longrightarrow> vr (peer_of l a) = sc_vs s \<Longrightarrow> \<not> acked x \<Longrightarrow> 0 < retx_left x
    \<Longrightarrow> t + R \<le> deadline x \<Longrightarrow> retx_at x + xa_poll_interval c + 4 + R \<le> deadline x
    \<Longrightarrow> nat (retx_at x - t) + sc_rr_before_response s + 1 < n
    \<Longrightarrow> \<exists>l' k. exchange_loop P fuel c n x l = (Inr p, l') \<and> in_step dev a (served (took p (s\<lparr>sc_polls_seen := k\<rparr>))) l'
      \<and> commands_in (frames_sent dev l') = commands_in (frames_sent dev l) @ [m]"
proof (induction n arbitrary: k t l x)
  case (Suc n)
  let ?s = "s\<lparr>sc_polls_seen := k\<rparr>" and ?i = "xa_poll_interval c"
  note r = readyD(1-6) [OF s(1)]
  have s': "ready a ?s" "sc_pending ?s = None" using s by simp_all
  have sn: "seq_no (xa_sent_ns c)" using s(4) r by simp
  from line_read [OF Suc.prems(1) _ fuel, of ?i] obtain l1 where l1:
    "read_frames P fuel ?i l = (Inr [(a, rr_ctrl (sc_vr s) True, [])], l1)" "line dev ?s [] (t + 2) l1"
    "peers l1 = peers l" "frames_sent dev l1 = frames_sent dev l" by auto
  let ?x = "x\<lparr>missing := True\<rparr>"
  have h: "handle_frames P c [(a, rr_ctrl (sc_vr s) True, [])] x l1 = (Inr (Go ?x), l1)"
    using handle_stale [OF sn, of P 1 x l1] c(1) s(4) by (simp add: stale_def)
  have run: "exchange_loop P fuel c (Suc n) x l = io_bind (poll_again P c ?x) (exchange_loop P fuel c n) l1"
    using l1(1) h by (simp add: io_defs)
  have p1: "peer_of l1 a = peer_of l a" using l1(3) by (simp add: peer_of_def)
  show ?case
  proof (cases "retx_at x < t + 2")
    case True
    have "\<exists>l'. io_bind (poll_again P c ?x) (exchange_loop P fuel c n) l1 = (Inr p, l') \<and> in_step dev a (served (took p ?s)) l'
        \<and> commands_in (frames_sent dev l') = commands_in (frames_sent dev l1) @ [m]"
      by (rule asked_again [OF c v fuel s'(1) rsp _ _ l1(2)])
        (use Suc.prems(3-6,8) p1 s(3,4) R True in simp_all)
    then show ?thesis unfolding run l1(4) by blast
  next
    case False
    have nx: "sec_next (?s\<lparr>sc_polls_seen := sc_polls_seen ?s + 1\<rparr>) = ([(a, rr_ctrl (sc_vr s) True, [])], s\<lparr>sc_polls_seen := k + 1\<rparr>)"
      using still_asked [OF s(1,2), of "k + 1"] by simp
    have "0 \<le> R" using c(3) by (simp add: R)
    then have "t + 2 \<le> deadline x" using Suc.prems(7) c(3) False by linarith
    then have late: "t + 2 \<le> deadline ?x" by simp
    have seq: "seq_no (vr (peer_of l1 a))" using Suc.prems(3) p1 r by simp
    from poll_again_polls [OF l1(2) s'(1) c(1-3) _ late seq nx] False obtain l2 u where l2:
      "poll_again P c ?x l1 = (Inr (?x\<lparr>polls := polls x + 1\<rparr>), l2)"
      "line dev (s\<lparr>sc_polls_seen := k + 1\<rparr>) [(a, rr_ctrl (sc_vr s) True, [])] u l2" "t + 2 < u" "u \<le> t + 2 + 2 + ?i"
      "peer_of l2 = peer_of l1" "frames_sent dev l2 = frames_sent dev l1 @ [(a, rr_ctrl (vr (peer_of l1 a)) True, [])]"
      by auto
    let ?y = "?x\<lparr>polls := polls x + 1\<rparr>"
    have "vs (peer_of l2 a) = sc_vr s" "vr (peer_of l2 a) = sc_vs s" "u + R \<le> deadline ?y"
      "nat (retx_at ?y - u) + sc_rr_before_response s + 1 < n"
      using Suc.prems(2,3,7,8) p1 l2(3-5) False by simp_all
    from Suc.IH [OF l2(2) this(1,2) _ _ this(3) _ this(4)] Suc.prems(4,5,7) obtain l' k' where
      "exchange_loop P fuel c n ?y l2 = (Inr p, l')" "in_step dev a (served (took p (s\<lparr>sc_polls_seen := k'\<rparr>))) l'"
      "commands_in (frames_sent dev l') = commands_in (frames_sent dev l2) @ [m]" by auto
    moreover have "commands_in [(a, rr_ctrl (vr (peer_of l1 a)) True, [])] = []"
      using seq by (simp add: commands_in_def is_command_def)
    ultimately show ?thesis using run l2(1,6) l1(4) by (auto simp: io_defs)
  qed
qed simp

text \<open>The command goes out and is lost, nothing is read, and the first poll is answered.\<close>

lemma exchange_unheard:
  assumes ln: "line dev s [] t l" and s: "deaf a s" "vs (peer_of l a) = sc_vr s" "vr (peer_of l a) = sc_vs s"
    and opts: "calm_polls dev (opt_on_poll opts)" "0 \<le> opt_poll_interval opts" "opt_poll_interval opts < int fuel"
    and budget: "opt_poll_interval opts + fk_timeout (dev (world l)) + 3 \<le> opt_timeout opts"
  shows "\<exists>l' u. exchange P fuel a m opts l = exchange_loop P fuel
        (exchange_args a (sc_vr s) (wire (a, i_ctrl (sc_vr s) (sc_vs s), m)) opts) (fuel - 1)
        ((exchange_start t (opt_timeout opts))\<lparr>polls := 1\<rparr>) l'
    \<and> line dev (s\<lparr>sc_i_frames_seen := 1, sc_polls_seen := sc_polls_seen s + 1\<rparr>) [(a, rr_ctrl (sc_vr s) True, [])] u l'
    \<and> t < u \<and> u \<le> t + 2 * opt_poll_interval opts + fk_timeout (dev (world l)) + 5 \<and> peer_of l' a = peer_of l a
    \<and> commands_in (frames_sent dev l') = commands_in (frames_sent dev l) @ [m]"
proof -
  let ?s = "s\<lparr>sc_i_frames_seen := 1\<rparr>" and ?i = "opt_poll_interval opts" and ?f = "(a, i_ctrl (sc_vr s) (sc_vs s), m)"
  let ?c = "exchange_args a (sc_vr s) (wire ?f) opts" and ?x = "exchange_start t (opt_timeout opts)"
  define T where "T = fk_timeout (dev (world l))"
  have rdy: "ready a ?s" "sc_pending ?s = None" using s(1) by (simp_all add: deaf_def)
  have r: "octet a" "sc_addr s = a" "seq_no (sc_vs s)" "seq_no (sc_vr s)" using readyD(1-4) [OF rdy(1)] by simp_all
  define l0 where "l0 = l\<lparr>peers := (peers l)(a \<mapsto> peer_of l a)\<rparr>"
  have l0: "line dev s [] t l0" using ln by (simp add: l0_def)
  have oct: "octets ?f" using r by (simp add: octets_def)
  from line_write [OF l0 oct sec_call_lost [OF r(3) s(1)]] obtain l1 where l1: "link_write P (wire ?f) l0 = (Inr (), l1)"
    "line dev ?s [] t l1" "peers l1 = peers l0" "frames_sent dev l1 = frames_sent dev l @ [?f]" by (auto simp: l0_def)
  from line_clock [OF l1(2)] obtain l2 where l2: "clock P l1 = (Inr t, l2)" "line dev ?s [] (t + 1) l2"
    "peers l2 = peers l1" "frames_sent dev l2 = frames_sent dev l1" by blast
  have T2: "fk_timeout (dev (world l2)) = T" using timeout_kept [OF l1(1)] l2(1) by (auto simp: T_def l0_def)
  from read_silent [OF l2(2) opts(2,3)] obtain l3 t3 where l3: "read_frames P fuel ?i l2 = (Inr [], l3)"
    "line dev ?s [] t3 l3" "t + 1 \<le> t3" "t3 \<le> t + 1 + ?i + T + 2" "peers l3 = peers l2" "frames_sent dev l3 = frames_sent dev l2"
    unfolding T2 by blast
  have p3: "peer_of l3 a = peer_of l a" using l1(3) l2(3) l3(5) by (simp add: peer_of_def l0_def)
  have nx: "sec_next (?s\<lparr>sc_polls_seen := sc_polls_seen ?s + 1\<rparr>)
      = ([(a, rr_ctrl (sc_vr s) True, [])], ?s\<lparr>sc_polls_seen := sc_polls_seen s + 1\<rparr>)"
    using still_asked [OF rdy] by simp
  have c: "xa_addr ?c = a" "calm_polls dev (xa_on_poll ?c)" "0 \<le> xa_poll_interval ?c" "seq_no (vr (peer_of l3 a))"
    "t3 \<le> deadline ?x" "acked ?x \<or> \<not> missing ?x \<or> t3 \<le> retx_at ?x"
    using opts r s(3) p3 l3(4) budget by (simp_all add: exchange_args_def exchange_start_def T_def)
  from poll_again_polls [OF l3(2) rdy(1) c(1-3,6,5,4) nx] obtain l4 u where l4: "poll_again P ?c ?x l3 = (Inr (?x\<lparr>polls := 1\<rparr>), l4)"
    "line dev (?s\<lparr>sc_polls_seen := sc_polls_seen s + 1\<rparr>) [(a, rr_ctrl (sc_vr s) True, [])] u l4" "t3 < u" "u \<le> t3 + 2 + ?i"
    "peer_of l4 = peer_of l3" "frames_sent dev l4 = frames_sent dev l3 @ [(a, rr_ctrl (vr (peer_of l3 a)) True, [])]"
    by (auto simp: exchange_start_def exchange_args_def)
  obtain n where n: "fuel = Suc n" using opts(2,3) by (cases fuel) auto
  have "exchange P fuel a m opts l = exchange_loop P fuel ?c fuel ?x l2"
    using l1(1) l2(1) s(2,3) r by (simp add: exchange_def get_peer_def io_defs build_frame_octets l0_def [symmetric] del: on_fake)
  moreover have "exchange_loop P fuel ?c (Suc n) ?x l2 = exchange_loop P fuel ?c n (?x\<lparr>polls := 1\<rparr>) l4"
    using l3(1) l4(1) by (simp add: io_defs exchange_args_def)
  moreover have "commands_in (frames_sent dev l4) = commands_in (frames_sent dev l) @ [m]"
    using l4(6) l3(6) l2(4) l1(4) r c(4) by (simp add: commands_in_def is_command_def)
  ultimately show ?thesis using l4(2-5) l3(3,4) p3 n by (intro exI [of _ l4] exI [of _ u]) (simp add: T_def)
qed

lemma exchange_lost:
  assumes ln: "line dev s [] t l" and s: "deaf a s" "vs (peer_of l a) = sc_vr s" "vr (peer_of l a) = sc_vs s"
    and rsp: "\<And>n k. response_for m (s\<lparr>sc_i_frames_seen := n, sc_polls_seen := k\<rparr>) = Some p"
    and opts: "opt_router opts p = ACCEPT" "calm_polls dev (opt_on_poll opts)" "0 \<le> opt_poll_interval opts"
    and fuel: "opt_poll_interval opts < int fuel" "1000000 + sc_rr_before_response s + 2 < fuel"
    and budget: "1000000 + 2 * opt_poll_interval opts + fk_timeout (dev (world l))
      + int (sc_rr_before_response s) * (opt_poll_interval opts + 4) + 20 \<le> opt_timeout opts"
  shows "\<exists>l' k. exchange P fuel a m opts l = (Inr p, l')
    \<and> in_step dev a (served (took p (s\<lparr>sc_i_frames_seen := 1, sc_polls_seen := k\<rparr>))) l'
    \<and> commands_in (frames_sent dev l') = commands_in (frames_sent dev l) @ [m, m]"
proof -
  let ?s = "s\<lparr>sc_i_frames_seen := 1\<rparr>" and ?i = "opt_poll_interval opts" and ?x = "exchange_start t (opt_timeout opts)"
  let ?c = "exchange_args a (sc_vr s) (wire (a, i_ctrl (sc_vr s) (sc_vs s), m)) opts"
  define T where "T = fk_timeout (dev (world l))"
  define R where "R = int (sc_rr_before_response s) * (?i + 4) + 5"
  have rdy: "ready a ?s" "sc_pending ?s = None" "0 \<le> sc_i_frames_seen ?s" using s(1) by (simp_all add: deaf_def)
  have r: "seq_no (sc_vs s)" "seq_no (sc_vr s)" using readyD(3,4) [OF rdy(1)] by simp_all
  have T: "0 \<le> T" using ln by (simp add: T_def line_def Let_def)
  have "0 \<le> int (sc_rr_before_response s) * (?i + 4)" using opts(3) by simp
  then have "?i + fk_timeout (dev (world l)) + 3 \<le> opt_timeout opts" using budget opts(3) by linarith
  from exchange_unheard [OF ln s opts(2,3) fuel(1) this, of m] obtain l4 u where
    run: "exchange P fuel a m opts l = exchange_loop P fuel ?c (fuel - 1) (?x\<lparr>polls := 1\<rparr>) l4"
    and l4: "line dev (?s\<lparr>sc_polls_seen := sc_polls_seen s + 1\<rparr>) [(a, rr_ctrl (sc_vr s) True, [])] u l4" "t < u"
      "u \<le> t + 2 * ?i + T + 5" "peer_of l4 a = peer_of l a"
      "commands_in (frames_sent dev l4) = commands_in (frames_sent dev l) @ [m]" unfolding T_def by blast
  have "\<exists>l' k. exchange_loop P fuel ?c (fuel - 1) (?x\<lparr>polls := 1\<rparr>) l4 = (Inr p, l')
      \<and> in_step dev a (served (took p (?s\<lparr>sc_polls_seen := k\<rparr>))) l'
      \<and> commands_in (frames_sent dev l') = commands_in (frames_sent dev l4) @ [m]"
  proof (rule lost_loop [where s = ?s and t = u and v = "sc_vs s" and R = R and k = "sc_polls_seen s + 1"])
    show "u + R \<le> deadline (?x\<lparr>polls := 1\<rparr>)" "retx_at (?x\<lparr>polls := 1\<rparr>) + xa_poll_interval ?c + 4 + R \<le> deadline (?x\<lparr>polls := 1\<rparr>)"
      using l4(3) budget T opts(3) by (simp_all add: exchange_start_def exchange_args_def T_def [symmetric] R_def)
    show "nat (retx_at (?x\<lparr>polls := 1\<rparr>) - u) + sc_rr_before_response ?s + 1 < fuel - 1"
      using fuel(2) l4(2) by (simp add: exchange_start_def)
  qed (use l4(1,4) s(2,3) r rdy rsp opts fuel in \<open>simp_all add: exchange_args_def exchange_start_def R_def\<close>)
  with run l4(5) show ?thesis by auto
qed

end

section \<open>A command of the session\<close>

text \<open>
  The link before its first request is lost, in step with a deaf secondary that serves the table. Beside the
  second that passes until the command is sent again, there is time for 36 polls in the shortest budget.
\<close>

definition unheard :: "('w \<Rightarrow> fake) \<Rightarrow> int \<Rightarrow> (int \<times> bytes) list \<Rightarrow> bytes list \<Rightarrow> int list \<Rightarrow> 'w link \<Rightarrow> bool" where
  "unheard dev a rs ms ns l \<longleftrightarrow> (\<exists>s t. line dev s [] t l \<and> deaf a s \<and> vs (peer_of l a) = sc_vr s \<and> vr (peer_of l a) = sc_vs s
     \<and> serves rs s \<and> sc_rr_before_response s \<le> 36 \<and> fk_timeout (dev (world l)) \<le> 50000
     \<and> commands_in (frames_sent dev l) = ms \<and> sc_rejected_ns s = ns)"

text \<open>From then on it keeps up, with the first message on the line once more.\<close>

definition overcomes :: "('w \<Rightarrow> fake) \<Rightarrow> int \<Rightarrow> (int \<times> bytes) list \<Rightarrow> bytes list \<Rightarrow> int list \<Rightarrow> 'w link \<Rightarrow> bytes list \<Rightarrow> bool" where
  "overcomes dev a rs ms ns l taken \<longleftrightarrow>
     (if taken = [] then unheard dev a rs ms ns l else keeps_up dev a rs (ms @ [hd taken]) 1 ns l taken)"

context fake_line
begin

lemma request_unheard:
  assumes "unheard dev a rs ms ns l" and "calm_polls dev g" and "1000060 \<le> fuel" and "m \<noteq> []"
    and "uint (hd m) \<notin> set INDICATION_CODES" and "proc_timeout \<le> t"
  shows "\<exists>l'. transport_request P fuel h g a m t l = (Inr (answer rs m), l') \<and> keeps_up dev a rs (ms @ [m]) 1 ns l' [m]"
proof -
  from assms(1) obtain s u where s: "line dev s [] u l" "deaf a s" "vs (peer_of l a) = sc_vr s" "vr (peer_of l a) = sc_vs s"
    "serves rs s" "sc_rr_before_response s \<le> 36" "fk_timeout (dev (world l)) \<le> 50000"
    "commands_in (frames_sent dev l) = ms" "sc_rejected_ns s = ns" by (auto simp: unheard_def)
  let ?o = "transport_opts m t h g"
  have sv: "speaks rs" using s(5) by (simp add: serves_def)
  have serves: "serves rs (s\<lparr>sc_i_frames_seen := 1, sc_polls_seen := k\<rparr>)" for k using s(5) by (simp add: serves_def)
  have rsp: "response_for m (s\<lparr>sc_i_frames_seen := n, sc_polls_seen := k\<rparr>) = Some (answer rs m)" for n k
    using s(5) assms(4) by (cases m) (simp_all add: serves_def response_for_def answer_def split: option.split)
  have o: "opt_router ?o (answer rs m) = ACCEPT" "calm_polls dev (opt_on_poll ?o)" "0 \<le> opt_poll_interval ?o"
    "opt_poll_interval ?o < int fuel" "1000000 + sc_rr_before_response s + 2 < fuel"
    "1000000 + 2 * opt_poll_interval ?o + fk_timeout (dev (world l))
      + int (sc_rr_before_response s) * (opt_poll_interval ?o + 4) + 20 \<le> opt_timeout ?o"
    using router_accepts [OF sv assms(4,5)] assms(2,3,6) s(6,7) by (simp_all add: proc_timeout_def)
  from exchange_lost [OF s(1-4) rsp o] obtain l' k where
    "exchange P fuel a m ?o l = (Inr (answer rs m), l')"
    "in_step dev a (served (took (answer rs m) (s\<lparr>sc_i_frames_seen := 1, sc_polls_seen := k\<rparr>))) l'"
    "commands_in (frames_sent dev l') = ms @ [m, m]" unfolding s(8) by blast
  with serves [of k] s(9) show ?thesis by (auto simp: keeps_up_def transport_request_def)
qed

lemma request_overcomes:
  assumes "calm_polls dev g" and "1000060 \<le> fuel" and "m \<noteq> []" and "uint (hd m) \<notin> set INDICATION_CODES"
    and "proc_timeout \<le> t"
  shows "io_sim (overcomes dev a rs ms ns) (transport_request P fuel h g a m t) (ideal_device (answer rs) a m t)"
proof (rule io_simI)
  fix l and taken :: "bytes list" assume o: "overcomes dev a rs ms ns l taken"
  show "\<exists>r s' t'. transport_request P fuel h g a m t l = (r, s')
      \<and> ideal_device (answer rs) a m t taken = (r, t') \<and> overcomes dev a rs ms ns s' t'"
  proof (cases "taken = []")
    case True
    with o request_unheard [OF _ assms, of a rs ms ns l h] show ?thesis by (auto simp: overcomes_def ideal_device_def)
  next
    case False
    then have "keeps_up dev a rs (ms @ [hd taken]) 1 ns l taken" using o by (simp add: overcomes_def)
    from io_simD [OF request_keeps_up [OF assms(1) _ assms(3-5)] this, of fuel h] assms(2) False show ?thesis
      by (auto simp: overcomes_def ideal_device_def)
  qed
qed

end

interpretation losing:
  transports_agree "transport_request fake_port (fuel + 1000060) None None" "ideal_device (answer rs)"
    "overcomes (\<lambda>w. w) a rs ms ns" a for fuel rs a ms ns
  by unfold_locales (simp add: alone.request_overcomes calm_polls_def)

text \<open>
  C5: a lost command is recovered. The link is in session with the strict secondary, in step, and the next
  command does not reach it: whatever command of the session that is, it returns what it returns with the
  ideal device. The message that was lost has been sent twice and every other once, and the secondary has
  heard the lost one the second time only: none was executed twice, and none refused.
\<close>

theorem lost_command_recovered:
  assumes "line (\<lambda>w. w) s [] t l" and "deaf a s" and "vs (peer_of l a) = sc_vr s" and "vr (peer_of l a) = sc_vs s"
    and "serves rs s" and "sc_rr_before_response s \<le> 36" and "fk_timeout (world l) \<le> 50000" and "1000060 \<le> fuel"
    and "call_command (ideal_device (answer rs)) \<lparr>r_addr = a, r_antenna = None\<rparr> name args [] = (x, taken)" and "taken \<noteq> []"
  shows "\<exists>l'. call_command (transport_request fake_port fuel None None) \<lparr>r_addr = a, r_antenna = None\<rparr> name args l = (x, l')
    \<and> commands_in (fk_sent (world l')) = commands_in (fk_sent (world l)) @ hd taken # taken
    \<and> sc_i_frames_seen (fk_sec (world l')) = 1 + int (length taken)
    \<and> sc_rejected_ns (fk_sec (world l')) = sc_rejected_ns s"
proof -
  have "overcomes (\<lambda>w. w) a rs (commands_in (fk_sent (world l))) (sc_rejected_ns s) l []"
    using assms(1-7) by (auto simp: overcomes_def unheard_def frames_sent_def)
  moreover have "r_addr \<lparr>r_addr = a, r_antenna = None\<rparr> = a" by simp
  ultimately obtain l' where
    "call_command (transport_request fake_port (fuel - 1000060 + 1000060) None None) \<lparr>r_addr = a, r_antenna = None\<rparr> name args l = (x, l')"
    "overcomes (\<lambda>w. w) a rs (commands_in (fk_sent (world l))) (sc_rejected_ns s) l' taken"
    using io_simD [OF losing.agree_command, of "\<lparr>r_addr = a, r_antenna = None\<rparr>" a rs "commands_in (fk_sent (world l))"
      "sc_rejected_ns s" l "[]" "fuel - 1000060" name args] assms(9) by auto
  with assms(8,10) show ?thesis
    by (auto simp: overcomes_def keeps_up_def in_step_def line_def Let_def frames_sent_def)
qed

theorem lost_command_recovered_witness:
  "let s = (new_secondary 1 default_responses)\<lparr>sc_connected := True, sc_swallow_first := True, sc_rr_before_response := 20\<rparr>;
       l = (new_link 1000000 (new_fake s))\<lparr>peers := [1 \<mapsto> \<lparr>vs = 0, vr = 0, connected = True\<rparr>]\<rparr> in
   \<exists>l'. call_command (transport_request fake_port 1000060 None None) \<lparr>r_addr = 1, r_antenna = None\<rparr> ''set_tilt''
       [(''degrees'', PyFloat 3)] l = (Inr (RTilt 3), l')
     \<and> commands_in (fk_sent (world l')) = [[0x33, 2, 0, 30, 0], [0x33, 2, 0, 30, 0], [0x34, 0, 0]]
     \<and> sc_i_frames_seen (fk_sec (world l')) = 3"
proof -
  let ?s = "(new_secondary 1 default_responses)\<lparr>sc_connected := True, sc_swallow_first := True, sc_rr_before_response := 20\<rparr>"
  let ?l = "(new_link 1000000 (new_fake ?s))\<lparr>peers := [1 \<mapsto> \<lparr>vs = 0, vr = 0, connected = True\<rparr>]\<rparr>"
  have ideal: "call_command (ideal_device (answer default_responses)) \<lparr>r_addr = 1, r_antenna = None\<rparr> ''set_tilt''
      [(''degrees'', PyFloat 3)] [] = (Inr (RTilt 3), [[0x33, 2, 0, 30, 0], [0x34, 0, 0]])"
    by code_simp
  have ln: "line (\<lambda>w. w) ?s [] 0 ?l" by (simp add: line_def new_link_def new_fake_def)
  have deaf: "deaf 1 ?s" by (simp add: deaf_def ready_def new_secondary_def octet_def)
  have "speaks default_responses"
    by (simp add: speaks_def default_responses_def retap_response_def procedure_codes)
  then have serves: "serves default_responses ?s" by (simp add: serves_def new_secondary_def)
  have numbers: "vs (peer_of ?l 1) = sc_vr ?s" "vr (peer_of ?l 1) = sc_vs ?s" "fk_timeout (world ?l) \<le> 50000"
    by (simp_all add: peer_of_def new_secondary_def new_link_def new_fake_def)
  from lost_command_recovered [OF ln deaf numbers(1,2) serves _ numbers(3) _ ideal, of 1000060] show ?thesis
    by (auto simp: new_link_def new_fake_def commands_in_def Let_def)
qed

end
