(* ===== verification/Spec2Isabelle.thy ===== *)
theory Spec2Isabelle
  imports Link_Bisection Link_Timing Session_Properties Session_Types Service Preflight Command_Line Sniffer Secondary_Alarms Secondary_Losses
begin

text \<open>
  openaisg: an AISG v2.0 primary for antenna tilt actuators (RET), verified.

  The program drives a half-duplex RS-485 bus under HDLC normal response mode (the secondary speaks only
  when polled), runs the RETAP layer-7 procedures over it, and offers them over HTTP with a WebSocket
  stream of events. One worker thread owns the serial port; the HTTP side reaches it through a queue of
  commands with futures, and hears from it through an event bus.

  \<^bold>\<open>Theories and source.\<close>

  \<^item> \<open>Prelude\<close>: bytes, Python integers, times (microseconds), the exceptions and their hierarchy, the two
    result types (pure, and effectful over a state), rules to reason about effectful code (\<open>io_post\<close>: from
    a state to a result or an exception; \<open>io_safe\<close>: an invariant kept and the exceptions possible), the
    formatting of numbers, and the locale \<open>stepper\<close> of machines with an invariant.
  \<^item> \<open>Hdlc_Framing\<close>, \<open>Hdlc_Deframer\<close>, \<open>Hdlc_Control\<close>: \<open>openaisg/hdlc.py\<close>. The FCS and its table, byte
    stuffing, \<open>build_frame\<close>, \<open>parse_frames\<close>; the class \<open>Deframer\<close> as a record with \<open>feed\<close> and \<open>partial\<close>;
    control fields and XID parameters.
  \<^item> \<open>Link_State\<close>, \<open>Link_Scan\<close>, \<open>Link_Exchange\<close>: \<open>openaisg/link.py\<close>. \<open>AisgLink\<close> and \<open>PeerState\<close> as
    records, opening the port, \<open>_xfer\<close>, \<open>_command\<close>, \<open>_read_frames\<close>; scan with bisection, addressing,
    connecting; \<open>exchange\<close> with \<open>_apply_ack\<close>, turn by turn.
  \<^item> \<open>Link_Bisection\<close>, \<open>Link_Trace\<close>, \<open>Link_Timing\<close>, \<open>Link_Safe\<close>: theorems about the link: what the bisection
    finds, what goes over the line and what is delivered, that the loops end, and what every operation
    keeps and raises.
  \<^item> \<open>Retap\<close>: \<open>openaisg/retap.py\<close>. \<open>Ret\<close> and its procedures over any transport (locale \<open>transport\<close>).
  \<^item> \<open>Session_Alarms\<close>, \<open>Session_Commands\<close>, \<open>Session_State\<close>, \<open>Session_Worker\<close>: \<open>openaisg/session.py\<close>.
    Router, transport and alarm tracker; commands, queue and futures; the record of \<open>SerialWorker\<close> with
    its public methods; the state machine, command execution and \<open>run\<close>.
  \<^item> \<open>Session_Invariant\<close>, \<open>Session_Runs\<close>, \<open>Session_Properties\<close>, \<open>Session_Types\<close>: theorems about the
    worker: its invariant, what becomes of a command, and the types of the values it hands out.
  \<^item> \<open>Events\<close>, \<open>Websocket\<close>: \<open>api/events.py\<close> and the coroutine \<open>events\<close> of \<open>api/app.py\<close>.
  \<^item> \<open>Fake_Secondary\<close>: \<open>tests/fake_secondary.py\<close>, the strict secondary station and the port it sits on, with
    which the repository tests its link layer: here the other side of the protocol. \<open>Secondary_Link\<close>,
    \<open>Client_Agreement\<close>, \<open>Secondary_Calls\<close>, \<open>Secondary_Session\<close> and \<open>Whole_System\<close> compose the two sides,
    layer by layer: the line and a transfer, the procedures over it against an ideal device, the worker's
    discovery and entry actions, and a client's call from \<open>submit\<close> to the answer. \<open>Secondary_Reports\<close> and
    \<open>Secondary_Alarms\<close> do so for a secondary that reports alarms in the middle of a command: the transfer by
    the script of what the secondary has to say, then the worker and its alarm tracker. \<open>Secondary_Losses\<close>
    is about the command that does not reach the secondary and is sent again.
  \<^item> \<open>Jobs\<close>: \<open>api/jobs.py\<close>. \<open>Api\<close>: the endpoints of \<open>api/app.py\<close>. \<open>Service\<close>: its configuration from
    the environment, and \<open>lifespan\<close>. \<open>Sniffer\<close>: \<open>utils/sniff_bridge.py\<close>. \<open>Preflight\<close>: \<open>utils/preflight.py\<close>.
    \<open>Command_Line\<close>: \<open>cli/aisgctl\<close>, with what it does over the strict secondary.

  \<^bold>\<open>State and operations.\<close> An object is a record, a method a function that returns its result or its
  exception with the new state. What the repository does not contain is a parameter: pyserial and the
  clock are the record \<open>port_ops\<close> of operations on an arbitrary world, any of which may raise \<open>OSError\<close>;
  so every theorem holds for every behaviour of the port and the device, unless it names a contract.
  The callbacks that the worker passes down work on that world as well, which is how \<open>Session_State\<close>
  keeps its indications and events there. The locales are the interfaces: \<open>port_local\<close> and \<open>link_local\<close>
  (what an invariant must withstand to be kept by everything the link does), \<open>writes\<close> and \<open>ghost_local\<close>
  (accounting for what goes over a tapped port), \<open>running_clock\<close> (what is assumed of time), \<open>transparent\<close>
  (stuffing), \<open>transport\<close> (what \<open>Ret\<close> needs), \<open>transports_agree\<close> (two transports that answer alike),
  \<open>fake_line\<close> (the secondary's port somewhere in a world), \<open>observed_line\<close> (the same, with what the
  callbacks note there), \<open>beside_link\<close> (what the worker does beside its
  link), \<open>stepper\<close>. Each is interpreted on the model.

  \<^bold>\<open>What is shown.\<close> Framing is a round trip that detects short bursts and resynchronises after noise, and
  the incremental and one-shot parsers agree. The scan finds every device the search depth can tell
  apart. A transfer sends its command at most four times, never after it was acknowledged, keeps the
  sequence numbers in step with its outcome, delivers each frame once and ends. Replies are understood
  exactly when they are well-formed, and tilts survive the wire. The worker's advertised state is true
  in every reachable state, no command is lost or answered twice, a lease and a shutdown free the port,
  and the ways in which a client is left without an answer are exhibited. Alarm edges replay to the
  alarm set; the bus, its clients and the job store lose nothing without a sign; the tilt endpoint keeps
  to the antenna's range. What the worker caches and answers with is of its type, whatever the device
  says; the service runs with what its environment says. Over the strict secondary all of it works
  together: connecting and any command behave as with an ideal device that answers from a table, a
  client of a fresh worker has the answer after five turns, and the command-line client prints it; the
  alarms that the device reports in the meantime each reach the alarm tracker once and in order, and a
  command that is lost on the way is recovered. What the proofs brought up about the code is in the manifest's findings.

  \<^bold>\<open>Loops and fuel.\<close> A \<open>while True\<close> that waits for the line runs on a fuel argument, one unit a turn, and
  ends in \<open>Diverged\<close>, which no \<open>except\<close> clause of the model matches, when it is used up. \<open>Link_Timing\<close>
  shows which fuel is enough: under a running clock a turn takes at least a microsecond, so the budget in
  microseconds and three more bound the turns of a transfer, and three seconds those of a read; a theorem
  that does not name a fuel holds for every one. An indication extends the deadline of a transfer, so the
  bound is for transfers whose router accepts none; \<open>HUNG\<close> is the phase of a worker thread in a loop that
  did not end.

  \<^bold>\<open>Concurrency.\<close> \<open>session_step\<close> interleaves the worker thread with calls of its public methods from the
  event loop and with the cancelling of futures. The thread's turns are cut where it waits for work: at
  the top of its loop and at the queue. A call made while a turn is in progress on the port takes effect
  at the next cut; under the source's lock the fields a call touches are only read between cuts, except
  that \<open>snapshot\<close> and the queue's emptiness may be read earlier. The WebSocket coroutine is cut at every
  await.

  \<^bold>\<open>Approximations.\<close> Floats (times, tilts) are integers of microseconds and rational numbers; Python's set
  iteration order in \<open>_clear_stale_links\<close> is that of the tuple; log records and debug prints are left out;
  texts of the standard library's own exceptions are empty; the type errors that Python raises on a wrong
  argument are raised where the source first uses it.

  \<^bold>\<open>Not modelled.\<close> The UI, the deployment manifests, static files, the JSON and the routing of FastAPI,
  the arguments of argparse, the wording of what the scripts print, and the test cases themselves. Of
  the configuration, the rounding of a number to a float, times that are not finite and digits outside
  ASCII are left out. The secondary's knobs that stage failures (a lost or refused command, indications,
  duplicates) are modelled; the composition theorems are about a secondary that delays or repeats its
  answers and, in \<open>Secondary_Alarms\<close>, makes reports, or, in \<open>Secondary_Losses\<close>, loses the first command; it
  refuses none.
\<close>

end
